(* ===== verification/Prelude.thy ===== *)
theory Prelude
  imports Complex_Main "HOL-Library.Char_ord" "HOL-Library.List_Lexorder" "HOL-Library.Log_Nat"
begin

text \<open>
  The shared vocabulary of the development.

  \<^item> Results: a TypeScript function that may throw returns \<open>'e + 'a\<close>, \<open>Inl\<close> for
    the exception; \<open>bindE\<close> sequences two such calls, \<open>guardE\<close> is a guarded
    \<open>throw\<close>, \<open>mapE\<close> is \<open>Array.map\<close> with a callback that may throw.
  \<^item> A loop with no bound of its own returns an \<open>option\<close> of a result, \<open>None\<close> when
    it does not return; \<open>bindL\<close> sequences these.
  \<^item> Numbers: a JavaScript \<open>number\<close> is a double. \<open>number\<close> has the finite values as
    exact rationals and the three special values, so that \<open>Number.isSafeInteger\<close> is
    what the runtime computes; a value that passed it is an \<open>int\<close>.
  \<^item> Strings are \<open>char list\<close>: a character stands for a code unit below 256.
  \<^item> \<open>find_first\<close> is \<open>Array.find\<close>; \<open>js_map\<close> is a \<open>Map\<close> filled by \<open>set\<close> in
    list order (the last entry of a key wins); \<open>dedupe\<close> keeps first occurrences.
  \<^item> The locale \<open>guarded_machine\<close> is the contract of an operation that may refuse and
    otherwise keeps an invariant; \<open>ranked_parents\<close> is the contract of a parent map
    without cycles, over which every parent walk of the program stops.
\<close>

named_theorems res_simps "inversion of results that are known to have succeeded"

section \<open>Results\<close>

definition bindE :: "'e + 'a \<Rightarrow> ('a \<Rightarrow> 'e + 'b) \<Rightarrow> 'e + 'b" where
  "bindE m f = (case m of Inl e \<Rightarrow> Inl e | Inr x \<Rightarrow> f x)"

definition guardE :: "bool \<Rightarrow> 'e \<Rightarrow> 'e + unit" where
  "guardE b e = (if b then Inr () else Inl e)"

fun mapE :: "('a \<Rightarrow> 'e + 'b) \<Rightarrow> 'a list \<Rightarrow> 'e + 'b list" where
  "mapE f [] = Inr []"
| "mapE f (x # xs) = bindE (f x) (\<lambda>y. bindE (mapE f xs) (\<lambda>ys. Inr (y # ys)))"

fun is_ok :: "'e + 'a \<Rightarrow> bool" where
  "is_ok (Inr _) = True"
| "is_ok (Inl _) = False"

lemma bindE_simps [simp]: "bindE (Inl e) f = Inl e" "bindE (Inr x) f = f x"
  by (simp_all add: bindE_def)

lemma bindE_Inr_iff [res_simps]: "bindE m f = Inr y \<longleftrightarrow> (\<exists>x. m = Inr x \<and> f x = Inr y)"
  by (cases m) auto

lemma bindE_Inl_iff: "bindE m f = Inl e \<longleftrightarrow> m = Inl e \<or> (\<exists>x. m = Inr x \<and> f x = Inl e)"
  by (cases m) auto

lemma bindE_assoc: "bindE (bindE m f) g = bindE m (\<lambda>x. bindE (f x) g)"
  by (cases m) auto

lemma guardE_simps [simp]: "guardE True e = Inr ()" "guardE False e = Inl e"
  by (simp_all add: guardE_def)

lemma guardE_Inr_iff [res_simps]: "guardE b e = Inr u \<longleftrightarrow> b"
  by (cases b) auto

lemma guardE_Inl_iff: "guardE b e = Inl e' \<longleftrightarrow> \<not> b \<and> e' = e"
  by (cases b) auto

lemma guardE_bind_Inr [res_simps]: "bindE (guardE b e) f = Inr y \<longleftrightarrow> b \<and> f () = Inr y"
  by (cases b) auto

lemma is_ok_iff: "is_ok m \<longleftrightarrow> (\<exists>x. m = Inr x)"
  by (cases m) auto

lemma Inr_projr: "is_ok m \<Longrightarrow> m = Inr (projr m)"
  by (auto simp: is_ok_iff)

lemma mapE_same:
  assumes "\<And>x y. x \<in> set xs \<Longrightarrow> f x = Inr y \<Longrightarrow> y = x"
  shows "mapE f xs = Inr ys \<Longrightarrow> ys = xs"
  using assms by (induction xs arbitrary: ys) (auto simp: res_simps)

lemma mapE_ok: "mapE f xs = Inr ys \<Longrightarrow> x \<in> set xs \<Longrightarrow> is_ok (f x)"
  by (induction xs arbitrary: ys) (auto simp: res_simps)

lemma mapE_Inr_iff: "is_ok (mapE f xs) \<longleftrightarrow> (\<forall>x\<in>set xs. is_ok (f x))"
proof (induction xs)
  case Nil
  show ?case by simp
next
  case (Cons x xs)
  then show ?case by (cases "f x"; cases "mapE f xs") auto
qed

lemma mapE_nth: "mapE f xs = Inr ys \<Longrightarrow> length ys = length xs \<and> (\<forall>i<length xs. f (xs ! i) = Inr (ys ! i))"
  by (induction xs arbitrary: ys) (auto simp: res_simps less_Suc_eq_0_disj)

lemma mapE_set: "mapE f xs = Inr ys \<Longrightarrow> y \<in> set ys \<longleftrightarrow> (\<exists>x\<in>set xs. f x = Inr y)"
  by (induction xs arbitrary: ys) (auto simp: res_simps)

lemma mapE_map: "mapE f xs = Inr ys \<Longrightarrow> (\<And>x y. x \<in> set xs \<Longrightarrow> f x = Inr y \<Longrightarrow> g y = h x) \<Longrightarrow> map g ys = map h xs"
  by (induction xs arbitrary: ys) (auto simp: res_simps)

section \<open>Results with a state\<close>

text \<open>An operation over a state that it keeps when it throws.\<close>

definition bindS :: "('s \<Rightarrow> ('e + 'a) \<times> 's) \<Rightarrow> ('a \<Rightarrow> 's \<Rightarrow> ('e + 'b) \<times> 's) \<Rightarrow> 's \<Rightarrow> ('e + 'b) \<times> 's" where
  "bindS m f s = (case m s of (Inl e, s') \<Rightarrow> (Inl e, s') | (Inr x, s') \<Rightarrow> f x s')"

definition returnS :: "'a \<Rightarrow> 's \<Rightarrow> ('e + 'a) \<times> 's" where
  "returnS x s = (Inr x, s)"

definition throwS :: "'e \<Rightarrow> 's \<Rightarrow> ('e + 'a) \<times> 's" where
  "throwS e s = (Inl e, s)"

lemma bindS_Inr_iff [res_simps]: "bindS m f s = (Inr y, s'') \<longleftrightarrow> (\<exists>x s'. m s = (Inr x, s') \<and> f x s' = (Inr y, s''))"
  by (auto simp: bindS_def split: prod.splits sum.splits)

lemma returnS_iff [res_simps]: "returnS x s = (r, s') \<longleftrightarrow> r = Inr x \<and> s' = s"
  by (auto simp: returnS_def)

lemma throwS_iff [res_simps]: "throwS e s = (r, s') \<longleftrightarrow> r = Inl e \<and> s' = s"
  by (auto simp: throwS_def)

section \<open>Results of loops that may not return\<close>

definition bindL :: "('e + 'a) option \<Rightarrow> ('a \<Rightarrow> ('e + 'b) option) \<Rightarrow> ('e + 'b) option" where
  "bindL m f = (case m of None \<Rightarrow> None | Some (Inl e) \<Rightarrow> Some (Inl e) | Some (Inr x) \<Rightarrow> f x)"

lemma bindL_simps [simp]:
  "bindL None f = None" "bindL (Some (Inl e)) f = Some (Inl e)" "bindL (Some (Inr x)) f = f x"
  by (simp_all add: bindL_def)

lemma bindL_Inr_iff [res_simps]:
  "bindL m f = Some (Inr y) \<longleftrightarrow> (\<exists>x. m = Some (Inr x) \<and> f x = Some (Inr y))"
  by (auto simp: bindL_def split: option.splits sum.splits)

section \<open>Numbers\<close>

datatype number = JsNum rat | JsNaN | JsPosInf | JsNegInf

definition max_safe_integer :: int where
  "max_safe_integer = 9007199254740991"

fun isSafeInteger :: "number \<Rightarrow> bool" where
  "isSafeInteger (JsNum q) =
     (of_int \<lfloor>q\<rfloor> = q \<and> - max_safe_integer \<le> \<lfloor>q\<rfloor> \<and> \<lfloor>q\<rfloor> \<le> max_safe_integer)"
| "isSafeInteger _ = False"

text \<open>The integer a safe number is; only read after \<open>isSafeInteger\<close> has passed.\<close>

fun int_of_number :: "number \<Rightarrow> int" where
  "int_of_number (JsNum q) = \<lfloor>q\<rfloor>"
| "int_of_number _ = 0"

definition number_of_int :: "int \<Rightarrow> number" where
  "number_of_int z = JsNum (of_int z)"

definition safe_int :: "int \<Rightarrow> bool" where
  "safe_int z \<longleftrightarrow> \<bar>z\<bar> \<le> max_safe_integer"

lemma isSafeInteger_of_int [simp]: "isSafeInteger (number_of_int z) = safe_int z"
  by (auto simp: number_of_int_def safe_int_def)

lemma int_of_number_of_int [simp]: "int_of_number (number_of_int z) = z"
  by (simp add: number_of_int_def)

lemma isSafeInteger_iff: "isSafeInteger n \<longleftrightarrow> (\<exists>z. n = number_of_int z \<and> safe_int z)"
proof (cases n)
  case (JsNum q)
  then show ?thesis
    by (auto simp: number_of_int_def safe_int_def intro!: exI [of _ "\<lfloor>q\<rfloor>"])
qed (auto simp: number_of_int_def)

text \<open>
  The double nearest to a non-negative integer, ties to even: what \<open>Number\<close> makes of a string of
  digits and what a product of two integers rounds to.
\<close>

definition double_of_int :: "int \<Rightarrow> number" where
  "double_of_int n =
     (if n < 2 ^ 53 then JsNum (of_int n)
      else let unit = 2 ^ nat (bitlen n - 53); q = n div unit; r = n mod unit;
               v = (if unit < 2 * r \<or> unit = 2 * r \<and> odd q then q + 1 else q) * unit
           in if 2 ^ 1024 \<le> v then JsPosInf else JsNum (of_int v))"

fun is_finite :: "number \<Rightarrow> bool" where
  "is_finite (JsNum _) = True"
| "is_finite _ = False"

fun number_less :: "number \<Rightarrow> number \<Rightarrow> bool" where
  "number_less (JsNum a) (JsNum b) = (a < b)"
| "number_less JsNegInf (JsNum b) = True"
| "number_less JsNegInf JsPosInf = True"
| "number_less (JsNum a) JsPosInf = True"
| "number_less _ _ = False"

text \<open>\<open>Math.min\<close> of two numbers.\<close>

definition number_min :: "number \<Rightarrow> number \<Rightarrow> number" where
  "number_min a b = (if a = JsNaN \<or> b = JsNaN then JsNaN else if number_less b a then b else a)"

lemma double_of_small: "n < 2 ^ 53 \<Longrightarrow> double_of_int n = number_of_int n"
  by (simp add: double_of_int_def number_of_int_def)

section \<open>JSON values\<close>

text \<open>What an argument of type \<open>unknown\<close> can be, as far as the validators look at it.\<close>

datatype json =
    JNull | JBool bool | JNum number | JStr string | JArr "json list"
  | JObj "(string \<times> json) list" | JUndefined

fun is_object :: "json \<Rightarrow> bool" where
  "is_object (JObj _) = True"
| "is_object (JArr _) = True"
| "is_object _ = False"

fun json_field :: "json \<Rightarrow> string \<Rightarrow> json" where
  "json_field (JObj kvs) k = (case map_of kvs k of None \<Rightarrow> JUndefined | Some v \<Rightarrow> v)"
| "json_field _ _ = JUndefined"

section \<open>Strings\<close>

text \<open>\<open>String.toLowerCase\<close> on code units below 256.\<close>

definition lower_char :: "char \<Rightarrow> char" where
  "lower_char c = (let n = of_char c :: nat in
     if 65 \<le> n \<and> n \<le> 90 \<or> 192 \<le> n \<and> n \<le> 222 \<and> n \<noteq> 215 then char_of (n + 32) else c)"

definition js_lower :: "string \<Rightarrow> string" where
  "js_lower s = map lower_char s"

definition is_digit :: "char \<Rightarrow> bool" where
  "is_digit c \<longleftrightarrow> c \<in> set ''0123456789''"

definition digits_value :: "string \<Rightarrow> int" where
  "digits_value s = foldl (\<lambda>n c. 10 * n + (of_char c - 48)) 0 s"

definition js_white :: "char \<Rightarrow> bool" where
  "js_white c \<longleftrightarrow> of_char c \<in> {9, 10, 11, 12, 13, 32, 160 :: nat}"

definition js_trim :: "string \<Rightarrow> string" where
  "js_trim s = rev (dropWhile js_white (rev (dropWhile js_white s)))"

definition starts_with :: "string \<Rightarrow> string \<Rightarrow> bool" where
  "starts_with p s \<longleftrightarrow> take (length p) s = p"

fun index_of :: "string \<Rightarrow> string \<Rightarrow> nat option" where
  "index_of p [] = (if starts_with p [] then Some 0 else None)"
| "index_of p (c # cs) =
     (if starts_with p (c # cs) then Some 0 else map_option Suc (index_of p cs))"

definition js_includes :: "string \<Rightarrow> string \<Rightarrow> bool" where
  "js_includes s p \<longleftrightarrow> index_of p s \<noteq> None"

fun fits :: "(char \<Rightarrow> bool) list \<Rightarrow> string \<Rightarrow> bool" where
  "fits [] [] = True"
| "fits (p # ps) (c # cs) = (p c \<and> fits ps cs)"
| "fits _ _ = False"

fun join :: "string \<Rightarrow> string list \<Rightarrow> string" where
  "join sep [] = []"
| "join sep [x] = x"
| "join sep (x # xs) = x @ sep @ join sep xs"

text \<open>\<open>JSON.stringify\<close> of strings and of arrays of already rendered values.\<close>

definition hex_of :: "nat \<Rightarrow> char" where
  "hex_of n = ''0123456789abcdef'' ! n"

definition json_char :: "char \<Rightarrow> string" where
  "json_char c = (let n = of_char c :: nat in
     if n = 34 then [CHR 0x5C, CHR 0x22] else if n = 92 then [CHR 0x5C, CHR 0x5C]
     else if n = 8 then [CHR 0x5C, CHR ''b''] else if n = 9 then [CHR 0x5C, CHR ''t'']
     else if n = 10 then [CHR 0x5C, CHR ''n''] else if n = 12 then [CHR 0x5C, CHR ''f'']
     else if n = 13 then [CHR 0x5C, CHR ''r'']
     else if n < 32 then [CHR 0x5C, CHR ''u'', CHR ''0'', CHR ''0'', hex_of (n div 16), hex_of (n mod 16)]
     else [c])"

definition json_string :: "string \<Rightarrow> string" where
  "json_string s = [CHR 0x22] @ concat (map json_char s) @ [CHR 0x22]"

definition json_array :: "string list \<Rightarrow> string" where
  "json_array xs = ''['' @ join '','' xs @ '']''"

lemma fits_length: "fits ps s \<Longrightarrow> length s = length ps"
  by (induction ps s rule: fits.induct) auto

lemma fits_chars: "fits ps s \<Longrightarrow> c \<in> set s \<Longrightarrow> \<exists>p\<in>set ps. p c"
  by (induction ps s rule: fits.induct) auto

lemma fits_replicate: "fits (replicate n p) s \<longleftrightarrow> length s = n \<and> list_all p s"
  by (induction n arbitrary: s; case_tac s) auto

lemma js_trim_empty_iff: "js_trim s = [] \<longleftrightarrow> (\<forall>c\<in>set s. js_white c)"
  by (auto simp: js_trim_def dropWhile_eq_Nil_conv dest: set_dropWhileD)
     (metis dropWhile_eq_Nil_conv hd_dropWhile hd_in_set)+

section \<open>Lists and maps\<close>

definition find_first :: "('a \<Rightarrow> bool) \<Rightarrow> 'a list \<Rightarrow> 'a option" where
  "find_first p xs = find p xs"

definition js_map :: "('a \<Rightarrow> 'k) \<Rightarrow> 'a list \<Rightarrow> 'k \<Rightarrow> 'a option" where
  "js_map key xs = map_of (rev (map (\<lambda>x. (key x, x)) xs))"

fun dedupe_from :: "'a list \<Rightarrow> 'a list \<Rightarrow> 'a list" where
  "dedupe_from seen [] = []"
| "dedupe_from seen (x # xs) =
     (if x \<in> set seen then dedupe_from seen xs else x # dedupe_from (x # seen) xs)"

lemma find_first_Some_iff:
  "find_first p xs = Some x \<Longrightarrow> x \<in> set xs \<and> p x"
  by (auto simp: find_first_def find_Some_iff)

lemma find_first_None_iff: "find_first p xs = None \<longleftrightarrow> (\<forall>x\<in>set xs. \<not> p x)"
  by (auto simp: find_first_def find_None_iff)

lemma find_first_key:
  assumes "distinct (map key xs)" and "x \<in> set xs"
  shows "find_first (\<lambda>y. key y = key x) xs = Some x"
  using assms by (induction xs) (auto simp: find_first_def)

lemma find_first_map:
  assumes "\<And>x. x \<in> set xs \<Longrightarrow> p (f x) = p x"
  shows "find_first p (map f xs) = map_option f (find_first p xs)"
  using assms by (induction xs) (auto simp: find_first_def)

lemma find_first_append:
  "find_first p (xs @ ys) =
     (case find_first p xs of Some x \<Rightarrow> Some x | None \<Rightarrow> find_first p ys)"
  by (induction xs) (auto simp: find_first_def)

lemma find_first_Nil [simp]: "find_first p [] = None"
  by (simp add: find_first_def)

lemma find_first_Cons [simp]:
  "find_first p (x # xs) = (if p x then Some x else find_first p xs)"
  by (simp add: find_first_def)

lemma js_map_Some: "js_map key xs k = Some x \<Longrightarrow> x \<in> set xs \<and> key x = k"
  unfolding js_map_def by (auto dest: map_of_SomeD)

lemma js_map_None_iff: "js_map key xs k = None \<longleftrightarrow> k \<notin> key ` set xs"
  unfolding js_map_def by (auto simp: map_of_eq_None_iff image_image)

lemma js_map_distinct:
  assumes "distinct (map key xs)"
  shows "js_map key xs k = Some x \<longleftrightarrow> x \<in> set xs \<and> key x = k"
proof -
  have "distinct (map fst (rev (map (\<lambda>x. (key x, x)) xs)))"
    using assms by (simp add: rev_map comp_def) (simp flip: rev_map)
  then show ?thesis
    unfolding js_map_def by (auto simp: map_of_eq_Some_iff)
qed

text \<open>A walk that marks an unvisited entry of a map leaves fewer unvisited ones.\<close>

lemma unvisited_shrinks:
  assumes "js_map key xs p = Some x" and "p \<notin> set visited"
  shows "length (filter (\<lambda>n. key n \<notin> set (p # visited)) xs) < length (filter (\<lambda>n. key n \<notin> set visited) xs)"
proof -
  have x: "x \<in> set xs" "key x = p" using js_map_Some [OF assms(1)] by auto
  let ?rest = "filter (\<lambda>n. key n \<notin> set visited) xs"
  have "filter (\<lambda>n. key n \<notin> set (p # visited)) xs = filter (\<lambda>n. key n \<noteq> p) ?rest"
    unfolding filter_filter by (rule filter_cong) auto
  moreover have "length (filter (\<lambda>n. key n \<noteq> p) ?rest) < length ?rest"
    by (rule length_filter_less [of x]) (use x assms(2) in auto)
  ultimately show ?thesis by simp
qed

lemma sorted_key_index:
  assumes "q \<in> set (sort_key f xs)" and "i < length xs" and "f q < f (sort_key f xs ! i)"
  shows "\<exists>j<i. sort_key f xs ! j = q"
proof -
  obtain j where j: "j < length xs" "sort_key f xs ! j = q"
    using assms(1) unfolding in_set_conv_nth by auto
  have "j < i"
  proof (rule ccontr)
    assume "\<not> j < i"
    then have "map f (sort_key f xs) ! i \<le> map f (sort_key f xs) ! j"
      using j(1) by (intro sorted_nth_mono) auto
    then show False using assms(2,3) j by simp
  qed
  then show ?thesis using j by blast
qed

lemma set_dedupe_from: "set (dedupe_from seen xs) = set xs - set seen"
  by (induction seen xs rule: dedupe_from.induct) auto

lemma distinct_dedupe_from: "distinct (dedupe_from seen xs)"
  by (induction seen xs rule: dedupe_from.induct) (auto simp: set_dedupe_from)

section \<open>Contracts\<close>

text \<open>
  An operation over a state that may refuse an input (\<open>Inl\<close>) and whose accepted results
  keep an invariant. A run stops at the first refusal, as an uncaught exception does.
\<close>

fun run_machine :: "('s \<Rightarrow> 'i \<Rightarrow> 'e + 's) \<Rightarrow> 's \<Rightarrow> 'i list \<Rightarrow> 'e + 's" where
  "run_machine step s [] = Inr s"
| "run_machine step s (i # is) = bindE (step s i) (\<lambda>s'. run_machine step s' is)"

locale guarded_machine =
  fixes step :: "'s \<Rightarrow> 'i \<Rightarrow> 'e + 's"
    and inv :: "'s \<Rightarrow> bool"
    and rel :: "'s \<Rightarrow> 's \<Rightarrow> bool"
  assumes step_inv: "inv s \<Longrightarrow> step s i = Inr s' \<Longrightarrow> inv s'"
    and step_rel: "inv s \<Longrightarrow> step s i = Inr s' \<Longrightarrow> rel s s'"
    and rel_refl: "rel s s"
    and rel_trans: "rel s s' \<Longrightarrow> rel s' s'' \<Longrightarrow> rel s s''"
begin

lemma run_inv: "inv s \<Longrightarrow> run_machine step s is = Inr s' \<Longrightarrow> inv s'"
  by (induction "is" arbitrary: s) (auto simp: res_simps intro: step_inv)

lemma run_rel: "inv s \<Longrightarrow> run_machine step s is = Inr s' \<Longrightarrow> rel s s'"
  by (induction "is" arbitrary: s)
     (auto simp: res_simps rel_refl intro: rel_trans step_rel step_inv)

end

text \<open>
  A parent map that decreases a rank: the chain of parents from any node ends, and no node
  is its own proper ancestor.
\<close>

inductive ancestor_of :: "('n \<Rightarrow> 'n option) \<Rightarrow> 'n \<Rightarrow> 'n \<Rightarrow> bool" for parent where
  direct: "parent n = Some a \<Longrightarrow> ancestor_of parent n a"
| further: "parent n = Some m \<Longrightarrow> ancestor_of parent m a \<Longrightarrow> ancestor_of parent n a"

inductive_cases ancestor_ofE: "ancestor_of parent n a"

lemma ancestor_of_root: "parent n = None \<Longrightarrow> \<not> ancestor_of parent n a"
  by (auto elim: ancestor_ofE)

lemma ancestor_of_step:
  "parent n = Some m \<Longrightarrow> ancestor_of parent n a \<longleftrightarrow> a = m \<or> ancestor_of parent m a"
  by (auto elim: ancestor_ofE intro: ancestor_of.intros)

lemma ancestor_of_trans:
  "ancestor_of parent n m \<Longrightarrow> ancestor_of parent m a \<Longrightarrow> ancestor_of parent n a"
  by (induction rule: ancestor_of.induct) (auto intro: ancestor_of.intros)

locale ranked_parents =
  fixes parent :: "'n \<Rightarrow> 'n option"
    and rank :: "'n \<Rightarrow> nat"
  assumes rank_decreases: "parent n = Some m \<Longrightarrow> rank m < rank n"
begin

lemma ancestor_rank: "ancestor_of parent n a \<Longrightarrow> rank a < rank n"
  by (induction rule: ancestor_of.induct) (auto dest: rank_decreases)

lemma no_self_ancestor: "\<not> ancestor_of parent n n"
  using ancestor_rank [of n n] by auto

lemma parent_induct:
  assumes root: "\<And>n. parent n = None \<Longrightarrow> P n"
    and child: "\<And>n m. parent n = Some m \<Longrightarrow> P m \<Longrightarrow> P n"
  shows "P n"
proof (induction "rank n" arbitrary: n rule: less_induct)
  case less
  show ?case
  proof (cases "parent n")
    case None
    then show ?thesis by (rule root)
  next
    case (Some m)
    then show ?thesis using less rank_decreases child by blast
  qed
qed

end

end
