(* ===== verification/Value_Objects.thy ===== *)
theory Value_Objects
  imports Prelude
begin

text \<open>
  \<^verbatim>\<open>packages/core/src/value-objects.ts\<close>, \<^verbatim>\<open>domain-error.ts\<close> and \<^verbatim>\<open>ports.ts\<close>: the branded strings and
  timestamps every other component is built from, and the two ports (a clock and an id
  generator) creation functions draw from. A branded type is its representation; being a
  value of it means having passed its constructor. Messages of exceptions are not modelled,
  their codes are. A clock or generator is the infinite sequence of its answers with the
  number already drawn.
\<close>

section \<open>Errors\<close>

datatype domain_error_code =
    Duplicate_id | Invalid_artifact_input | Invalid_outcome | Invalid_transition
  | Invalid_tree | Invalid_value | Not_found

section \<open>Patterns\<close>

definition hex_digit :: "char \<Rightarrow> bool" where
  "hex_digit c \<longleftrightarrow> c \<in> set ''0123456789abcdef''"

definition uuid_shape :: "(char \<Rightarrow> bool) \<Rightarrow> (char \<Rightarrow> bool) list" where
  "uuid_shape version =
     replicate 8 hex_digit @ [\<lambda>c. c = CHR ''-''] @
     replicate 4 hex_digit @ [\<lambda>c. c = CHR ''-''] @
     version # replicate 3 hex_digit @ [\<lambda>c. c = CHR ''-''] @
     (\<lambda>c. c \<in> set ''89ab'') # replicate 3 hex_digit @ [\<lambda>c. c = CHR ''-''] @
     replicate 12 hex_digit"

definition uuidV7Pattern :: "string \<Rightarrow> bool" where
  "uuidV7Pattern s \<longleftrightarrow> fits (uuid_shape (\<lambda>c. c = CHR ''7'')) s"

definition contentHashPattern :: "string \<Rightarrow> bool" where
  "contentHashPattern s \<longleftrightarrow> fits (replicate 64 hex_digit) s"

definition gitShaPattern :: "string \<Rightarrow> bool" where
  "gitShaPattern s \<longleftrightarrow> fits (replicate 40 hex_digit) s \<or> fits (replicate 64 hex_digit) s"

section \<open>Constructors\<close>

type_synonym 'a checked = "domain_error_code + 'a"

definition parseUuidV7 :: "string \<Rightarrow> string checked" where
  "parseUuidV7 s = (if \<not> uuidV7Pattern s then Inl Invalid_value else Inr s)"

definition actorSessionId :: "string \<Rightarrow> string checked" where
  "actorSessionId s = parseUuidV7 s"

definition artifactId :: "string \<Rightarrow> string checked" where
  "artifactId s = parseUuidV7 s"

definition attemptId :: "string \<Rightarrow> string checked" where
  "attemptId s = parseUuidV7 s"

definition commandId :: "string \<Rightarrow> string checked" where
  "commandId s = parseUuidV7 s"

definition contentHash :: "string \<Rightarrow> string checked" where
  "contentHash s = (if \<not> contentHashPattern s then Inl Invalid_value else Inr s)"

definition evidenceId :: "string \<Rightarrow> string checked" where
  "evidenceId s = parseUuidV7 s"

definition eventId :: "string \<Rightarrow> string checked" where
  "eventId s = parseUuidV7 s"

definition externalOperationId :: "string \<Rightarrow> string checked" where
  "externalOperationId s = parseUuidV7 s"

definition gitSha :: "string \<Rightarrow> string checked" where
  "gitSha s = (if \<not> gitShaPattern s then Inl Invalid_value else Inr s)"

definition outboxId :: "string \<Rightarrow> string checked" where
  "outboxId s = parseUuidV7 s"

definition hostId :: "string \<Rightarrow> string checked" where
  "hostId s = parseUuidV7 s"

definition nonEmptyText :: "string \<Rightarrow> string checked" where
  "nonEmptyText s = (if length (js_trim s) = 0 then Inl Invalid_value else Inr s)"

definition planRevisionId :: "string \<Rightarrow> string checked" where
  "planRevisionId s = parseUuidV7 s"

definition repositoryId :: "string \<Rightarrow> string checked" where
  "repositoryId s = parseUuidV7 s"

definition repositoryRoot :: "string \<Rightarrow> string checked" where
  "repositoryRoot s = (if length (js_trim s) = 0 then Inl Invalid_value else Inr s)"

definition taskNodeId :: "string \<Rightarrow> string checked" where
  "taskNodeId s = parseUuidV7 s"

definition taskTreeId :: "string \<Rightarrow> string checked" where
  "taskTreeId s = parseUuidV7 s"

text \<open>A \<open>Timestamp\<close> is a number that passed this check, hence an integer.\<close>

definition timestampFromEpochMilliseconds :: "number \<Rightarrow> int checked" where
  "timestampFromEpochMilliseconds v =
     (if \<not> isSafeInteger v \<or> int_of_number v < 0 then Inl Invalid_value
      else Inr (int_of_number v))"

definition compareTimestamps :: "int \<Rightarrow> int \<Rightarrow> int" where
  "compareTimestamps left right = left - right"

definition is_timestamp :: "int \<Rightarrow> bool" where
  "is_timestamp t \<longleftrightarrow> 0 \<le> t \<and> t \<le> max_safe_integer"

section \<open>Contract of a constructor\<close>

text \<open>A constructor accepts a string unchanged or refuses it with \<open>invalid_value\<close>.\<close>

locale value_parser =
  fixes parse :: "string \<Rightarrow> string checked"
  assumes parse_same: "parse s = Inr t \<Longrightarrow> t = s"
    and parse_code: "parse s = Inl e \<Longrightarrow> e = Invalid_value"
begin

lemma parse_Inr_iff: "parse s = Inr t \<longleftrightarrow> t = s \<and> is_ok (parse s)"
  by (cases "parse s") (auto dest: parse_same)

lemma parse_Inl_iff: "parse s = Inl e \<longleftrightarrow> e = Invalid_value \<and> \<not> is_ok (parse s)"
  by (cases "parse s") (auto dest: parse_code)

lemma parse_again: "parse s = Inr t \<Longrightarrow> parse t = Inr t"
  by (auto dest: parse_same)

lemma parse_bind: "bindE (parse s) f = (if is_ok (parse s) then f s else Inl Invalid_value)"
  by (cases "parse s") (auto dest: parse_same parse_code)

lemma parse_all: "mapE parse xs = Inr ys \<Longrightarrow> ys = xs"
  by (rule mapE_same) (auto dest: parse_same)

end

lemma uuid_parsers:
  "actorSessionId = parseUuidV7" "artifactId = parseUuidV7" "attemptId = parseUuidV7"
  "commandId = parseUuidV7" "evidenceId = parseUuidV7" "eventId = parseUuidV7"
  "externalOperationId = parseUuidV7" "outboxId = parseUuidV7" "hostId = parseUuidV7"
  "planRevisionId = parseUuidV7" "repositoryId = parseUuidV7" "taskNodeId = parseUuidV7"
  "taskTreeId = parseUuidV7"
  by (simp_all add: fun_eq_iff actorSessionId_def artifactId_def attemptId_def commandId_def
      evidenceId_def eventId_def externalOperationId_def outboxId_def hostId_def
      planRevisionId_def repositoryId_def taskNodeId_def taskTreeId_def)

interpretation uuid: value_parser parseUuidV7
  by unfold_locales (auto simp: parseUuidV7_def split: if_splits)

interpretation content_hash: value_parser contentHash
  by unfold_locales (auto simp: contentHash_def split: if_splits)

interpretation git_sha: value_parser gitSha
  by unfold_locales (auto simp: gitSha_def split: if_splits)

interpretation text_value: value_parser nonEmptyText
  by unfold_locales (auto simp: nonEmptyText_def split: if_splits)

interpretation root_value: value_parser repositoryRoot
  by unfold_locales (auto simp: repositoryRoot_def split: if_splits)

lemma parseUuidV7_ok [simp]: "is_ok (parseUuidV7 s) \<longleftrightarrow> uuidV7Pattern s"
  by (simp add: parseUuidV7_def)

lemma contentHash_ok [simp]: "is_ok (contentHash s) \<longleftrightarrow> contentHashPattern s"
  by (simp add: contentHash_def)

lemma gitSha_ok [simp]: "is_ok (gitSha s) \<longleftrightarrow> gitShaPattern s"
  by (simp add: gitSha_def)

lemma nonEmptyText_ok [simp]: "is_ok (nonEmptyText s) \<longleftrightarrow> js_trim s \<noteq> []"
  by (simp add: nonEmptyText_def)

lemmas parser_iffs =
  uuid.parse_Inr_iff content_hash.parse_Inr_iff git_sha.parse_Inr_iff text_value.parse_Inr_iff
  root_value.parse_Inr_iff

lemma timestamp_Inr_iff:
  "timestampFromEpochMilliseconds v = Inr t \<longleftrightarrow> v = number_of_int t \<and> is_timestamp t"
proof -
  have "timestampFromEpochMilliseconds v = Inr t \<longleftrightarrow>
      isSafeInteger v \<and> 0 \<le> int_of_number v \<and> t = int_of_number v"
    by (auto simp: timestampFromEpochMilliseconds_def)
  also have "\<dots> \<longleftrightarrow> v = number_of_int t \<and> is_timestamp t"
    by (auto simp: isSafeInteger_iff is_timestamp_def safe_int_def)
  finally show ?thesis .
qed

lemma timestamp_of_int:
  "timestampFromEpochMilliseconds (number_of_int t) =
     (if is_timestamp t then Inr t else Inl Invalid_value)"
  by (auto simp: timestampFromEpochMilliseconds_def is_timestamp_def safe_int_def
      max_safe_integer_def)

lemma timestamp_code: "timestampFromEpochMilliseconds v = Inl e \<Longrightarrow> e = Invalid_value"
  by (auto simp: timestampFromEpochMilliseconds_def split: if_splits)

section \<open>Ports\<close>

record ports =
  id_source :: "nat \<Rightarrow> string"
  ids_drawn :: nat
  clock_source :: "nat \<Rightarrow> number"
  clock_reads :: nat

definition nextId :: "ports \<Rightarrow> string \<times> ports" where
  "nextId p = (id_source p (ids_drawn p), p\<lparr>ids_drawn := Suc (ids_drawn p)\<rparr>)"

definition clock_now :: "ports \<Rightarrow> number \<times> ports" where
  "clock_now p = (clock_source p (clock_reads p), p\<lparr>clock_reads := Suc (clock_reads p)\<rparr>)"

text \<open>A computation that draws from the ports and may throw.\<close>

type_synonym 'a drawing = "ports \<Rightarrow> 'a checked \<times> ports"

definition bindP :: "'a drawing \<Rightarrow> ('a \<Rightarrow> 'b drawing) \<Rightarrow> 'b drawing" where
  "bindP m f p = (case m p of (Inl e, p') \<Rightarrow> (Inl e, p') | (Inr x, p') \<Rightarrow> f x p')"

definition liftP :: "'a checked \<Rightarrow> 'a drawing" where
  "liftP m p = (m, p)"

definition drawId :: "(string \<Rightarrow> 'a checked) \<Rightarrow> 'a drawing" where
  "drawId parse p = (case nextId p of (s, p') \<Rightarrow> (parse s, p'))"

definition drawTime :: "int drawing" where
  "drawTime p = (case clock_now p of (v, p') \<Rightarrow> (timestampFromEpochMilliseconds v, p'))"

lemma bindP_Inr_iff [res_simps]:
  "bindP m f p = (Inr y, p'') \<longleftrightarrow> (\<exists>x p'. m p = (Inr x, p') \<and> f x p' = (Inr y, p''))"
  by (auto simp: bindP_def split: prod.splits sum.splits)

lemma liftP_Inr_iff [res_simps]: "liftP m p = (Inr x, p') \<longleftrightarrow> m = Inr x \<and> p' = p"
  by (auto simp: liftP_def)

lemma drawTime_Inr: "drawTime p = (Inr t, p') \<Longrightarrow> is_timestamp t"
  by (auto simp: drawTime_def clock_now_def timestamp_Inr_iff)

lemma drawId_Inr: "drawId parseUuidV7 p = (Inr s, p') \<Longrightarrow> uuidV7Pattern s"
  by (auto simp: drawId_def nextId_def parser_iffs)

end
