(* ===== verification/Task_Node.thy ===== *)
theory Task_Node
  imports Value_Objects
begin

text \<open>
  \<^verbatim>\<open>packages/core/src/task-node.ts\<close>: a node of a task tree, its creation from a definition and its
  life cycle. The closed TypeScript unions are datatypes; where the code checks at run time
  that a value is in its union, the datatype has an \<open>Unsupported\<close> constructor for every
  other value, and the check is a branch of the model. \<open>wf_node\<close> is the invariant of
  every node the code can build; \<open>lifecycle\<close> is the abstract state machine it refines.
\<close>

section \<open>Data\<close>

datatype task_node_mode = Explore | Implementation | Plan | Research | Unsupported_mode

record artifact_input =
  in_artifactId :: string
  in_sourceNodeId :: string

datatype output_contract =
    Artifact_contract (contract_artifactId: string) (contract_artifactType: string)
  | Implementation_contract

datatype contract_request = Artifact_request string | Implementation_request

datatype task_node_outcome =
    Artifact_outcome string string string string
  | Commit_outcome string string
  | No_change_outcome string string string
  | Unsupported_outcome

datatype evidenced_blocker =
  Authentication | Ci_failure | Conflict | Gate_failure | Human_input | Quota

datatype task_node_blocker =
    Evidenced_blocker evidenced_blocker string
  | Parent_blocker string string
  | Unavailable_host_blocker string string
  | Unsupported_blocker

datatype resume_state = Resume_active | Resume_ready

datatype task_node_state =
    Planned | Ready | Active
  | Blocked task_node_blocker resume_state
  | Succeeded task_node_outcome
  | Failed string
  | Cancelled string
  | Superseded string

record task_node =
  tn_id :: string
  tn_treeId :: string
  tn_repositoryId :: string
  tn_hostId :: string
  tn_parentNodeId :: "string option"
  tn_planRevisionId :: string
  tn_mode :: task_node_mode
  tn_objective :: string
  tn_acceptanceCriteria :: "string list"
  tn_inputs :: "artifact_input list"
  tn_outputContract :: output_contract
  tn_state :: task_node_state
  tn_createdAt :: int
  tn_updatedAt :: int

record task_node_definition =
  def_mode :: task_node_mode
  def_objective :: string
  def_acceptanceCriteria :: "string list"
  def_inputs :: "artifact_input list"
  def_outputContract :: contract_request

record create_task_node_input =
  cn_treeId :: string
  cn_repositoryId :: string
  cn_hostId :: string
  cn_parentNodeId :: "string option"
  cn_planRevisionId :: string
  cn_definition :: task_node_definition

datatype task_node_transition =
    Mark_ready | Activate | Block task_node_blocker | Unblock
  | Succeed task_node_outcome | Fail string | Cancel string | Supersede string
  | Unsupported_transition

section \<open>Validation\<close>

definition validateMode :: "task_node_mode \<Rightarrow> unit checked" where
  "validateMode m = guardE (m \<noteq> Unsupported_mode) Invalid_value"

text \<open>The callback of \<open>definition.inputs.map\<close>, with the set of artifacts seen so far.\<close>

fun validateInputs :: "string list \<Rightarrow> artifact_input list \<Rightarrow> artifact_input list checked" where
  "validateInputs seen [] = Inr []"
| "validateInputs seen (i # is) =
     bindE (artifactId (in_artifactId i)) (\<lambda>a.
     bindE (taskNodeId (in_sourceNodeId i)) (\<lambda>s.
     bindE (guardE (a \<notin> set seen) Invalid_artifact_input) (\<lambda>_.
     bindE (validateInputs (a # seen) is) (\<lambda>rest.
       Inr (\<lparr>in_artifactId = a, in_sourceNodeId = s\<rparr> # rest)))))"

definition validateContract :: "contract_request \<Rightarrow> contract_request checked" where
  "validateContract c = (case c of
     Artifact_request t \<Rightarrow> bindE (nonEmptyText t) (\<lambda>t'. Inr (Artifact_request t'))
   | Implementation_request \<Rightarrow> Inr Implementation_request)"

definition validateDefinition :: "task_node_definition \<Rightarrow> task_node_definition checked" where
  "validateDefinition d =
     bindE (validateMode (def_mode d)) (\<lambda>_.
     bindE (guardE (length (def_acceptanceCriteria d) \<noteq> 0) Invalid_value) (\<lambda>_.
     bindE (guardE (\<not> (def_mode d = Implementation \<and>
                        def_outputContract d \<noteq> Implementation_request)) Invalid_value) (\<lambda>_.
     bindE (guardE (\<not> (def_mode d \<noteq> Implementation \<and>
                        def_outputContract d = Implementation_request)) Invalid_value) (\<lambda>_.
     bindE (mapE nonEmptyText (def_acceptanceCriteria d)) (\<lambda>criteria.
     bindE (validateInputs [] (def_inputs d)) (\<lambda>inputs.
     bindE (validateContract (def_outputContract d)) (\<lambda>contract.
     bindE (nonEmptyText (def_objective d)) (\<lambda>objective.
       Inr \<lparr>def_mode = def_mode d, def_objective = objective,
            def_acceptanceCriteria = criteria, def_inputs = inputs,
            def_outputContract = contract\<rparr>))))))))"

fun validateOutcome :: "output_contract \<Rightarrow> task_node_outcome \<Rightarrow> unit checked" where
  "validateOutcome c Unsupported_outcome = Inl Invalid_outcome"
| "validateOutcome c (Artifact_outcome aid digest atype ev) =
     bindE (artifactId aid) (\<lambda>_.
     bindE (contentHash digest) (\<lambda>_.
     bindE (evidenceId ev) (\<lambda>_.
     bindE (nonEmptyText atype) (\<lambda>_.
       guardE (\<not> (c = Implementation_contract \<or> aid \<noteq> contract_artifactId c \<or>
                   atype \<noteq> contract_artifactType c)) Invalid_outcome))))"
| "validateOutcome c (Commit_outcome commit ev) =
     bindE (gitSha commit) (\<lambda>_.
     bindE (evidenceId ev) (\<lambda>_.
       guardE (c = Implementation_contract) Invalid_outcome))"
| "validateOutcome c (No_change_outcome revision ev explanation) =
     bindE (gitSha revision) (\<lambda>_.
     bindE (evidenceId ev) (\<lambda>_.
     bindE (nonEmptyText explanation) (\<lambda>_.
       guardE (c = Implementation_contract) Invalid_outcome)))"

fun validateBlocker :: "task_node_blocker \<Rightarrow> unit checked" where
  "validateBlocker Unsupported_blocker = Inl Invalid_value"
| "validateBlocker (Evidenced_blocker k ev) = bindE (evidenceId ev) (\<lambda>_. Inr ())"
| "validateBlocker (Parent_blocker ev p) =
     bindE (evidenceId ev) (\<lambda>_. bindE (taskNodeId p) (\<lambda>_. Inr ()))"
| "validateBlocker (Unavailable_host_blocker ev h) =
     bindE (evidenceId ev) (\<lambda>_. bindE (hostId h) (\<lambda>_. Inr ()))"

section \<open>Creation\<close>

definition createContract :: "string \<Rightarrow> contract_request \<Rightarrow> output_contract drawing" where
  "createContract nid c = (case c of
     Artifact_request t \<Rightarrow>
       bindP (drawId artifactId) (\<lambda>aid.
       bindP (liftP (guardE (aid \<noteq> nid) Duplicate_id)) (\<lambda>_.
         liftP (Inr (Artifact_contract aid t))))
   | Implementation_request \<Rightarrow> liftP (Inr Implementation_contract))"

definition createTaskNode :: "create_task_node_input \<Rightarrow> task_node drawing" where
  "createTaskNode input =
     bindP (liftP (validateDefinition (cn_definition input))) (\<lambda>d.
     bindP (drawId taskNodeId) (\<lambda>nid.
     bindP (createContract nid (def_outputContract d)) (\<lambda>contract.
     bindP drawTime (\<lambda>createdAt.
       liftP (Inr \<lparr>tn_id = nid, tn_treeId = cn_treeId input,
         tn_repositoryId = cn_repositoryId input, tn_hostId = cn_hostId input,
         tn_parentNodeId = cn_parentNodeId input,
         tn_planRevisionId = cn_planRevisionId input, tn_mode = def_mode d,
         tn_objective = def_objective d,
         tn_acceptanceCriteria = def_acceptanceCriteria d, tn_inputs = def_inputs d,
         tn_outputContract = contract, tn_state = Planned, tn_createdAt = createdAt,
         tn_updatedAt = createdAt\<rparr>)))))"

section \<open>Transitions\<close>

fun isTerminal :: "task_node_state \<Rightarrow> bool" where
  "isTerminal (Cancelled _) = True"
| "isTerminal (Failed _) = True"
| "isTerminal (Succeeded _) = True"
| "isTerminal (Superseded _) = True"
| "isTerminal _ = False"

definition isTerminalNode :: "task_node \<Rightarrow> bool" where
  "isTerminalNode n = isTerminal (tn_state n)"

definition requireState :: "task_node \<Rightarrow> task_node_state \<Rightarrow> unit checked" where
  "requireState n s = guardE (tn_state n = s) Invalid_transition"

fun resume_of :: "resume_state \<Rightarrow> task_node_state" where
  "resume_of Resume_active = Active"
| "resume_of Resume_ready = Ready"

text \<open>The \<open>switch\<close> of \<open>transitionTaskNode\<close>: the state a transition leads to.\<close>

fun nextState :: "task_node \<Rightarrow> task_node_transition \<Rightarrow> task_node_state checked" where
  "nextState n Mark_ready = bindE (requireState n Planned) (\<lambda>_. Inr Ready)"
| "nextState n Activate = bindE (requireState n Ready) (\<lambda>_. Inr Active)"
| "nextState n (Block b) = (case tn_state n of
     Active \<Rightarrow> bindE (validateBlocker b) (\<lambda>_. Inr (Blocked b Resume_active))
   | Ready \<Rightarrow> bindE (validateBlocker b) (\<lambda>_. Inr (Blocked b Resume_ready))
   | _ \<Rightarrow> Inl Invalid_transition)"
| "nextState n Unblock = (case tn_state n of
     Blocked b r \<Rightarrow> Inr (resume_of r)
   | _ \<Rightarrow> Inl Invalid_transition)"
| "nextState n (Succeed out) =
     bindE (requireState n Active) (\<lambda>_.
     bindE (validateOutcome (tn_outputContract n) out) (\<lambda>_. Inr (Succeeded out)))"
| "nextState n (Fail ev) =
     bindE (requireState n Active) (\<lambda>_. bindE (evidenceId ev) (\<lambda>_. Inr (Failed ev)))"
| "nextState n (Cancel ev) =
     bindE (guardE (\<not> isTerminal (tn_state n)) Invalid_transition) (\<lambda>_.
     bindE (evidenceId ev) (\<lambda>_. Inr (Cancelled ev)))"
| "nextState n (Supersede revision) =
     bindE (guardE (case tn_state n of
         Planned \<Rightarrow> True | Ready \<Rightarrow> True | Blocked _ r \<Rightarrow> r = Resume_ready | _ \<Rightarrow> False)
       Invalid_transition) (\<lambda>_.
     bindE (planRevisionId revision) (\<lambda>_. Inr (Superseded revision)))"
| "nextState n Unsupported_transition = Inl Invalid_transition"

definition transitionTaskNode ::
    "task_node \<Rightarrow> task_node_transition \<Rightarrow> number \<Rightarrow> task_node checked" where
  "transitionTaskNode n tr ts =
     bindE (guardE (tr \<noteq> Unsupported_transition) Invalid_transition) (\<lambda>_.
     bindE (timestampFromEpochMilliseconds ts) (\<lambda>t.
     bindE (guardE (\<not> compareTimestamps t (tn_updatedAt n) < 0) Invalid_transition) (\<lambda>_.
     bindE (nextState n tr) (\<lambda>s. Inr (n\<lparr>tn_state := s, tn_updatedAt := t\<rparr>)))))"

section \<open>The invariant of a node\<close>

fun wf_blocker :: "task_node_blocker \<Rightarrow> bool" where
  "wf_blocker (Evidenced_blocker k ev) = uuidV7Pattern ev"
| "wf_blocker (Parent_blocker ev p) = (uuidV7Pattern ev \<and> uuidV7Pattern p)"
| "wf_blocker (Unavailable_host_blocker ev h) = (uuidV7Pattern ev \<and> uuidV7Pattern h)"
| "wf_blocker Unsupported_blocker = False"

text \<open>An outcome delivers what the contract of its node promised.\<close>

fun outcome_meets :: "output_contract \<Rightarrow> task_node_outcome \<Rightarrow> bool" where
  "outcome_meets (Artifact_contract aid t) (Artifact_outcome aid' digest t' ev) =
     (aid' = aid \<and> t' = t \<and> uuidV7Pattern aid \<and> contentHashPattern digest \<and>
      uuidV7Pattern ev \<and> js_trim t \<noteq> [])"
| "outcome_meets Implementation_contract (Commit_outcome commit ev) =
     (gitShaPattern commit \<and> uuidV7Pattern ev)"
| "outcome_meets Implementation_contract (No_change_outcome revision ev explanation) =
     (gitShaPattern revision \<and> uuidV7Pattern ev \<and> js_trim explanation \<noteq> [])"
| "outcome_meets _ _ = False"

fun wf_state :: "output_contract \<Rightarrow> task_node_state \<Rightarrow> bool" where
  "wf_state c (Blocked b r) = wf_blocker b"
| "wf_state c (Succeeded out) = outcome_meets c out"
| "wf_state c (Failed ev) = uuidV7Pattern ev"
| "wf_state c (Cancelled ev) = uuidV7Pattern ev"
| "wf_state c (Superseded r) = uuidV7Pattern r"
| "wf_state c _ = True"

definition wf_definition :: "task_node_definition \<Rightarrow> bool" where
  "wf_definition d \<longleftrightarrow>
     def_mode d \<noteq> Unsupported_mode \<and> def_acceptanceCriteria d \<noteq> [] \<and>
     (\<forall>c\<in>set (def_acceptanceCriteria d). js_trim c \<noteq> []) \<and>
     distinct (map in_artifactId (def_inputs d)) \<and>
     (\<forall>i\<in>set (def_inputs d). uuidV7Pattern (in_artifactId i) \<and> uuidV7Pattern (in_sourceNodeId i)) \<and>
     (def_outputContract d = Implementation_request \<longleftrightarrow> def_mode d = Implementation) \<and>
     (\<forall>t. def_outputContract d = Artifact_request t \<longrightarrow> js_trim t \<noteq> []) \<and>
     js_trim (def_objective d) \<noteq> []"

definition wf_contract :: "task_node \<Rightarrow> bool" where
  "wf_contract n = (case tn_outputContract n of
     Implementation_contract \<Rightarrow> tn_mode n = Implementation
   | Artifact_contract aid t \<Rightarrow> tn_mode n \<noteq> Implementation \<and> uuidV7Pattern aid \<and>
       aid \<noteq> tn_id n \<and> js_trim t \<noteq> [])"

definition wf_node :: "task_node \<Rightarrow> bool" where
  "wf_node n \<longleftrightarrow>
     uuidV7Pattern (tn_id n) \<and> tn_mode n \<noteq> Unsupported_mode \<and>
     tn_acceptanceCriteria n \<noteq> [] \<and> js_trim (tn_objective n) \<noteq> [] \<and>
     distinct (map in_artifactId (tn_inputs n)) \<and> wf_contract n \<and>
     wf_state (tn_outputContract n) (tn_state n) \<and>
     is_timestamp (tn_createdAt n) \<and> is_timestamp (tn_updatedAt n) \<and>
     tn_createdAt n \<le> tn_updatedAt n"

section \<open>Validation accepts exactly the well-formed\<close>

lemma validateInputs_Inr:
  "validateInputs seen is = Inr js \<longleftrightarrow>
     js = is \<and> distinct (map in_artifactId is) \<and> set seen \<inter> in_artifactId ` set is = {} \<and>
     (\<forall>i\<in>set is. uuidV7Pattern (in_artifactId i) \<and> uuidV7Pattern (in_sourceNodeId i))"
  by (induction seen "is" arbitrary: js rule: validateInputs.induct)
     (auto simp: res_simps parser_iffs uuid_parsers image_iff)

lemma mapE_nonEmptyText:
  "mapE nonEmptyText xs = Inr ys \<longleftrightarrow> ys = xs \<and> (\<forall>x\<in>set xs. js_trim x \<noteq> [])"
  by (induction xs arbitrary: ys) (auto simp: res_simps parser_iffs)

lemma validateContract_Inr:
  "validateContract c = Inr c' \<longleftrightarrow> c' = c \<and> (\<forall>t. c = Artifact_request t \<longrightarrow> js_trim t \<noteq> [])"
  by (cases c) (auto simp: validateContract_def res_simps parser_iffs)

lemma validateDefinition_Inr:
  "validateDefinition d = Inr d' \<longleftrightarrow> d' = d \<and> wf_definition d"
proof -
  have "def_outputContract d \<noteq> Implementation_request \<or> def_mode d = Implementation \<Longrightarrow>
        def_outputContract d = Implementation_request \<or> def_mode d \<noteq> Implementation \<Longrightarrow>
        (def_outputContract d = Implementation_request) = (def_mode d = Implementation)"
    by blast
  then show ?thesis
    by (auto simp: validateDefinition_def validateMode_def wf_definition_def res_simps
        mapE_nonEmptyText validateInputs_Inr validateContract_Inr parser_iffs)
qed

lemma validateOutcome_Inr: "validateOutcome c out = Inr u \<longleftrightarrow> outcome_meets c out"
  by (cases "(c, out)" rule: outcome_meets.cases) (auto simp: res_simps parser_iffs uuid_parsers)

lemma validateBlocker_Inr: "validateBlocker b = Inr u \<longleftrightarrow> wf_blocker b"
  by (cases b) (auto simp: res_simps parser_iffs uuid_parsers)

section \<open>The life cycle\<close>

text \<open>The abstract machine: which state may follow which, whatever the evidence.\<close>

inductive lifecycle :: "task_node_state \<Rightarrow> task_node_state \<Rightarrow> bool" where
  planned_ready: "lifecycle Planned Ready"
| ready_active: "lifecycle Ready Active"
| active_blocked: "lifecycle Active (Blocked b Resume_active)"
| ready_blocked: "lifecycle Ready (Blocked b Resume_ready)"
| unblocked: "lifecycle (Blocked b r) (resume_of r)"
| active_succeeded: "lifecycle Active (Succeeded out)"
| active_failed: "lifecycle Active (Failed ev)"
| cancelled: "\<not> isTerminal s \<Longrightarrow> lifecycle s (Cancelled ev)"
| planned_superseded: "lifecycle Planned (Superseded r)"
| ready_superseded: "lifecycle Ready (Superseded r)"
| blocked_superseded: "lifecycle (Blocked b Resume_ready) (Superseded r)"

inductive_simps lifecycle_to_succeeded: "lifecycle s (Succeeded out)"
inductive_simps lifecycle_to_failed: "lifecycle s (Failed ev)"
inductive_simps lifecycle_to_active: "lifecycle s Active"
inductive_simps lifecycle_to_ready: "lifecycle s Ready"
inductive_cases lifecycleE: "lifecycle s s'"

lemma nextState_lifecycle: "nextState n tr = Inr s \<Longrightarrow> lifecycle (tn_state n) s"
  by (cases tr)
     (auto simp: requireState_def res_simps parser_iffs uuid_parsers
       intro: lifecycle.intros split: task_node_state.splits)

lemma wf_state_resume [simp]: "wf_state c (resume_of r)"
  by (cases r) auto

lemma nextState_wf: "nextState n tr = Inr s \<Longrightarrow> wf_state (tn_outputContract n) s"
  by (cases tr)
     (auto simp: requireState_def res_simps parser_iffs uuid_parsers validateOutcome_Inr
       validateBlocker_Inr split: task_node_state.splits)

text \<open>Every step of the life cycle with a well-formed payload is the step of a transition.\<close>

lemma validateOutcome_meets: "outcome_meets c out \<Longrightarrow> validateOutcome c out = Inr ()"
  by (simp add: validateOutcome_Inr)

lemma lifecycle_reachable:
  assumes "lifecycle (tn_state n) s" and "wf_state (tn_outputContract n) s"
  shows "\<exists>tr. nextState n tr = Inr s"
  using assms(1)
proof (cases rule: lifecycle.cases)
  case planned_ready
  then show ?thesis by (intro exI [of _ Mark_ready]) (simp add: requireState_def)
next
  case ready_active
  then show ?thesis by (intro exI [of _ Activate]) (simp add: requireState_def)
next
  case (active_blocked b)
  with assms(2) show ?thesis by (intro exI [of _ "Block b"]) (simp add: res_simps validateBlocker_Inr)
next
  case (ready_blocked b)
  with assms(2) show ?thesis by (intro exI [of _ "Block b"]) (simp add: res_simps validateBlocker_Inr)
next
  case (unblocked b r)
  then show ?thesis by (intro exI [of _ Unblock]) simp
next
  case (active_succeeded out)
  with assms(2) show ?thesis
    by (intro exI [of _ "Succeed out"]) (simp add: requireState_def validateOutcome_meets)
next
  case (active_failed ev)
  with assms(2) show ?thesis
    by (intro exI [of _ "Fail ev"]) (simp add: requireState_def uuid_parsers parser_iffs res_simps)
next
  case (cancelled ev)
  with assms(2) show ?thesis
    by (intro exI [of _ "Cancel ev"]) (simp add: uuid_parsers parser_iffs res_simps)
qed (use assms(2) in \<open>auto intro!: exI [of _ "Supersede _"] simp: uuid_parsers parser_iffs res_simps\<close>)

lemma lifecycle_terminal: "lifecycle s s' \<Longrightarrow> \<not> isTerminal s"
  by (auto elim: lifecycle.cases)

lemma transition_Inr_iff:
  "transitionTaskNode n tr ts = Inr n' \<longleftrightarrow>
     (\<exists>t s. ts = number_of_int t \<and> is_timestamp t \<and> tn_updatedAt n \<le> t \<and>
        nextState n tr = Inr s \<and> n' = n\<lparr>tn_state := s, tn_updatedAt := t\<rparr>)"
  by (cases tr)
     (auto simp: transitionTaskNode_def res_simps timestamp_Inr_iff compareTimestamps_def)

lemma transition_wf:
  assumes "wf_node n" and "transitionTaskNode n tr ts = Inr n'"
  shows "wf_node n'"
  using assms
  by (auto simp: transition_Inr_iff wf_node_def wf_contract_def dest: nextState_wf
      split: output_contract.splits)

text \<open>What no transition touches.\<close>

definition same_identity :: "task_node \<Rightarrow> task_node \<Rightarrow> bool" where
  "same_identity n n' \<longleftrightarrow>
     tn_id n' = tn_id n \<and> tn_treeId n' = tn_treeId n \<and>
     tn_repositoryId n' = tn_repositoryId n \<and> tn_hostId n' = tn_hostId n \<and>
     tn_parentNodeId n' = tn_parentNodeId n \<and> tn_planRevisionId n' = tn_planRevisionId n \<and>
     tn_mode n' = tn_mode n \<and> tn_objective n' = tn_objective n \<and>
     tn_acceptanceCriteria n' = tn_acceptanceCriteria n \<and> tn_inputs n' = tn_inputs n \<and>
     tn_outputContract n' = tn_outputContract n \<and> tn_createdAt n' = tn_createdAt n \<and>
     tn_updatedAt n \<le> tn_updatedAt n'"

lemma transition_identity: "transitionTaskNode n tr ts = Inr n' \<Longrightarrow> same_identity n n'"
  by (auto simp: transition_Inr_iff same_identity_def)

lemma same_identity_refl [simp]: "same_identity n n"
  by (simp add: same_identity_def)

lemma same_identity_trans:
  "same_identity n n' \<Longrightarrow> same_identity n' n'' \<Longrightarrow> same_identity n n''"
  by (auto simp: same_identity_def)

definition node_step :: "task_node \<Rightarrow> task_node_transition \<times> number \<Rightarrow> task_node checked" where
  "node_step n i = transitionTaskNode n (fst i) (snd i)"

interpretation node: guarded_machine node_step wf_node same_identity
  by unfold_locales
     (auto simp: node_step_def intro: transition_wf transition_identity same_identity_trans)

section \<open>Creation establishes the invariant\<close>

lemma createContract_Inr:
  assumes "createContract nid c p = (Inr k, p')"
  shows "(k = Implementation_contract \<longleftrightarrow> c = Implementation_request) \<and>
    (\<forall>aid t. k = Artifact_contract aid t \<longrightarrow>
       c = Artifact_request t \<and> uuidV7Pattern aid \<and> aid \<noteq> nid)"
  using assms
  by (auto simp: createContract_def res_simps uuid_parsers dest: drawId_Inr
      split: contract_request.splits)

lemma createTaskNode_Inr:
  assumes "createTaskNode input p = (Inr n, p')"
  shows "wf_node n \<and> tn_state n = Planned \<and> tn_createdAt n = tn_updatedAt n \<and>
    tn_treeId n = cn_treeId input \<and> tn_repositoryId n = cn_repositoryId input \<and>
    tn_hostId n = cn_hostId input \<and> tn_parentNodeId n = cn_parentNodeId input \<and>
    tn_planRevisionId n = cn_planRevisionId input \<and>
    tn_inputs n = def_inputs (cn_definition input)"
proof -
  define d where "d = cn_definition input"
  from assms obtain nid p1 k p2 t p3 where wf: "wf_definition d"
    and nid: "drawId parseUuidV7 p = (Inr nid, p1)"
    and k: "createContract nid (def_outputContract d) p1 = (Inr k, p2)"
    and t: "drawTime p2 = (Inr t, p3)"
    and n: "n = \<lparr>tn_id = nid, tn_treeId = cn_treeId input,
         tn_repositoryId = cn_repositoryId input, tn_hostId = cn_hostId input,
         tn_parentNodeId = cn_parentNodeId input,
         tn_planRevisionId = cn_planRevisionId input, tn_mode = def_mode d,
         tn_objective = def_objective d,
         tn_acceptanceCriteria = def_acceptanceCriteria d, tn_inputs = def_inputs d,
         tn_outputContract = k, tn_state = Planned, tn_createdAt = t, tn_updatedAt = t\<rparr>"
    unfolding createTaskNode_def uuid_parsers d_def
    by (simp only: res_simps validateDefinition_Inr) blast
  from createContract_Inr [OF k] wf have "wf_contract n"
    by (auto simp: n wf_contract_def wf_definition_def split: output_contract.splits)
  with drawId_Inr [OF nid] drawTime_Inr [OF t] wf show ?thesis
    by (simp add: n wf_node_def wf_definition_def d_def)
qed

section \<open>A concrete node\<close>

definition sampleId :: "nat \<Rightarrow> string" where
  "sampleId n = ''00000000-0000-7000-8000-0000000000'' @
     [char_of (48 + n div 10 mod 10), char_of (48 + n mod 10)]"

definition samplePorts :: "nat \<Rightarrow> ports" where
  "samplePorts n = \<lparr>id_source = sampleId, ids_drawn = n,
     clock_source = (\<lambda>k. number_of_int (1000 + int k)), clock_reads = n\<rparr>"

definition sampleDefinition ::
    "task_node_mode \<Rightarrow> contract_request \<Rightarrow> artifact_input list \<Rightarrow> task_node_definition" where
  "sampleDefinition m c inputs = \<lparr>def_mode = m, def_objective = ''do it'',
     def_acceptanceCriteria = [''done''], def_inputs = inputs, def_outputContract = c\<rparr>"

definition sampleNode :: task_node where
  "sampleNode = projr (fst (createTaskNode \<lparr>cn_treeId = sampleId 80, cn_repositoryId = sampleId 90,
     cn_hostId = sampleId 91, cn_parentNodeId = None, cn_planRevisionId = sampleId 81,
     cn_definition = sampleDefinition Implementation Implementation_request []\<rparr> (samplePorts 0)))"

definition sampleLife :: "(task_node_transition \<times> number) list" where
  "sampleLife = [(Mark_ready, number_of_int 1001), (Activate, number_of_int 1002),
     (Block (Evidenced_blocker Quota (sampleId 60)), number_of_int 1003),
     (Unblock, number_of_int 1004),
     (Succeed (Commit_outcome (replicate 40 CHR ''b'') (sampleId 61)), number_of_int 1005)]"

lemma sampleNode_created: "fst (createTaskNode \<lparr>cn_treeId = sampleId 80,
    cn_repositoryId = sampleId 90, cn_hostId = sampleId 91, cn_parentNodeId = None,
    cn_planRevisionId = sampleId 81,
    cn_definition = sampleDefinition Implementation Implementation_request []\<rparr> (samplePorts 0)) =
  Inr sampleNode"
  unfolding sampleNode_def by (rule Inr_projr) code_simp

lemma sampleNode_lives:
  "run_machine node_step sampleNode sampleLife = Inr (projr (run_machine node_step sampleNode sampleLife))"
  by (rule Inr_projr) code_simp

lemma sampleNode_wf: "wf_node sampleNode"
  using sampleNode_created by (metis createTaskNode_Inr eq_fst_iff)

section \<open>Properties\<close>

text \<open>C37: The transitions of a node implement its life cycle exactly: at a valid time not before
  its last update, some transition leads a node to a new state if and only if the life-cycle
  relation allows the step and the payload of the new state is well formed (an outcome delivers
  what the output contract promised, evidence and plan revisions are identities); nothing but the
  state and the update time changes.\<close>

theorem transitions_implement_lifecycle:
  assumes "is_timestamp t" and "tn_updatedAt n \<le> t"
    and "wf_state (tn_outputContract n) (tn_state n)"
  shows "(\<exists>tr. transitionTaskNode n tr (number_of_int t) = Inr n') \<longleftrightarrow>
    (\<exists>s. lifecycle (tn_state n) s \<and> wf_state (tn_outputContract n) s \<and>
       n' = n\<lparr>tn_state := s, tn_updatedAt := t\<rparr>)"
proof
  assume "\<exists>tr. transitionTaskNode n tr (number_of_int t) = Inr n'"
  then obtain tr s where "nextState n tr = Inr s" "n' = n\<lparr>tn_state := s, tn_updatedAt := t\<rparr>"
    by (auto simp: transition_Inr_iff number_of_int_def)
  then show "\<exists>s. lifecycle (tn_state n) s \<and> wf_state (tn_outputContract n) s \<and>
       n' = n\<lparr>tn_state := s, tn_updatedAt := t\<rparr>"
    by (auto dest: nextState_lifecycle nextState_wf)
next
  assume "\<exists>s. lifecycle (tn_state n) s \<and> wf_state (tn_outputContract n) s \<and>
       n' = n\<lparr>tn_state := s, tn_updatedAt := t\<rparr>"
  then obtain s where s: "lifecycle (tn_state n) s" "wf_state (tn_outputContract n) s"
    "n' = n\<lparr>tn_state := s, tn_updatedAt := t\<rparr>" by blast
  from lifecycle_reachable [OF s(1,2)] obtain tr where "nextState n tr = Inr s" by blast
  with s assms(1,2) show "\<exists>tr. transitionTaskNode n tr (number_of_int t) = Inr n'"
    by (auto simp: transition_Inr_iff)
qed

theorem transitions_implement_lifecycle_witness:
  "(\<exists>tr. transitionTaskNode sampleNode tr (number_of_int 5000) =
      Inr (sampleNode\<lparr>tn_state := Ready, tn_updatedAt := 5000\<rparr>)) \<longleftrightarrow>
   (\<exists>s. lifecycle (tn_state sampleNode) s \<and> wf_state (tn_outputContract sampleNode) s \<and>
      sampleNode\<lparr>tn_state := Ready, tn_updatedAt := 5000\<rparr> =
      sampleNode\<lparr>tn_state := s, tn_updatedAt := 5000\<rparr>)"
  by (rule transitions_implement_lifecycle; code_simp)

text \<open>C38: From creation on, through any sequence of accepted transitions, a node is well formed,
  keeps its identity, parent, contract and inputs, and once it is terminal refuses every further
  transition.\<close>

theorem node_life:
  assumes "fst (createTaskNode input p) = Inr n0" and "run_machine node_step n0 trs = Inr n"
  shows "wf_node n \<and> same_identity n0 n \<and>
    (isTerminalNode n \<longrightarrow> (\<forall>tr ts. \<exists>e. transitionTaskNode n tr ts = Inl e))"
proof -
  from assms(1) have "wf_node n0" by (metis createTaskNode_Inr eq_fst_iff)
  from node.run_inv [OF this assms(2)] node.run_rel [OF this assms(2)]
  have "wf_node n" "same_identity n0 n" .
  moreover have "\<exists>e. transitionTaskNode n tr ts = Inl e" if "isTerminalNode n" for tr ts
  proof (cases "transitionTaskNode n tr ts")
    case (Inr n')
    with that show ?thesis
      by (auto simp: transition_Inr_iff isTerminalNode_def dest!: nextState_lifecycle
          dest: lifecycle_terminal)
  qed auto
  ultimately show ?thesis by blast
qed

theorem node_life_witness:
  "wf_node (projr (run_machine node_step sampleNode sampleLife))"
  using node_life [OF sampleNode_created sampleNode_lives] by blast

end
