(* ===== verification/Forest.thy ===== *)
theory Forest
  imports Prelude
begin

text \<open>
  Parent lists: the (identity, parent) pairs of a list of nodes, in list order. Task trees
  keep their nodes parents-first, which is what makes every walk along parents stop. The
  contract \<open>ranked_parents\<close> is provided here by the position in the list, and the
  walks of the components are proved against it.
\<close>

type_synonym 'k parent_list = "('k \<times> 'k option) list"

definition parent_of :: "'k parent_list \<Rightarrow> 'k \<Rightarrow> 'k option" where
  "parent_of sk n = (case map_of sk n of Some (Some p) \<Rightarrow> Some p | _ \<Rightarrow> None)"

definition rank_in :: "'k parent_list \<Rightarrow> 'k \<Rightarrow> nat" where
  "rank_in sk n = length (takeWhile (\<lambda>e. fst e \<noteq> n) sk)"

definition parents_first :: "'k parent_list \<Rightarrow> bool" where
  "parents_first sk \<longleftrightarrow> distinct (map fst sk) \<and>
     (\<forall>i < length sk. case snd (sk ! i) of
        None \<Rightarrow> i = 0 | Some p \<Rightarrow> p \<in> fst ` set (take i sk))"

text \<open>The parent, where it stands earlier in the list (always, when parents come first).\<close>

definition earlier_parent :: "'k parent_list \<Rightarrow> 'k \<Rightarrow> 'k option" where
  "earlier_parent sk n = (case parent_of sk n of
     None \<Rightarrow> None | Some p \<Rightarrow> if rank_in sk p < rank_in sk n then Some p else None)"

interpretation earlier: ranked_parents "earlier_parent sk" "rank_in sk" for sk
  by unfold_locales (auto simp: earlier_parent_def split: option.splits if_splits)

lemma rank_in_append:
  assumes "n \<notin> fst ` set pre"
  shows "rank_in (pre @ (n, q) # post) n = length pre"
proof -
  have "takeWhile (\<lambda>e. fst e \<noteq> n) (pre @ (n, q) # post) = pre"
    using assms by (subst takeWhile_append2) auto
  then show ?thesis by (simp add: rank_in_def)
qed

lemma rank_in_prefix: "p \<in> fst ` set pre \<Longrightarrow> rank_in (pre @ post) p < length pre"
  by (induction pre) (auto simp: rank_in_def)

lemma rank_in_nth:
  assumes "distinct (map fst sk)" and "i < length sk"
  shows "rank_in sk (fst (sk ! i)) = i"
proof -
  have sk: "sk = take i sk @ (fst (sk ! i), snd (sk ! i)) # drop (Suc i) sk"
    using assms(2) by (simp add: id_take_nth_drop)
  have "fst (sk ! i) \<notin> fst ` set (take i sk)"
    using assms by (auto simp: in_set_conv_nth distinct_conv_nth)
      (metis fst_conv less_trans nat_neq_iff)
  from rank_in_append [OF this] have
    "rank_in (take i sk @ (fst (sk ! i), snd (sk ! i)) # drop (Suc i) sk) (fst (sk ! i)) =
     length (take i sk)" .
  with sk assms(2) show ?thesis by simp
qed

lemma parents_first_parent:
  assumes pf: "parents_first sk" and par: "parent_of sk n = Some p"
  shows "p \<in> fst ` set sk \<and> rank_in sk p < rank_in sk n"
proof -
  from par have "(n, Some p) \<in> set sk"
    by (auto simp: parent_of_def split: option.splits dest: map_of_SomeD)
  then obtain i where i: "i < length sk" "sk ! i = (n, Some p)"
    by (auto simp: in_set_conv_nth)
  from pf i have p: "p \<in> fst ` set (take i sk)"
    unfolding parents_first_def by fastforce
  from pf have "distinct (map fst sk)" by (simp add: parents_first_def)
  from rank_in_nth [OF this i(1)] i have "rank_in sk n = i" by simp
  with rank_in_prefix [OF p, of "drop i sk"] i p show ?thesis
    by (auto dest: in_set_takeD)
qed

lemma parents_first_earlier: "parents_first sk \<Longrightarrow> earlier_parent sk = parent_of sk"
  by (auto simp: fun_eq_iff earlier_parent_def dest: parents_first_parent split: option.splits)

lemma parents_first_induct:
  assumes "parents_first sk"
    and "\<And>n. parent_of sk n = None \<Longrightarrow> P n"
    and "\<And>n m. parent_of sk n = Some m \<Longrightarrow> P m \<Longrightarrow> P n"
  shows "P n"
  using earlier.parent_induct [of sk P n] assms by (simp add: parents_first_earlier)

lemma parents_first_no_cycle: "parents_first sk \<Longrightarrow> \<not> ancestor_of (parent_of sk) n n"
  using earlier.no_self_ancestor [of sk n] by (simp add: parents_first_earlier)

lemma parents_first_single: "parents_first [(n, None)]"
  by (simp add: parents_first_def)

lemma parents_first_snoc:
  assumes "parents_first sk" and "n \<notin> fst ` set sk" and "p \<in> fst ` set sk"
  shows "parents_first (sk @ [(n, Some p)])"
  using assms unfolding parents_first_def
  by (auto simp: nth_append less_Suc_eq split: option.splits)

lemma parent_of_snoc:
  assumes "n \<notin> fst ` set sk"
  shows "parent_of (sk @ [(n, q)]) m = (if m = n then q else parent_of sk m)"
proof -
  from assms have "map_of sk n = None" by (simp add: map_of_eq_None_iff)
  then show ?thesis
    by (auto simp: parent_of_def map_add_def split: option.splits)
qed

lemma ancestor_in_dom:
  "parents_first sk \<Longrightarrow> ancestor_of (parent_of sk) n a \<Longrightarrow> a \<in> fst ` set sk"
  by (rotate_tac 1, induction rule: ancestor_of.induct) (auto dest: parents_first_parent)

lemma ancestor_snoc:
  assumes pf: "parents_first sk" and n: "n \<notin> fst ` set sk" and m: "m \<noteq> n"
  shows "ancestor_of (parent_of (sk @ [(n, q)])) m a \<longleftrightarrow> ancestor_of (parent_of sk) m a"
proof -
  have "m \<noteq> n \<longrightarrow>
      ancestor_of (parent_of (sk @ [(n, q)])) m a = ancestor_of (parent_of sk) m a"
  proof (rule parents_first_induct [OF pf, where n = m and
        P = "\<lambda>m. m \<noteq> n \<longrightarrow>
          ancestor_of (parent_of (sk @ [(n, q)])) m a = ancestor_of (parent_of sk) m a"])
    fix m assume "parent_of sk m = None"
    then show "m \<noteq> n \<longrightarrow>
      ancestor_of (parent_of (sk @ [(n, q)])) m a = ancestor_of (parent_of sk) m a"
      by (auto simp: ancestor_of_root parent_of_snoc [OF n])
  next
    fix m k assume k: "parent_of sk m = Some k"
      and IH: "k \<noteq> n \<longrightarrow>
        ancestor_of (parent_of (sk @ [(n, q)])) k a = ancestor_of (parent_of sk) k a"
    from parents_first_parent [OF pf k] n have "k \<noteq> n" by auto
    with IH k show "m \<noteq> n \<longrightarrow>
      ancestor_of (parent_of (sk @ [(n, q)])) m a = ancestor_of (parent_of sk) m a"
      by (auto simp: ancestor_of_step parent_of_snoc [OF n])
  qed
  with m show ?thesis by simp
qed

end
