(* ===== verification/Task_Tree.thy ===== *)
theory Task_Tree
  imports Task_Node Forest
begin

text \<open>
  \<^verbatim>\<open>packages/core/src/task-tree.ts\<close> and \<^verbatim>\<open>repository.ts\<close>: a tree of task nodes under one plan
  revision, its growth by \<open>appendTaskNode\<close> and its evolution by
  \<open>transitionNodeInTree\<close>. The \<open>while\<close> loops that follow parents have no bound in the
  code, so they are partial functions (\<open>None\<close>: the loop does not end) and their
  termination on every tree the code can build is a theorem. \<open>wf_tree\<close> is the invariant
  of those trees; it includes failure containment: nothing below a failed node is runnable.
\<close>

section \<open>Repositories\<close>

record repository =
  repo_id :: string
  repo_hostId :: string
  repo_root :: string
  repo_registeredAt :: int

definition createRepository :: "string \<Rightarrow> string \<Rightarrow> repository drawing" where
  "createRepository host rootPath =
     bindP (liftP (hostId host)) (\<lambda>_.
     bindP (liftP (repositoryRoot rootPath)) (\<lambda>_.
     bindP (drawId repositoryId) (\<lambda>rid.
     bindP (liftP (guardE (rid \<noteq> host) Duplicate_id)) (\<lambda>_.
     bindP drawTime (\<lambda>t.
       liftP (Inr \<lparr>repo_id = rid, repo_hostId = host, repo_root = rootPath,
                   repo_registeredAt = t\<rparr>))))))"

section \<open>Trees\<close>

record task_tree =
  tt_id :: string
  tt_repositoryId :: string
  tt_hostId :: string
  tt_baseCommit :: string
  tt_goal :: string
  tt_activePlanRevisionId :: string
  tt_rootNodeId :: string
  tt_nodes :: "task_node list"
  tt_createdAt :: int
  tt_updatedAt :: int

record create_task_tree_input =
  ct_repository :: repository
  ct_baseCommit :: string
  ct_goal :: string
  ct_root :: task_node_definition

definition getTaskNode :: "task_tree \<Rightarrow> string \<Rightarrow> task_node checked" where
  "getTaskNode t nid = (case find_first (\<lambda>c. tn_id c = nid) (tt_nodes t) of
     None \<Rightarrow> Inl Not_found | Some n \<Rightarrow> Inr n)"

definition getChildNodes :: "task_tree \<Rightarrow> string \<Rightarrow> task_node list checked" where
  "getChildNodes t pid =
     bindE (getTaskNode t pid) (\<lambda>_.
       Inr (filter (\<lambda>n. tn_parentNodeId n = Some pid) (tt_nodes t)))"

partial_function (option) ancestors_loop ::
    "task_tree \<Rightarrow> task_node \<Rightarrow> task_node list \<Rightarrow> task_node list checked option" where
  "ancestors_loop t current acc = (case tn_parentNodeId current of
     None \<Rightarrow> Some (Inr acc)
   | Some p \<Rightarrow> (case getTaskNode t p of
       Inl e \<Rightarrow> Some (Inl e)
     | Inr parent \<Rightarrow> ancestors_loop t parent (acc @ [parent])))"

definition getAncestorNodes :: "task_tree \<Rightarrow> string \<Rightarrow> task_node list checked option" where
  "getAncestorNodes t nid =
     bindL (Some (getTaskNode t nid)) (\<lambda>current. ancestors_loop t current [])"

partial_function (option) failed_ancestor_loop ::
    "task_tree \<Rightarrow> string option \<Rightarrow> task_node option checked option" where
  "failed_ancestor_loop t parentNodeId = (case parentNodeId of
     None \<Rightarrow> Some (Inr None)
   | Some p \<Rightarrow> (case getTaskNode t p of
       Inl e \<Rightarrow> Some (Inl e)
     | Inr parent \<Rightarrow> (case tn_state parent of
         Failed _ \<Rightarrow> Some (Inr (Some parent))
       | _ \<Rightarrow> failed_ancestor_loop t (tn_parentNodeId parent))))"

definition findFailedAncestor :: "task_tree \<Rightarrow> task_node \<Rightarrow> task_node option checked option" where
  "findFailedAncestor t n = failed_ancestor_loop t (tn_parentNodeId n)"

partial_function (option) descendant_loop ::
    "task_tree \<Rightarrow> string option \<Rightarrow> string \<Rightarrow> bool checked option" where
  "descendant_loop t parentNodeId a = (case parentNodeId of
     None \<Rightarrow> Some (Inr False)
   | Some p \<Rightarrow>
       if p = a then Some (Inr True)
       else (case getTaskNode t p of
         Inl e \<Rightarrow> Some (Inl e)
       | Inr parent \<Rightarrow> descendant_loop t (tn_parentNodeId parent) a))"

definition isDescendantOf :: "task_tree \<Rightarrow> task_node \<Rightarrow> string \<Rightarrow> bool checked option" where
  "isDescendantOf t n a = descendant_loop t (tn_parentNodeId n) a"

declare ancestors_loop.simps [code] failed_ancestor_loop.simps [code] descendant_loop.simps [code]

definition replaceTreeNodes :: "task_tree \<Rightarrow> task_node list \<Rightarrow> int \<Rightarrow> task_tree" where
  "replaceTreeNodes t nodes at_time = t\<lparr>tt_nodes := nodes, tt_updatedAt := at_time\<rparr>"

section \<open>Creation and growth\<close>

definition ownedNodeIds :: "task_node \<Rightarrow> string list" where
  "ownedNodeIds n = (case tn_outputContract n of
     Artifact_contract aid _ \<Rightarrow> [tn_id n, aid]
   | Implementation_contract \<Rightarrow> [tn_id n])"

definition validateDistinctTreeIds ::
    "repository \<Rightarrow> string \<Rightarrow> string \<Rightarrow> task_node \<Rightarrow> unit checked" where
  "validateDistinctTreeIds repo treeId revisionId rootNode =
     guardE (distinct ([repo_id repo, repo_hostId repo, treeId, revisionId] @ ownedNodeIds rootNode))
       Duplicate_id"

definition validateNewNodeIds :: "task_tree \<Rightarrow> task_node \<Rightarrow> unit checked" where
  "validateNewNodeIds t n =
     (let occupied = {tt_repositoryId t, tt_hostId t, tt_id t, tt_activePlanRevisionId t} \<union>
        set (concat (map ownedNodeIds (tt_nodes t)))
      in guardE (list_all (\<lambda>i. i \<notin> occupied) (ownedNodeIds n)) Duplicate_id)"

definition validateArtifactInput ::
    "task_tree \<Rightarrow> string list \<Rightarrow> artifact_input \<Rightarrow> unit checked" where
  "validateArtifactInput t ancestorIds i =
     bindE (guardE (in_sourceNodeId i \<in> set ancestorIds) Invalid_artifact_input) (\<lambda>_.
     bindE (getTaskNode t (in_sourceNodeId i)) (\<lambda>source.
       guardE (case tn_outputContract source of
           Artifact_contract aid _ \<Rightarrow> aid = in_artifactId i
         | Implementation_contract \<Rightarrow> False) Invalid_artifact_input))"

definition validateArtifactInputs ::
    "task_tree \<Rightarrow> task_node \<Rightarrow> task_node_definition \<Rightarrow> unit checked option" where
  "validateArtifactInputs t parent d =
     bindL (getAncestorNodes t (tn_id parent)) (\<lambda>ancestors.
       Some (bindE (mapE (validateArtifactInput t (tn_id parent # map tn_id ancestors))
                      (def_inputs d)) (\<lambda>_. Inr ())))"

definition createTaskTree :: "create_task_tree_input \<Rightarrow> task_tree drawing" where
  "createTaskTree input =
     bindP (liftP (nonEmptyText (ct_goal input))) (\<lambda>goal.
     bindP (liftP (gitSha (ct_baseCommit input))) (\<lambda>baseCommit.
     bindP (liftP (guardE (def_inputs (ct_root input) = []) Invalid_artifact_input)) (\<lambda>_.
     bindP (drawId taskTreeId) (\<lambda>treeId.
     bindP (drawId planRevisionId) (\<lambda>revisionId.
     bindP (createTaskNode \<lparr>cn_treeId = treeId, cn_repositoryId = repo_id (ct_repository input),
         cn_hostId = repo_hostId (ct_repository input), cn_parentNodeId = None,
         cn_planRevisionId = revisionId, cn_definition = ct_root input\<rparr>) (\<lambda>root.
     bindP (liftP (validateDistinctTreeIds (ct_repository input) treeId revisionId root)) (\<lambda>_.
     bindP (liftP (guardE (\<not> compareTimestamps (tn_createdAt root)
                              (repo_registeredAt (ct_repository input)) < 0)
              Invalid_tree)) (\<lambda>_.
       liftP (Inr \<lparr>tt_id = treeId, tt_repositoryId = repo_id (ct_repository input),
         tt_hostId = repo_hostId (ct_repository input), tt_baseCommit = baseCommit,
         tt_goal = goal, tt_activePlanRevisionId = revisionId, tt_rootNodeId = tn_id root,
         tt_nodes = [root], tt_createdAt = tn_createdAt root,
         tt_updatedAt = tn_updatedAt root\<rparr>)))))))))"

definition appendTaskNode ::
    "task_tree \<Rightarrow> string \<Rightarrow> task_node_definition \<Rightarrow> ports \<Rightarrow> (task_tree checked \<times> ports) option"
where
  "appendTaskNode t parentNodeId d p = (case getTaskNode t parentNodeId of
     Inl e \<Rightarrow> Some (Inl e, p)
   | Inr parent \<Rightarrow> (case validateArtifactInputs t parent d of
       None \<Rightarrow> None
     | Some (Inl e) \<Rightarrow> Some (Inl e, p)
     | Some (Inr _) \<Rightarrow> Some (bindP
         (createTaskNode \<lparr>cn_treeId = tt_id t, cn_repositoryId = tt_repositoryId t,
            cn_hostId = tt_hostId t, cn_parentNodeId = Some (tn_id parent),
            cn_planRevisionId = tt_activePlanRevisionId t, cn_definition = d\<rparr>) (\<lambda>n.
         bindP (liftP (validateNewNodeIds t n)) (\<lambda>_.
         bindP (liftP (guardE (\<not> compareTimestamps (tn_createdAt n) (tt_updatedAt t) < 0)
                  Invalid_tree)) (\<lambda>_.
           liftP (Inr (replaceTreeNodes t (tt_nodes t @ [n]) (tn_updatedAt n)))))) p)))"

section \<open>Transitions\<close>

text \<open>\<open>compareTimestamps(at, t) < 0\<close> before \<open>at\<close> has been checked.\<close>

fun number_before :: "number \<Rightarrow> int \<Rightarrow> bool" where
  "number_before (JsNum q) t = (q < of_int t)"
| "number_before JsNegInf t = True"
| "number_before JsPosInf t = False"
| "number_before JsNaN t = False"

fun blockStartedDescendants ::
    "task_tree \<Rightarrow> task_node list \<Rightarrow> task_node \<Rightarrow> string \<Rightarrow> number \<Rightarrow> task_node list checked option"
where
  "blockStartedDescendants before [] failedNode ev ts = Some (Inr [])"
| "blockStartedDescendants before (n # ns) failedNode ev ts =
     bindL
       (if tn_state n \<noteq> Active \<and> tn_state n \<noteq> Ready then Some (Inr n)
        else bindL (isDescendantOf before n (tn_id failedNode)) (\<lambda>d.
          if \<not> d then Some (Inr n)
          else Some (transitionTaskNode n (Block (Parent_blocker ev (tn_id failedNode))) ts)))
       (\<lambda>n'. bindL (blockStartedDescendants before ns failedNode ev ts) (\<lambda>ns'.
         Some (Inr (n' # ns'))))"

fun makes_runnable :: "task_node_transition \<Rightarrow> bool" where
  "makes_runnable Mark_ready = True"
| "makes_runnable Activate = True"
| "makes_runnable Unblock = True"
| "makes_runnable _ = False"

definition transitionNodeInTree ::
    "task_tree \<Rightarrow> string \<Rightarrow> task_node_transition \<Rightarrow> number \<Rightarrow> task_tree checked option" where
  "transitionNodeInTree t nid tr ts =
     (if number_before ts (tt_updatedAt t) then Some (Inl Invalid_transition)
      else
     bindL (Some (getTaskNode t nid)) (\<lambda>current.
     bindL (if makes_runnable tr
            then bindL (findFailedAncestor t current) (\<lambda>f.
              Some (guardE (f = None) Invalid_transition))
            else Some (Inr ())) (\<lambda>_.
     bindL (Some (transitionTaskNode current tr ts)) (\<lambda>transitioned.
     let nodes = map (\<lambda>n. if tn_id n = tn_id transitioned then transitioned else n) (tt_nodes t) in
     bindL (case tn_state transitioned of
         Failed ev \<Rightarrow> blockStartedDescendants t nodes transitioned ev ts
       | _ \<Rightarrow> Some (Inr nodes)) (\<lambda>nodes'.
       Some (Inr (replaceTreeNodes t nodes' (int_of_number ts))))))))"

section \<open>The invariant of a tree\<close>

definition skeleton :: "task_tree \<Rightarrow> string parent_list" where
  "skeleton t = map (\<lambda>n. (tn_id n, tn_parentNodeId n)) (tt_nodes t)"

abbreviation below :: "task_tree \<Rightarrow> string \<Rightarrow> string \<Rightarrow> bool" where
  "below t \<equiv> ancestor_of (parent_of (skeleton t))"

fun is_failed :: "task_node_state \<Rightarrow> bool" where
  "is_failed (Failed _) = True"
| "is_failed _ = False"

definition started :: "task_node \<Rightarrow> bool" where
  "started n \<longleftrightarrow> tn_state n = Active \<or> tn_state n = Ready"

definition occupiedIds :: "task_tree \<Rightarrow> string list" where
  "occupiedIds t = [tt_repositoryId t, tt_hostId t, tt_id t, tt_activePlanRevisionId t] @
     concat (map ownedNodeIds (tt_nodes t))"

definition nodes_ok :: "task_tree \<Rightarrow> bool" where
  "nodes_ok t \<longleftrightarrow> (\<forall>n\<in>set (tt_nodes t).
     wf_node n \<and> tn_treeId n = tt_id t \<and> tn_updatedAt n \<le> tt_updatedAt t)"

text \<open>Nothing below a failed node is runnable or running.\<close>

definition failure_contained :: "task_tree \<Rightarrow> bool" where
  "failure_contained t \<longleftrightarrow> (\<forall>n\<in>set (tt_nodes t). \<forall>a\<in>set (tt_nodes t).
     below t (tn_id n) (tn_id a) \<longrightarrow> is_failed (tn_state a) \<longrightarrow> \<not> started n)"

text \<open>A node consumes only artifacts that an ancestor declares.\<close>

definition inputs_owned :: "task_tree \<Rightarrow> bool" where
  "inputs_owned t \<longleftrightarrow> (\<forall>n\<in>set (tt_nodes t). \<forall>i\<in>set (tn_inputs n).
     \<exists>a\<in>set (tt_nodes t). tn_id a = in_sourceNodeId i \<and> below t (tn_id n) (tn_id a) \<and>
       (\<exists>ty. tn_outputContract a = Artifact_contract (in_artifactId i) ty))"

definition wf_tree :: "task_tree \<Rightarrow> bool" where
  "wf_tree t \<longleftrightarrow> tt_nodes t \<noteq> [] \<and> tn_id (hd (tt_nodes t)) = tt_rootNodeId t \<and>
     parents_first (skeleton t) \<and> nodes_ok t \<and> is_timestamp (tt_updatedAt t) \<and>
     distinct (occupiedIds t) \<and> inputs_owned t \<and> failure_contained t"

lemma fst_skeleton: "fst ` set (skeleton t) = tn_id ` set (tt_nodes t)"
  by (auto simp: skeleton_def image_image)

lemma map_fst_skeleton: "map fst (skeleton t) = map tn_id (tt_nodes t)"
  by (simp add: skeleton_def comp_def)

lemma parents_first_ids: "parents_first (skeleton t) \<Longrightarrow> distinct (map tn_id (tt_nodes t))"
  by (simp add: parents_first_def map_fst_skeleton)

lemma getTaskNode_member:
  "parents_first (skeleton t) \<Longrightarrow> n \<in> set (tt_nodes t) \<Longrightarrow> getTaskNode t (tn_id n) = Inr n"
  by (simp add: getTaskNode_def find_first_key parents_first_ids)

lemma tree_node_unique:
  assumes "parents_first (skeleton t)" "m \<in> set (tt_nodes t)" "n \<in> set (tt_nodes t)"
    and "tn_id m = tn_id n"
  shows "m = n"
  using parents_first_ids [OF assms(1)] assms(2-) by (auto simp: distinct_map dest: inj_onD)

lemma getTaskNode_Inr: "getTaskNode t nid = Inr n \<Longrightarrow> n \<in> set (tt_nodes t) \<and> tn_id n = nid"
  by (auto simp: getTaskNode_def dest: find_first_Some_iff split: option.splits)

lemma skeleton_parent:
  assumes "parents_first (skeleton t)" and "(nid, q) \<in> set (skeleton t)"
  shows "parent_of (skeleton t) nid = q"
proof -
  from assms have "map_of (skeleton t) nid = Some q"
    by (simp add: parents_first_def)
  then show ?thesis by (simp add: parent_of_def split: option.splits)
qed

lemma skeleton_parent_member:
  assumes "parents_first (skeleton t)" and "parent_of (skeleton t) nid = Some p"
  obtains m where "m \<in> set (tt_nodes t)" and "tn_id m = p"
    and "(p, tn_parentNodeId m) \<in> set (skeleton t)"
proof -
  from parents_first_parent [OF assms] obtain m where "m \<in> set (tt_nodes t)" "tn_id m = p"
    by (auto simp: fst_skeleton)
  then show thesis by (intro that) (auto simp: skeleton_def)
qed

lemma skeleton_member: "n \<in> set (tt_nodes t) \<Longrightarrow> (tn_id n, tn_parentNodeId n) \<in> set (skeleton t)"
  by (auto simp: skeleton_def)

section \<open>Every parent walk of a well-formed tree returns\<close>

lemma descendant_loop_result:
  assumes pf: "parents_first (skeleton t)" and "(nid, q) \<in> set (skeleton t)"
  shows "descendant_loop t q a = Some (Inr (below t nid a))"
proof -
  have "\<forall>q. (nid, q) \<in> set (skeleton t) \<longrightarrow>
      descendant_loop t q a = Some (Inr (below t nid a))"
  proof (induction nid rule: parents_first_induct [OF pf])
    case (1 n)
    then show ?case
      by (auto dest: skeleton_parent [OF pf] simp: descendant_loop.simps ancestor_of_root)
  next
    case (2 n m)
    from pf 2(1) obtain k where k: "k \<in> set (tt_nodes t)" "tn_id k = m"
      "(m, tn_parentNodeId k) \<in> set (skeleton t)"
      by (rule skeleton_parent_member)
    from getTaskNode_member [OF pf k(1)] k(2) have "getTaskNode t m = Inr k" by simp
    with 2 k(3) show ?case
      by (auto dest: skeleton_parent [OF pf]
          simp: descendant_loop.simps [of t "Some m"] ancestor_of_step [where parent = "parent_of (skeleton t)", OF 2(1)])
  qed
  with assms(2) show ?thesis by blast
qed

lemma failed_ancestor_loop_result:
  assumes pf: "parents_first (skeleton t)" and "(nid, q) \<in> set (skeleton t)"
  shows "\<exists>r. failed_ancestor_loop t q = Some (Inr r) \<and>
    (r = None \<longleftrightarrow> \<not> (\<exists>a\<in>set (tt_nodes t). below t nid (tn_id a) \<and> is_failed (tn_state a)))"
proof -
  have "\<forall>q. (nid, q) \<in> set (skeleton t) \<longrightarrow>
      (\<exists>r. failed_ancestor_loop t q = Some (Inr r) \<and> (r = None \<longleftrightarrow>
        \<not> (\<exists>a\<in>set (tt_nodes t). below t nid (tn_id a) \<and> is_failed (tn_state a))))"
  proof (induction nid rule: parents_first_induct [OF pf])
    case (1 n)
    then show ?case
      by (auto dest: skeleton_parent [OF pf]
          simp: failed_ancestor_loop.simps [of t None] ancestor_of_root)
  next
    case (2 n m)
    from pf 2(1) obtain k where k: "k \<in> set (tt_nodes t)" "tn_id k = m"
      "(m, tn_parentNodeId k) \<in> set (skeleton t)"
      by (rule skeleton_parent_member)
    from getTaskNode_member [OF pf k(1)] k(2) have get: "getTaskNode t m = Inr k" by simp
    have same: "a \<in> set (tt_nodes t) \<Longrightarrow> tn_id a = m \<Longrightarrow> a = k" for a
      using getTaskNode_member [OF pf, of a] get by simp
    from 2(2) k(3) obtain r where r: "failed_ancestor_loop t (tn_parentNodeId k) = Some (Inr r)"
      "r = None \<longleftrightarrow> \<not> (\<exists>a\<in>set (tt_nodes t). below t m (tn_id a) \<and> is_failed (tn_state a))"
      by blast
    from skeleton_parent [OF pf] 2(1) have q: "(n, q) \<in> set (skeleton t) \<Longrightarrow> q = Some m" for q
      by fastforce
    note step = ancestor_of_step [where parent = "parent_of (skeleton t)", OF 2(1)]
    show ?case
    proof (cases "is_failed (tn_state k)")
      case True
      then have "failed_ancestor_loop t (Some m) = Some (Inr (Some k))"
        by (auto simp: failed_ancestor_loop.simps [of t "Some m"] get elim: is_failed.elims)
      with k True show ?thesis by (auto dest!: q simp: step)
    next
      case False
      then have "failed_ancestor_loop t (Some m) = Some (Inr r)"
        by (auto simp: failed_ancestor_loop.simps [of t "Some m"] get r(1)
            split: task_node_state.splits)
      with False r(2) show ?thesis by (auto dest!: q dest: same simp: step)
    qed
  qed
  with assms(2) show ?thesis by blast
qed

lemma ancestors_loop_result:
  assumes pf: "parents_first (skeleton t)" and "n \<in> set (tt_nodes t)"
  shows "\<exists>as. ancestors_loop t n acc = Some (Inr (acc @ as)) \<and> set as \<subseteq> set (tt_nodes t) \<and>
    tn_id ` set as = {a. below t (tn_id n) a}"
proof -
  have "\<forall>n acc. n \<in> set (tt_nodes t) \<longrightarrow> tn_id n = nid \<longrightarrow>
    (\<exists>as. ancestors_loop t n acc = Some (Inr (acc @ as)) \<and> set as \<subseteq> set (tt_nodes t) \<and>
      tn_id ` set as = {a. below t nid a})" for nid
  proof (induction nid rule: parents_first_induct [OF pf])
    case (1 k)
    then show ?case
      by (auto simp: ancestors_loop.simps ancestor_of_root
          dest!: skeleton_member dest: skeleton_parent [OF pf])
  next
    case (2 k m)
    from pf 2(1) obtain j where j: "j \<in> set (tt_nodes t)" "tn_id j = m"
      by (rule skeleton_parent_member)
    from getTaskNode_member [OF pf j(1)] j(2) have get: "getTaskNode t m = Inr j" by simp
    show ?case
    proof (intro allI impI)
      fix n acc assume n: "n \<in> set (tt_nodes t)" "tn_id n = k"
      from skeleton_parent [OF pf skeleton_member [OF n(1)]] 2(1) n(2)
      have par: "tn_parentNodeId n = Some m" by simp
      from 2(2) j obtain as where as: "ancestors_loop t j (acc @ [j]) = Some (Inr ((acc @ [j]) @ as))"
        "set as \<subseteq> set (tt_nodes t)" "tn_id ` set as = {a. below t m a}" by blast
      from par get as(1) have "ancestors_loop t n acc = Some (Inr (acc @ (j # as)))"
        by (simp add: ancestors_loop.simps [of t n])
      with as j show "\<exists>as. ancestors_loop t n acc = Some (Inr (acc @ as)) \<and>
          set as \<subseteq> set (tt_nodes t) \<and> tn_id ` set as = {a. below t k a}"
        by (intro exI [of _ "j # as"]) (auto simp: ancestor_of_step [where parent = "parent_of (skeleton t)", OF 2(1)])
    qed
  qed
  with assms(2) show ?thesis by blast
qed


section \<open>What a transition does to a tree\<close>

fun resume_from :: "task_node_state \<Rightarrow> resume_state" where
  "resume_from Ready = Resume_ready"
| "resume_from _ = Resume_active"

definition block_below ::
    "task_tree \<Rightarrow> string \<Rightarrow> string \<Rightarrow> int \<Rightarrow> task_node \<Rightarrow> task_node" where
  "block_below t failedId ev T n =
     (if started n \<and> below t (tn_id n) failedId
      then n\<lparr>tn_state := Blocked (Parent_blocker ev failedId) (resume_from (tn_state n)),
             tn_updatedAt := T\<rparr>
      else n)"

definition evolve :: "task_tree \<Rightarrow> task_node \<Rightarrow> int \<Rightarrow> task_node \<Rightarrow> task_node" where
  "evolve t n' T m =
     (if tn_id m = tn_id n' then n'
      else case tn_state n' of Failed ev \<Rightarrow> block_below t (tn_id n') ev T m | _ \<Rightarrow> m)"

lemma blockStartedDescendants_result:
  assumes pf: "parents_first (skeleton t)" and f: "uuidV7Pattern (tn_id f)" "uuidV7Pattern ev"
    and T: "is_timestamp T"
    and ns: "\<And>n. n \<in> set ns \<Longrightarrow>
      (tn_id n, tn_parentNodeId n) \<in> set (skeleton t) \<and> tn_updatedAt n \<le> T"
  shows "blockStartedDescendants t ns f ev (number_of_int T) =
    Some (Inr (map (block_below t (tn_id f) ev T) ns))"
  using ns
proof (induction ns)
  case Nil
  then show ?case by simp
next
  case (Cons n ns)
  then have n: "isDescendantOf t n (tn_id f) = Some (Inr (below t (tn_id n) (tn_id f)))"
    by (simp add: isDescendantOf_def descendant_loop_result [OF pf])
  from f have b: "validateBlocker (Parent_blocker ev (tn_id f)) = Inr ()"
    by (simp add: uuid_parsers res_simps parser_iffs)
  have "started n \<Longrightarrow> transitionTaskNode n (Block (Parent_blocker ev (tn_id f))) (number_of_int T) =
      Inr (n\<lparr>tn_state := Blocked (Parent_blocker ev (tn_id f)) (resume_from (tn_state n)),
             tn_updatedAt := T\<rparr>)"
    using T Cons.prems [of n] b
    by (auto simp: transition_Inr_iff started_def)
  with Cons n show ?case
    by (auto simp: block_below_def started_def)
qed

lemma transitionNode_cases:
  assumes wf: "parents_first (skeleton t)" "nodes_ok t"
  shows "\<exists>r. transitionNodeInTree t nid tr ts = Some r \<and> (\<forall>t'. r = Inr t' \<longleftrightarrow>
    (\<exists>T n n'. ts = number_of_int T \<and> tt_updatedAt t \<le> T \<and> n \<in> set (tt_nodes t) \<and>
       tn_id n = nid \<and> transitionTaskNode n tr ts = Inr n' \<and>
       (makes_runnable tr \<longrightarrow>
          \<not> (\<exists>a\<in>set (tt_nodes t). below t nid (tn_id a) \<and> is_failed (tn_state a))) \<and>
       t' = replaceTreeNodes t (map (evolve t n' T) (tt_nodes t)) T))"
proof (cases "getTaskNode t nid")
  case (Inl e)
  then have "\<forall>n\<in>set (tt_nodes t). tn_id n \<noteq> nid"
    by (auto simp: getTaskNode_def find_first_None_iff split: option.splits)
  with Inl show ?thesis by (auto simp: transitionNodeInTree_def)
next
  case (Inr n)
  from getTaskNode_Inr [OF Inr] have n: "n \<in> set (tt_nodes t)" "tn_id n = nid" by auto
  have uniq: "m = n" if "m \<in> set (tt_nodes t)" "tn_id m = nid" for m
    using getTaskNode_member [OF wf(1) that(1)] that(2) Inr by simp
  from failed_ancestor_loop_result [OF wf(1) skeleton_member [OF n(1)]] n(2)
  obtain r where r: "findFailedAncestor t n = Some (Inr r)"
    "r = None \<longleftrightarrow> \<not> (\<exists>a\<in>set (tt_nodes t). below t nid (tn_id a) \<and> is_failed (tn_state a))"
    by (auto simp: findFailedAncestor_def)
  show ?thesis
  proof (cases "transitionTaskNode n tr ts")
    case (Inl e)
    have "\<exists>e. transitionNodeInTree t nid tr ts = Some (Inl e)"
      using Inr Inl r(1) by (cases r) (auto simp: transitionNodeInTree_def)
    moreover from Inl uniq have
      "\<And>m. m \<in> set (tt_nodes t) \<Longrightarrow> tn_id m = nid \<Longrightarrow> transitionTaskNode m tr ts = Inl e"
      by blast
    ultimately show ?thesis by fastforce
  next
    case succ: (Inr n')
    then obtain T s where T: "ts = number_of_int T" "is_timestamp T" "nextState n tr = Inr s"
      "n' = n\<lparr>tn_state := s, tn_updatedAt := T\<rparr>" "tn_updatedAt n \<le> T"
      by (auto simp: transition_Inr_iff)
    from wf(2) n have wfn: "wf_node n" "tn_updatedAt n \<le> tt_updatedAt t" by (auto simp: nodes_ok_def)
    let ?nodes = "map (\<lambda>m. if tn_id m = tn_id n' then n' else m) (tt_nodes t)"
    have T0: "int_of_number ts = T" by (simp add: T(1))
    have late: "number_before ts (tt_updatedAt t) \<longleftrightarrow> T < tt_updatedAt t"
      by (simp add: T(1) number_of_int_def)
    have body: "(case tn_state n' of
         Failed ev \<Rightarrow> blockStartedDescendants t ?nodes n' ev ts | _ \<Rightarrow> Some (Inr ?nodes)) =
       Some (Inr (map (evolve t n' T) (tt_nodes t)))" if "tt_updatedAt t \<le> T"
    proof (cases "tn_state n'")
      case (Failed ev)
      from transition_wf [OF wfn(1) succ] Failed have ids: "uuidV7Pattern (tn_id n')" "uuidV7Pattern ev"
        by (auto simp: wf_node_def)
      have early: "(tn_id m, tn_parentNodeId m) \<in> set (skeleton t) \<and> tn_updatedAt m \<le> T"
        if "m \<in> set ?nodes" for m
        using that \<open>tt_updatedAt t \<le> T\<close> n T wf(2) skeleton_member [OF n(1)]
        by (force simp: nodes_ok_def skeleton_member)
      have "map (block_below t (tn_id n') ev T) ?nodes = map (evolve t n' T) (tt_nodes t)"
        by (auto simp: evolve_def block_below_def started_def Failed)
      with blockStartedDescendants_result [where ns = ?nodes, OF wf(1) ids T(2) early] Failed
      show ?thesis by (simp only: T(1) task_node_state.simps)
    qed (auto simp: evolve_def)
    have "transitionNodeInTree t nid tr ts =
        (if T < tt_updatedAt t then Some (Inl Invalid_transition)
         else if makes_runnable tr \<and> r \<noteq> None then Some (Inl Invalid_transition)
         else Some (Inr (replaceTreeNodes t (map (evolve t n' T) (tt_nodes t)) T)))"
      using body
      by (simp add: transitionNodeInTree_def late Inr r(1) succ T0 Let_def guardE_def)
    moreover have "(\<exists>T2 n2 n2'. ts = number_of_int T2 \<and> tt_updatedAt t \<le> T2 \<and>
        n2 \<in> set (tt_nodes t) \<and> tn_id n2 = nid \<and> transitionTaskNode n2 tr ts = Inr n2' \<and>
        (makes_runnable tr \<longrightarrow>
          \<not> (\<exists>a\<in>set (tt_nodes t). below t nid (tn_id a) \<and> is_failed (tn_state a))) \<and>
        t' = replaceTreeNodes t (map (evolve t n2' T2) (tt_nodes t)) T2) \<longleftrightarrow>
      tt_updatedAt t \<le> T \<and> (makes_runnable tr \<longrightarrow> r = None) \<and>
        t' = replaceTreeNodes t (map (evolve t n' T) (tt_nodes t)) T" (is "?L = ?R") for t'
    proof
      assume ?L
      then obtain T2 n2 n2' where x: "ts = number_of_int T2" "tt_updatedAt t \<le> T2"
        "n2 \<in> set (tt_nodes t)" "tn_id n2 = nid" "transitionTaskNode n2 tr ts = Inr n2'"
        "makes_runnable tr \<longrightarrow> r = None"
        "t' = replaceTreeNodes t (map (evolve t n2' T2) (tt_nodes t)) T2"
        unfolding r(2) by blast
      from x(1) T(1) have "T2 = T" by (simp add: number_of_int_def)
      moreover from uniq [OF x(3,4)] x(5) succ have "n2' = n'" by simp
      ultimately show ?R using x by simp
    next
      assume ?R
      with T(1) n succ show ?L unfolding r(2) by blast
    qed
    ultimately show ?thesis by (auto simp: not_less)
  qed
qed


lemma transitionNode_returns:
  assumes "parents_first (skeleton t)" "nodes_ok t"
  shows "\<exists>r. transitionNodeInTree t nid tr ts = Some r"
  using transitionNode_cases [OF assms, of nid tr ts] by blast

lemma transitionNode_Inr:
  assumes "parents_first (skeleton t)" "nodes_ok t"
  shows "transitionNodeInTree t nid tr ts = Some (Inr t') \<longleftrightarrow>
    (\<exists>T n n'. ts = number_of_int T \<and> tt_updatedAt t \<le> T \<and> n \<in> set (tt_nodes t) \<and>
       tn_id n = nid \<and> transitionTaskNode n tr ts = Inr n' \<and>
       (makes_runnable tr \<longrightarrow>
          \<not> (\<exists>a\<in>set (tt_nodes t). below t nid (tn_id a) \<and> is_failed (tn_state a))) \<and>
       t' = replaceTreeNodes t (map (evolve t n' T) (tt_nodes t)) T)"
proof -
  from transitionNode_cases [OF assms, of nid tr ts] obtain r where
    "transitionNodeInTree t nid tr ts = Some r" and r: "r = Inr t' \<longleftrightarrow>
    (\<exists>T n n'. ts = number_of_int T \<and> tt_updatedAt t \<le> T \<and> n \<in> set (tt_nodes t) \<and>
       tn_id n = nid \<and> transitionTaskNode n tr ts = Inr n' \<and>
       (makes_runnable tr \<longrightarrow>
          \<not> (\<exists>a\<in>set (tt_nodes t). below t nid (tn_id a) \<and> is_failed (tn_state a))) \<and>
       t' = replaceTreeNodes t (map (evolve t n' T) (tt_nodes t)) T)" by blast
  then show ?thesis by (simp only: option.inject)
qed

section \<open>Transitions keep the invariant\<close>

lemma evolve_identity:
  assumes "transitionTaskNode n tr ts = Inr n'" and "ts = number_of_int T"
    and "tn_id m = tn_id n \<Longrightarrow> m = n" and "tn_updatedAt m \<le> T"
  shows "same_identity m (evolve t n' T m)"
proof (cases "tn_id m = tn_id n'")
  case True
  with assms transition_identity [OF assms(1)] show ?thesis
    by (auto simp: evolve_def same_identity_def)
next
  case False
  with assms(4) show ?thesis
    by (auto simp: evolve_def block_below_def same_identity_def split: task_node_state.splits)
qed

lemma map_identity:
  assumes "\<And>m. m \<in> set (tt_nodes t) \<Longrightarrow> same_identity m (f m)"
    and "t' = replaceTreeNodes t (map f (tt_nodes t)) T"
  shows "skeleton t' = skeleton t" "occupiedIds t' = occupiedIds t"
    "inputs_owned t \<Longrightarrow> inputs_owned t'"
proof -
  show sk: "skeleton t' = skeleton t"
    using assms by (auto simp: skeleton_def replaceTreeNodes_def same_identity_def)
  have c: "map (ownedNodeIds \<circ> f) (tt_nodes t) = map ownedNodeIds (tt_nodes t)"
    using assms(1) by (auto simp: ownedNodeIds_def same_identity_def split: output_contract.splits)
  have "concat (map (ownedNodeIds \<circ> f) (tt_nodes t)) = concat (map ownedNodeIds (tt_nodes t))"
    unfolding c ..
  then show "occupiedIds t' = occupiedIds t"
    by (simp add: occupiedIds_def assms(2) replaceTreeNodes_def)
  assume io: "inputs_owned t"
  have "\<exists>a\<in>set (tt_nodes t'). tn_id a = in_sourceNodeId i \<and> below t' (tn_id (f n)) (tn_id a) \<and>
       (\<exists>ty. tn_outputContract a = Artifact_contract (in_artifactId i) ty)"
    if n: "n \<in> set (tt_nodes t)" and i: "i \<in> set (tn_inputs (f n))" for n i
  proof -
    from assms(1) [OF n] i have "i \<in> set (tn_inputs n)" "tn_id (f n) = tn_id n"
      by (auto simp: same_identity_def)
    with io n obtain a where "a \<in> set (tt_nodes t)" "tn_id a = in_sourceNodeId i"
      "below t (tn_id n) (tn_id a)"
      "\<exists>ty. tn_outputContract a = Artifact_contract (in_artifactId i) ty"
      unfolding inputs_owned_def by blast
    with assms(1) [of a] sk \<open>tn_id (f n) = tn_id n\<close> show ?thesis
      by (intro bexI [of _ "f a"]) (auto simp: same_identity_def assms(2) replaceTreeNodes_def)
  qed
  with assms(2) show "inputs_owned t'"
    unfolding inputs_owned_def by (auto simp: replaceTreeNodes_def)
qed

lemma block_below_wf:
  assumes "wf_node m" "tn_updatedAt m \<le> T" "is_timestamp T" "uuidV7Pattern ev" "uuidV7Pattern fid"
  shows "wf_node (block_below t fid ev T m)"
  using assms unfolding block_below_def wf_node_def wf_contract_def
  by (auto split: output_contract.splits)

lemma nextState_starts:
  "nextState n tr = Inr s \<Longrightarrow> s = Active \<or> s = Ready \<Longrightarrow> makes_runnable tr"
  by (cases tr) (auto simp: res_simps split: task_node_state.splits)

lemma evolve_contained:
  assumes fc: "failure_contained t" and sk: "skeleton t' = skeleton t"
    and n: "n \<in> set (tt_nodes t)" "tn_id n' = tn_id n" "nextState n tr = Inr (tn_state n')"
    and uniq: "\<And>m. m \<in> set (tt_nodes t) \<Longrightarrow> tn_id m = tn_id n \<Longrightarrow> m = n"
    and clear: "makes_runnable tr \<Longrightarrow>
      \<not> (\<exists>a\<in>set (tt_nodes t). below t (tn_id n) (tn_id a) \<and> is_failed (tn_state a))"
    and t': "tt_nodes t' = map (evolve t n' T) (tt_nodes t)"
  shows "failure_contained t'"
proof -
  let ?f = "evolve t n' T"
  have ids: "tn_id (?f m) = tn_id m" for m
    using n(2) by (auto simp: evolve_def block_below_def split: task_node_state.splits)
  have "\<not> started (?f m)" if m: "m \<in> set (tt_nodes t)" and a: "a \<in> set (tt_nodes t)"
    and bel: "below t (tn_id m) (tn_id a)" and fa: "is_failed (tn_state (?f a))" for m a
  proof (cases "tn_id a = tn_id n'")
    case True
    with fa obtain ev where ev: "tn_state n' = Failed ev"
      by (auto simp: evolve_def elim: is_failed.elims)
    with True bel show ?thesis by (auto simp: evolve_def block_below_def started_def)
  next
    case False
    with fa have "is_failed (tn_state a)"
      by (auto simp: evolve_def block_below_def split: task_node_state.splits if_splits)
    with fc m a bel have nm: "\<not> started m" by (auto simp: failure_contained_def)
    show ?thesis
    proof (cases "tn_id m = tn_id n'")
      case True
      with clear a bel \<open>is_failed (tn_state a)\<close> n(2) have "\<not> makes_runnable tr" by auto
      with nextState_starts [OF n(3)] True show ?thesis by (auto simp: started_def evolve_def)
    next
      case False
      with nm show ?thesis
        by (auto simp: evolve_def block_below_def split: task_node_state.splits)
    qed
  qed
  with ids sk show ?thesis unfolding failure_contained_def t' by auto
qed

lemma transitionNode_wf:
  assumes wf: "wf_tree t" and step: "transitionNodeInTree t nid tr ts = Some (Inr t')"
  shows "wf_tree t' \<and> skeleton t' = skeleton t \<and> occupiedIds t' = occupiedIds t \<and>
    tt_updatedAt t \<le> tt_updatedAt t' \<and>
    (\<exists>f. tt_nodes t' = map f (tt_nodes t) \<and>
       (\<forall>m\<in>set (tt_nodes t). same_identity m (f m) \<and>
          (isTerminalNode m \<longrightarrow> f m = m)))"
proof -
  from wf have pf: "parents_first (skeleton t)" and ok: "nodes_ok t"
    by (auto simp: wf_tree_def)
  from step [unfolded transitionNode_Inr [OF pf ok]] obtain T n n' where
    T: "ts = number_of_int T" "tt_updatedAt t \<le> T"
    and n: "n \<in> set (tt_nodes t)" "tn_id n = nid" and tn: "transitionTaskNode n tr ts = Inr n'"
    and clear: "makes_runnable tr \<longrightarrow>
       \<not> (\<exists>a\<in>set (tt_nodes t). below t nid (tn_id a) \<and> is_failed (tn_state a))"
    and t': "t' = replaceTreeNodes t (map (evolve t n' T) (tt_nodes t)) T"
    by blast
  have uniq: "m = n" if "m \<in> set (tt_nodes t)" "tn_id m = tn_id n" for m
    using tree_node_unique [OF pf that(1) n(1) that(2)] .
  from ok T(2) have upd: "m \<in> set (tt_nodes t) \<Longrightarrow> tn_updatedAt m \<le> T" for m
    by (force simp: nodes_ok_def)
  have sid: "same_identity m (evolve t n' T m)" if "m \<in> set (tt_nodes t)" for m
    by (rule evolve_identity [OF tn T(1)]) (use that uniq upd in auto)
  note keep = map_identity [OF sid t']
  from tn T(1) have st: "nextState n tr = Inr (tn_state n')" "tn_id n' = tn_id n"
    "is_timestamp T" "tn_updatedAt n' = T"
    by (auto simp: transition_Inr_iff number_of_int_def)
  from wf have fc: "failure_contained t" by (simp add: wf_tree_def)
  have fc': "failure_contained t'"
    by (rule evolve_contained [OF fc keep(1) n(1) st(2,1) uniq])
       (use clear n(2) in \<open>auto simp: t' replaceTreeNodes_def\<close>)
  have wfn: "wf_node (evolve t n' T m)" if m: "m \<in> set (tt_nodes t)" for m
  proof -
    from ok m n(1) have "wf_node m" "wf_node n" by (auto simp: nodes_ok_def)
    moreover from transition_wf [OF this(2) tn] have "wf_node n'" .
    moreover from \<open>wf_node n'\<close> have "uuidV7Pattern (tn_id n')"
      "tn_state n' = Failed ev \<Longrightarrow> uuidV7Pattern ev" for ev by (auto simp: wf_node_def)
    ultimately show ?thesis using upd [OF m] st(3)
      by (auto simp: evolve_def intro: block_below_wf split: task_node_state.splits)
  qed
  have ok': "nodes_ok t'"
    using wfn sid upd st(4) ok
    by (auto simp: nodes_ok_def t' replaceTreeNodes_def same_identity_def)
       (auto simp: evolve_def block_below_def split: task_node_state.splits)
  have settled: "evolve t n' T m = m" if m: "m \<in> set (tt_nodes t)" "isTerminalNode m" for m
  proof (cases "tn_id m = tn_id n'")
    case True
    with uniq m st nextState_lifecycle [OF st(1)] show ?thesis
      by (auto simp: isTerminalNode_def dest!: lifecycle_terminal)
  next
    case False
    with m(2) show ?thesis
      by (auto simp: evolve_def block_below_def started_def isTerminalNode_def
          split: task_node_state.splits)
  qed
  have hd: "tn_id (evolve t n' T m) = tn_id m" if "m \<in> set (tt_nodes t)" for m
    using sid [OF that] by (simp add: same_identity_def)
  from wf have w: "tt_nodes t \<noteq> []" "tn_id (hd (tt_nodes t)) = tt_rootNodeId t"
    "distinct (occupiedIds t)" "inputs_owned t" by (auto simp: wf_tree_def)
  from keep(3) [OF _ w(4)] w hd [of "hd (tt_nodes t)"] keep(1,2) pf ok' fc' st(3)
  have "wf_tree t'" by (simp add: wf_tree_def) (simp add: t' replaceTreeNodes_def hd_map)
  moreover have "tt_nodes t' = map (evolve t n' T) (tt_nodes t)" "tt_updatedAt t' = T"
    by (simp_all add: t' replaceTreeNodes_def)
  ultimately show ?thesis using keep(1,2) T(2) sid settled by auto
qed


section \<open>Growth keeps the invariant\<close>

lemma getAncestorNodes_result:
  assumes "parents_first (skeleton t)" and "n \<in> set (tt_nodes t)"
  shows "\<exists>as. getAncestorNodes t (tn_id n) = Some (Inr as) \<and> set as \<subseteq> set (tt_nodes t) \<and>
    tn_id ` set as = {a. below t (tn_id n) a}"
  using ancestors_loop_result [OF assms, of "[]"] getTaskNode_member [OF assms]
  by (simp add: getAncestorNodes_def)

lemma mapE_unit_Inr:
  "(\<exists>ys. mapE f xs = Inr ys) \<longleftrightarrow> (\<forall>x\<in>set xs. \<exists>y. f x = Inr y)"
  using mapE_Inr_iff [of f xs] by (simp add: is_ok_iff)

lemma validateArtifactInput_Inr:
  "validateArtifactInput t aids i = Inr u \<longleftrightarrow> in_sourceNodeId i \<in> set aids \<and>
     (\<exists>a ty. getTaskNode t (in_sourceNodeId i) = Inr a \<and>
        tn_outputContract a = Artifact_contract (in_artifactId i) ty)"
proof (cases "getTaskNode t (in_sourceNodeId i)")
  case (Inr a)
  then show ?thesis
    by (cases "tn_outputContract a") (auto simp: validateArtifactInput_def res_simps)
qed (auto simp: validateArtifactInput_def res_simps)

text \<open>An input names an artifact of the parent of the new node or of a node above it.\<close>

definition supplied :: "task_tree \<Rightarrow> task_node \<Rightarrow> artifact_input \<Rightarrow> bool" where
  "supplied t par i \<longleftrightarrow> (\<exists>a\<in>set (tt_nodes t). tn_id a = in_sourceNodeId i \<and>
     (a = par \<or> below t (tn_id par) (tn_id a)) \<and>
     (\<exists>ty. tn_outputContract a = Artifact_contract (in_artifactId i) ty))"

lemma validateArtifactInputs_result:
  assumes pf: "parents_first (skeleton t)" and par: "par \<in> set (tt_nodes t)"
  shows "\<exists>r. validateArtifactInputs t par d = Some r \<and> (r = Inr () \<longleftrightarrow>
    (\<forall>i\<in>set (def_inputs d). supplied t par i))"
proof -
  from getAncestorNodes_result [OF assms] obtain as where
    as: "getAncestorNodes t (tn_id par) = Some (Inr as)" "set as \<subseteq> set (tt_nodes t)"
      "tn_id ` set as = {a. below t (tn_id par) a}" by blast
  have "(\<exists>y. validateArtifactInput t (tn_id par # map tn_id as) i = Inr y) \<longleftrightarrow>
    supplied t par i" (is "?L = ?R") for i
  proof
    assume ?L
    then obtain a where a: "getTaskNode t (in_sourceNodeId i) = Inr a"
      "in_sourceNodeId i = tn_id par \<or> in_sourceNodeId i \<in> tn_id ` set as"
      "\<exists>ty. tn_outputContract a = Artifact_contract (in_artifactId i) ty"
      by (auto simp: validateArtifactInput_Inr)
    from getTaskNode_Inr [OF a(1)] a as(3) par show ?R unfolding supplied_def
      by (intro bexI [of _ a]) (auto dest: tree_node_unique [OF pf])
  next
    assume ?R
    then obtain a where a: "a \<in> set (tt_nodes t)" "tn_id a = in_sourceNodeId i"
      "a = par \<or> below t (tn_id par) (tn_id a)"
      "\<exists>ty. tn_outputContract a = Artifact_contract (in_artifactId i) ty"
      unfolding supplied_def by blast
    from a(3) as(3) have "tn_id a \<in> set (tn_id par # map tn_id as)" by auto
    with getTaskNode_member [OF pf a(1)] a(2,4) show ?L
      by (auto simp: validateArtifactInput_Inr)
  qed
  then show ?thesis
    using as(1) mapE_unit_Inr [of "validateArtifactInput t (tn_id par # map tn_id as)" "def_inputs d"]
    by (auto simp: validateArtifactInputs_def bindE_Inr_iff)
qed

lemma append_extends:
  assumes wf: "wf_tree t" and par: "par \<in> set (tt_nodes t)"
    and inputs: "\<forall>i\<in>set (tn_inputs n). supplied t par i"
    and n: "wf_node n" "tn_state n = Planned" "tn_treeId n = tt_id t"
      "tn_parentNodeId n = Some (tn_id par)" "tt_updatedAt t \<le> tn_updatedAt n"
    and ids: "set (ownedNodeIds n) \<inter> set (occupiedIds t) = {}"
    and t': "t' = replaceTreeNodes t (tt_nodes t @ [n]) (tn_updatedAt n)"
  shows "wf_tree t' \<and> skeleton t' = skeleton t @ [(tn_id n, Some (tn_id par))]"
proof -
  from wf have pf: "parents_first (skeleton t)" by (simp add: wf_tree_def)
  have sk: "skeleton t' = skeleton t @ [(tn_id n, Some (tn_id par))]"
    by (simp add: skeleton_def t' replaceTreeNodes_def n(4))
  have owned: "tn_id m \<in> set (ownedNodeIds m)" for m
    by (simp add: ownedNodeIds_def split: output_contract.splits)
  have "fst ` set (skeleton t) \<subseteq> set (occupiedIds t)"
    unfolding fst_skeleton occupiedIds_def using owned by auto
  with ids owned [of n] have new: "tn_id n \<notin> fst ` set (skeleton t)" by blast
  from new fst_skeleton have notin: "tn_id m \<noteq> tn_id n" if "m \<in> set (tt_nodes t)" for m
    using that by (metis image_eqI)
  have pf': "parents_first (skeleton t')"
    unfolding sk by (rule parents_first_snoc [OF pf new]) (use par in \<open>simp add: fst_skeleton\<close>)
  have old: "below t' m a \<longleftrightarrow> below t m a" if "m \<noteq> tn_id n" for m a
    unfolding sk by (rule ancestor_snoc [OF pf new that])
  have "parent_of (skeleton t') (tn_id n) = Some (tn_id par)"
    unfolding sk by (simp add: parent_of_snoc [OF new])
  from ancestor_of_step [where parent = "parent_of (skeleton t')", OF this] old notin [OF par]
  have fresh: "below t' (tn_id n) a \<longleftrightarrow> a = tn_id par \<or> below t (tn_id par) a" for a by auto
  have nodes: "tt_nodes t' = tt_nodes t @ [n]" and upd: "tt_updatedAt t' = tn_updatedAt n"
    by (simp_all add: t' replaceTreeNodes_def)
  have ok: "nodes_ok t'"
    using wf n by (auto simp: wf_tree_def nodes_ok_def nodes upd)
      (auto simp: t' replaceTreeNodes_def)
  have "distinct (ownedNodeIds n)"
    using n(1) by (auto simp: wf_node_def wf_contract_def ownedNodeIds_def
        split: output_contract.splits)
  moreover have "occupiedIds t' = occupiedIds t @ ownedNodeIds n"
    by (simp add: occupiedIds_def t' replaceTreeNodes_def)
  ultimately have dist: "distinct (occupiedIds t')"
    using wf ids by (auto simp: wf_tree_def)
  have io: "inputs_owned t'"
    unfolding inputs_owned_def nodes
  proof (intro ballI)
    fix m i assume m: "m \<in> set (tt_nodes t @ [n])" and i: "i \<in> set (tn_inputs m)"
    show "\<exists>a\<in>set (tt_nodes t @ [n]). tn_id a = in_sourceNodeId i \<and>
      below t' (tn_id m) (tn_id a) \<and>
      (\<exists>ty. tn_outputContract a = Artifact_contract (in_artifactId i) ty)"
    proof (cases "m = n")
      case True
      with i inputs [unfolded supplied_def] obtain a where "a \<in> set (tt_nodes t)" "tn_id a = in_sourceNodeId i"
        "a = par \<or> below t (tn_id par) (tn_id a)"
        "\<exists>ty. tn_outputContract a = Artifact_contract (in_artifactId i) ty" by blast
      moreover from this True fresh [of "tn_id a"] have "below t' (tn_id m) (tn_id a)" by blast
      ultimately show ?thesis by auto
    next
      case False
      with m have "m \<in> set (tt_nodes t)" by simp
      moreover from wf have "inputs_owned t" by (simp add: wf_tree_def)
      ultimately obtain a where "a \<in> set (tt_nodes t)" "tn_id a = in_sourceNodeId i"
        "below t (tn_id m) (tn_id a)"
        "\<exists>ty. tn_outputContract a = Artifact_contract (in_artifactId i) ty"
        using i unfolding inputs_owned_def by blast
      moreover from old [OF notin [OF \<open>m \<in> set (tt_nodes t)\<close>]]
      have "below t' (tn_id m) (tn_id a) \<longleftrightarrow> below t (tn_id m) (tn_id a)" .
      ultimately show ?thesis by auto
    qed
  qed
  have fc: "failure_contained t'"
  proof -
    have "\<not> started n" by (simp add: started_def n(2))
    moreover have "\<not> below t m (tn_id n)" for m
      using ancestor_in_dom [OF pf, of m "tn_id n"] new by blast
    ultimately show ?thesis
      using wf old notin
      by (auto simp: failure_contained_def nodes wf_tree_def n(2))
  qed
  from wf n(1) have "is_timestamp (tt_updatedAt t')" by (simp add: upd wf_node_def)
  moreover from wf have "tt_nodes t' \<noteq> []" "tn_id (hd (tt_nodes t')) = tt_rootNodeId t'"
    by (auto simp: wf_tree_def nodes) (simp add: t' replaceTreeNodes_def)
  ultimately show ?thesis
    using pf' ok dist io fc sk by (simp add: wf_tree_def)
qed


lemma appendTaskNode_result:
  assumes wf: "wf_tree t"
  shows "\<exists>r. appendTaskNode t pid d p = Some r \<and> (\<forall>t' p'. r = (Inr t', p') \<longrightarrow>
    (\<exists>n. wf_tree t' \<and> skeleton t' = skeleton t @ [(tn_id n, Some pid)] \<and>
      t' = replaceTreeNodes t (tt_nodes t @ [n]) (tn_updatedAt n) \<and>
      tt_updatedAt t \<le> tn_updatedAt n \<and> tn_state n = Planned))"
proof (cases "getTaskNode t pid")
  case (Inl e)
  then show ?thesis by (simp add: appendTaskNode_def)
next
  case (Inr par)
  from getTaskNode_Inr [OF Inr] have par: "par \<in> set (tt_nodes t)" "tn_id par = pid" by auto
  from wf have pf: "parents_first (skeleton t)" by (simp add: wf_tree_def)
  from validateArtifactInputs_result [OF pf par(1)] obtain r where
    r: "validateArtifactInputs t par d = Some r" "r = Inr () \<longleftrightarrow>
    (\<forall>i\<in>set (def_inputs d). supplied t par i)" by blast
  show ?thesis
  proof (cases r)
    case (Inl e)
    with \<open>getTaskNode t pid = Inr par\<close> r(1) show ?thesis by (simp add: appendTaskNode_def)
  next
    case ok: (Inr u)
    have "\<exists>n. wf_tree t' \<and> skeleton t' = skeleton t @ [(tn_id n, Some pid)] \<and>
        t' = replaceTreeNodes t (tt_nodes t @ [n]) (tn_updatedAt n) \<and>
        tt_updatedAt t \<le> tn_updatedAt n \<and> tn_state n = Planned"
      if res: "appendTaskNode t pid d p = Some (Inr t', p')" for t' p'
    proof -
      from res Inr r(1) ok obtain n p1 where
        c: "createTaskNode \<lparr>cn_treeId = tt_id t, cn_repositoryId = tt_repositoryId t,
            cn_hostId = tt_hostId t, cn_parentNodeId = Some (tn_id par),
            cn_planRevisionId = tt_activePlanRevisionId t, cn_definition = d\<rparr> p = (Inr n, p1)"
        and v: "validateNewNodeIds t n = Inr ()"
        and late: "\<not> compareTimestamps (tn_createdAt n) (tt_updatedAt t) < 0"
        and t': "t' = replaceTreeNodes t (tt_nodes t @ [n]) (tn_updatedAt n)"
        by (auto simp: appendTaskNode_def res_simps)
      from createTaskNode_Inr [OF c] have n: "wf_node n" "tn_state n = Planned"
        "tn_treeId n = tt_id t" "tn_parentNodeId n = Some (tn_id par)" "tn_inputs n = def_inputs d"
        "tn_createdAt n = tn_updatedAt n" by auto
      from v have ids: "set (ownedNodeIds n) \<inter> set (occupiedIds t) = {}"
        by (auto simp: validateNewNodeIds_def Let_def guardE_Inr_iff list_all_iff occupiedIds_def)
      from late n(6) have upd: "tt_updatedAt t \<le> tn_updatedAt n"
        by (simp add: compareTimestamps_def)
      from r(2) ok n(5) have "\<forall>i\<in>set (tn_inputs n). supplied t par i" by simp
      from append_extends [OF wf par(1) this n(1-4) upd ids t'] t' upd n(2) par(2)
      show ?thesis by blast
    qed
    with Inr ok r(1) show ?thesis by (auto simp: appendTaskNode_def)
  qed
qed

lemma createTaskTree_wf:
  assumes "createTaskTree input p = (Inr t, p')"
  shows "wf_tree t"
proof -
  from assms obtain root treeId revisionId p1 p2 p3 p4 where
    root: "createTaskNode \<lparr>cn_treeId = treeId, cn_repositoryId = repo_id (ct_repository input),
         cn_hostId = repo_hostId (ct_repository input), cn_parentNodeId = None,
         cn_planRevisionId = revisionId, cn_definition = ct_root input\<rparr> p3 = (Inr root, p4)"
    and inputs: "def_inputs (ct_root input) = []"
    and ids: "validateDistinctTreeIds (ct_repository input) treeId revisionId root = Inr ()"
    and t: "tt_id t = treeId" "tt_repositoryId t = repo_id (ct_repository input)"
      "tt_hostId t = repo_hostId (ct_repository input)" "tt_activePlanRevisionId t = revisionId"
      "tt_rootNodeId t = tn_id root" "tt_nodes t = [root]" "tt_updatedAt t = tn_updatedAt root"
    by (auto simp: createTaskTree_def res_simps)
  from createTaskNode_Inr [OF root] inputs have r: "wf_node root" "tn_state root = Planned"
    "tn_treeId root = treeId" "tn_parentNodeId root = None" "tn_inputs root = []" by auto
  from ids have "distinct (occupiedIds t)"
    by (simp only: validateDistinctTreeIds_def guardE_Inr_iff occupiedIds_def t) simp
  then show ?thesis
    using r t by (simp add: wf_tree_def skeleton_def parents_first_single nodes_ok_def
        inputs_owned_def failure_contained_def started_def wf_node_def)
qed

section \<open>Trees as a machine\<close>

text \<open>\<open>Inl None\<close> would be an operation that does not return.\<close>

datatype tree_op =
    Append_op string task_node_definition ports
  | Transition_op string task_node_transition number

fun tree_step :: "task_tree \<Rightarrow> tree_op \<Rightarrow> domain_error_code option + task_tree" where
  "tree_step t (Append_op pid d p) = (case appendTaskNode t pid d p of
     None \<Rightarrow> Inl None | Some (Inl e, _) \<Rightarrow> Inl (Some e) | Some (Inr t', _) \<Rightarrow> Inr t')"
| "tree_step t (Transition_op nid tr ts) = (case transitionNodeInTree t nid tr ts of
     None \<Rightarrow> Inl None | Some (Inl e) \<Rightarrow> Inl (Some e) | Some (Inr t') \<Rightarrow> Inr t')"

definition grows :: "task_tree \<Rightarrow> task_tree \<Rightarrow> bool" where
  "grows t t' \<longleftrightarrow> tt_id t' = tt_id t \<and> tt_updatedAt t \<le> tt_updatedAt t' \<and>
     (\<exists>new. skeleton t' = skeleton t @ new) \<and>
     (\<forall>m\<in>set (tt_nodes t). \<exists>m'\<in>set (tt_nodes t'). same_identity m m' \<and>
        (isTerminalNode m \<longrightarrow> m' = m))"

lemma grows_refl: "grows t t"
  unfolding grows_def by (auto intro: bexI [rotated])

lemma grows_trans:
  assumes "grows t t'" and "grows t' t''"
  shows "grows t t''"
proof -
  have "\<exists>m''\<in>set (tt_nodes t''). same_identity m m'' \<and> (isTerminalNode m \<longrightarrow> m'' = m)"
    if m: "m \<in> set (tt_nodes t)" for m
  proof -
    from assms(1) m obtain m' where m': "m' \<in> set (tt_nodes t')" "same_identity m m'"
      "isTerminalNode m \<longrightarrow> m' = m" unfolding grows_def by blast
    from assms(2) m'(1) obtain m'' where "m'' \<in> set (tt_nodes t'')" "same_identity m' m''"
      "isTerminalNode m' \<longrightarrow> m'' = m'" unfolding grows_def by blast
    with m' same_identity_trans [of m m' m''] show ?thesis by auto
  qed
  with assms show ?thesis by (fastforce simp: grows_def)
qed

lemma tree_step_Inr:
  assumes wf: "wf_tree t" and step: "tree_step t i = Inr t'"
  shows "wf_tree t' \<and> grows t t'"
proof (cases i)
  case (Append_op pid d p)
  with step obtain p' where "appendTaskNode t pid d p = Some (Inr t', p')"
    by (auto split: option.splits prod.splits sum.splits)
  with appendTaskNode_result [OF wf, of pid d p] obtain n where
    "wf_tree t'" "skeleton t' = skeleton t @ [(tn_id n, Some pid)]"
    "t' = replaceTreeNodes t (tt_nodes t @ [n]) (tn_updatedAt n)"
    "tt_updatedAt t \<le> tn_updatedAt n" by auto
  then show ?thesis unfolding grows_def replaceTreeNodes_def
    by (auto intro: bexI [rotated])
next
  case (Transition_op nid tr ts)
  with step have tr: "transitionNodeInTree t nid tr ts = Some (Inr t')"
    by (auto split: option.splits sum.splits)
  from wf have "parents_first (skeleton t)" "nodes_ok t" by (auto simp: wf_tree_def)
  from tr [unfolded transitionNode_Inr [OF this]] have "tt_id t' = tt_id t"
    by (auto simp: replaceTreeNodes_def)
  with transitionNode_wf [OF wf tr] show ?thesis by (fastforce simp: grows_def)
qed

interpretation tree: guarded_machine tree_step wf_tree grows
  by unfold_locales (auto dest: tree_step_Inr intro: grows_refl grows_trans)

section \<open>A concrete tree\<close>

definition sampleRepository :: repository where
  "sampleRepository = \<lparr>repo_id = sampleId 90, repo_hostId = sampleId 91, repo_root = ''/srv'',
     repo_registeredAt = 900\<rparr>"

definition sampleTreeInput :: create_task_tree_input where
  "sampleTreeInput = \<lparr>ct_repository = sampleRepository, ct_baseCommit = replicate 40 CHR ''a'',
     ct_goal = ''ship'', ct_root = sampleDefinition Plan (Artifact_request ''plan'') []\<rparr>"

definition sampleTree :: task_tree where
  "sampleTree = projr (fst (createTaskTree sampleTreeInput (samplePorts 0)))"

text \<open>An implementation node that reads the artifact of the root, with a child of its own.\<close>

definition sampleOps :: "tree_op list" where
  "sampleOps =
     [Append_op (sampleId 2) (sampleDefinition Implementation Implementation_request
        [\<lparr>in_artifactId = sampleId 3, in_sourceNodeId = sampleId 2\<rparr>]) (samplePorts 10),
      Append_op (sampleId 10) (sampleDefinition Research (Artifact_request ''notes'') [])
        (samplePorts 20),
      Transition_op (sampleId 2) Mark_ready (number_of_int 2000),
      Transition_op (sampleId 2) Activate (number_of_int 2001),
      Transition_op (sampleId 20) Mark_ready (number_of_int 2002)]"

definition grownTree :: task_tree where
  "grownTree = projr (run_machine tree_step sampleTree sampleOps)"

definition failedTree :: task_tree where
  "failedTree = projr (the
     (transitionNodeInTree grownTree (sampleId 2) (Fail (sampleId 50)) (number_of_int 2003)))"

lemma sampleTree_created: "fst (createTaskTree sampleTreeInput (samplePorts 0)) = Inr sampleTree"
  unfolding sampleTree_def by (rule Inr_projr) code_simp

lemma sampleTree_grown: "run_machine tree_step sampleTree sampleOps = Inr grownTree"
  unfolding grownTree_def by (rule Inr_projr) code_simp

lemma sampleTree_wf: "wf_tree sampleTree"
  using sampleTree_created by (metis createTaskTree_wf eq_fst_iff)

lemma grownTree_wf: "wf_tree grownTree"
  by (rule tree.run_inv [OF sampleTree_wf sampleTree_grown])

lemma grownTree_fails:
  "transitionNodeInTree grownTree (sampleId 2) (Fail (sampleId 50)) (number_of_int 2003) =
   Some (Inr failedTree)"
proof -
  have "(case transitionNodeInTree grownTree (sampleId 2) (Fail (sampleId 50))
      (number_of_int 2003) of Some (Inr _) \<Rightarrow> True | _ \<Rightarrow> False)"
    by code_simp
  then show ?thesis by (auto simp: failedTree_def split: option.splits sum.splits)
qed

section \<open>Properties\<close>

text \<open>C17: Every tree the code can build, by creating it and by any sequence of appended nodes
  and node transitions, is well formed: parents come before their children, no identity is used
  twice, every node is well formed, artifact inputs name artifacts of ancestors, and no node
  below a failed node is ready or active.\<close>

theorem reachable_tree_wf:
  assumes "fst (createTaskTree input p) = Inr t0" and "run_machine tree_step t0 ops = Inr t"
  shows "parents_first (skeleton t) \<and> distinct (occupiedIds t) \<and>
    (\<forall>n\<in>set (tt_nodes t). wf_node n \<and> tn_treeId n = tt_id t) \<and> inputs_owned t \<and>
    failure_contained t"
proof -
  from assms(1) have "wf_tree t0" by (metis createTaskTree_wf eq_fst_iff)
  from tree.run_inv [OF this assms(2)] show ?thesis
    by (auto simp: wf_tree_def nodes_ok_def)
qed

theorem reachable_tree_wf_witness: "failure_contained grownTree \<and> inputs_owned grownTree"
  using reachable_tree_wf [OF sampleTree_created sampleTree_grown] by blast

text \<open>C18: No operation on a reachable tree hangs: the unbounded parent walks behind ancestor
  listing, failed-ancestor search and descendant tests return on every tree the code can build,
  so appending a node and transitioning a node always return a tree or an error.\<close>

theorem reachable_tree_terminates:
  assumes "fst (createTaskTree input p) = Inr t0" and "run_machine tree_step t0 ops = Inr t"
  shows "appendTaskNode t pid d p' \<noteq> None \<and> transitionNodeInTree t nid tr ts \<noteq> None \<and>
    getAncestorNodes t nid \<noteq> None"
proof -
  from assms(1) have "wf_tree t0" by (metis createTaskTree_wf eq_fst_iff)
  from tree.run_inv [OF this assms(2)] have wf: "wf_tree t" .
  then have "parents_first (skeleton t)" "nodes_ok t" by (auto simp: wf_tree_def)
  from transitionNode_returns [OF this] appendTaskNode_result [OF wf] ancestors_loop_result [OF this(1)]
  show ?thesis
    by (cases "getTaskNode t nid")
       (auto simp: getAncestorNodes_def option.discI dest!: getTaskNode_Inr, fastforce+)
qed

theorem reachable_tree_terminates_witness:
  "getAncestorNodes grownTree (sampleId 20) \<noteq> None"
  using reachable_tree_terminates [OF sampleTree_created sampleTree_grown] by blast

text \<open>When a node of a well-formed tree fails, the node itself is failed with that evidence,
  every active or ready node below it is blocked by it (resuming where it was), and every other
  node is left exactly as it was.\<close>

theorem fail_blocks_started_descendants:
  assumes "wf_tree t" and "transitionNodeInTree t nid (Fail ev) ts = Some (Inr t')"
  shows "\<exists>T f. ts = number_of_int T \<and> tt_nodes t' = map f (tt_nodes t) \<and>
    (\<forall>n\<in>set (tt_nodes t). f n =
       (if tn_id n = nid then n\<lparr>tn_state := Failed ev, tn_updatedAt := T\<rparr>
        else if started n \<and> below t (tn_id n) nid
        then n\<lparr>tn_state := Blocked (Parent_blocker ev nid) (resume_from (tn_state n)),
               tn_updatedAt := T\<rparr>
        else n))"
proof -
  from assms(1) have pf: "parents_first (skeleton t)" and ok: "nodes_ok t"
    by (auto simp: wf_tree_def)
  from assms(2) [unfolded transitionNode_Inr [OF pf ok]] obtain T n n' where
    T: "ts = number_of_int T" and n: "n \<in> set (tt_nodes t)" "tn_id n = nid"
    and tn: "transitionTaskNode n (Fail ev) ts = Inr n'"
    and t': "t' = replaceTreeNodes t (map (evolve t n' T) (tt_nodes t)) T"
    by blast
  from tn T have n': "n' = n\<lparr>tn_state := Failed ev, tn_updatedAt := T\<rparr>"
    by (auto simp: transition_Inr_iff number_of_int_def res_simps parser_iffs uuid_parsers)
  have "evolve t n' T m =
       (if tn_id m = nid then m\<lparr>tn_state := Failed ev, tn_updatedAt := T\<rparr>
        else if started m \<and> below t (tn_id m) nid
        then m\<lparr>tn_state := Blocked (Parent_blocker ev nid) (resume_from (tn_state m)),
               tn_updatedAt := T\<rparr>
        else m)" if "m \<in> set (tt_nodes t)" for m
    using tree_node_unique [OF pf that n(1)] n(2)
    by (auto simp: evolve_def n' block_below_def)
  moreover have "tt_nodes t' = map (evolve t n' T) (tt_nodes t)"
    by (simp add: t' replaceTreeNodes_def)
  ultimately show ?thesis using T by blast
qed

theorem fail_blocks_started_descendants_witness:
  "\<exists>T f. number_of_int 2003 = number_of_int T \<and> tt_nodes failedTree = map f (tt_nodes grownTree)"
  using fail_blocks_started_descendants [OF grownTree_wf grownTree_fails] by blast

text \<open>A run of operations never rewrites history: no node disappears, moves or changes its
  identity, contract or inputs, a terminal node stays exactly as it was, and the update time of
  the tree never goes back.\<close>

theorem tree_history_kept:
  assumes "wf_tree t" and "run_machine tree_step t ops = Inr t'"
  shows "tt_id t' = tt_id t \<and> tt_updatedAt t \<le> tt_updatedAt t' \<and>
    (\<exists>new. skeleton t' = skeleton t @ new) \<and>
    (\<forall>m\<in>set (tt_nodes t). \<exists>m'\<in>set (tt_nodes t').
       same_identity m m' \<and> (isTerminalNode m \<longrightarrow> m' = m))"
  using tree.run_rel [OF assms] unfolding grows_def .

theorem tree_history_kept_witness: "tt_id grownTree = tt_id sampleTree"
  using tree_history_kept [OF sampleTree_wf sampleTree_grown] by blast

text \<open>The checks a transition makes in a tree, exactly: it succeeds if and only if it is not
  older than the tree, the node exists, its own transition succeeds, and a transition that would
  make it runnable finds no failed node above it.\<close>

theorem transition_in_tree_accepts_iff:
  assumes "wf_tree t"
  shows "(\<exists>t'. transitionNodeInTree t nid tr ts = Some (Inr t')) \<longleftrightarrow>
    (\<exists>T n n'. ts = number_of_int T \<and> tt_updatedAt t \<le> T \<and> n \<in> set (tt_nodes t) \<and>
       tn_id n = nid \<and> transitionTaskNode n tr ts = Inr n' \<and>
       (tr \<in> {Mark_ready, Activate, Unblock} \<longrightarrow>
          \<not> (\<exists>a\<in>set (tt_nodes t). below t nid (tn_id a) \<and> is_failed (tn_state a))))"
proof -
  from assms have "parents_first (skeleton t)" "nodes_ok t" by (auto simp: wf_tree_def)
  moreover have "makes_runnable tr \<longleftrightarrow> tr \<in> {Mark_ready, Activate, Unblock}"
    by (cases tr) auto
  ultimately show ?thesis by (simp only: transitionNode_Inr) blast
qed

theorem transition_in_tree_accepts_iff_witness:
  "\<not> (\<exists>t'. transitionNodeInTree grownTree (sampleId 20) Mark_ready JsNaN = Some (Inr t'))"
  using transition_in_tree_accepts_iff [OF grownTree_wf, of "sampleId 20" Mark_ready JsNaN]
  by (simp add: number_of_int_def)

end
