(* ===== verification/Admission.thy ===== *)
theory Admission
  imports Value_Objects
begin

text \<open>
  \<^verbatim>\<open>packages/core/src/admission.ts\<close>: the policy of provider admission (how many requests of one
  credential may be in flight) and the classification of provider responses as
  backpressure. The proxy that enforces it is in \<open>Provider_Admission\<close>.
\<close>

section \<open>Policies\<close>

record audited_override =
  ov_credentialId :: string
  ov_limit :: int
  ov_reason :: string
  ov_configuredBy :: string
  ov_configuredAt :: int

record admission_policy =
  pol_defaultLimit :: int
  pol_overrides :: "audited_override list"

datatype quota_signal = Quota_ok | Rate_limited | Quota_exceeded

definition credentialId :: "string \<Rightarrow> string checked" where
  "credentialId s = (if length (js_trim s) = 0 then Inl Invalid_value else Inr s)"

definition defaultAdmissionPolicy :: admission_policy where
  "defaultAdmissionPolicy = \<lparr>pol_defaultLimit = 1, pol_overrides = []\<rparr>"

fun requirePositiveInteger :: "json \<Rightarrow> int checked" where
  "requirePositiveInteger (JNum v) =
     (if \<not> isSafeInteger v \<or> int_of_number v < 1 then Inl Invalid_value else Inr (int_of_number v))"
| "requirePositiveInteger _ = Inl Invalid_value"

text \<open>The typed constructor: limits are JavaScript numbers until they are checked.\<close>

record override_input =
  oi_credentialId :: string
  oi_limit :: number
  oi_reason :: string
  oi_configuredBy :: string
  oi_configuredAt :: int

fun check_overrides :: "string list \<Rightarrow> override_input list \<Rightarrow> audited_override list checked" where
  "check_overrides seen [] = Inr []"
| "check_overrides seen (e # es) =
     bindE (requirePositiveInteger (JNum (oi_limit e))) (\<lambda>limit.
     bindE (guardE (oi_credentialId e \<notin> set seen) Invalid_value) (\<lambda>_.
     bindE (check_overrides (oi_credentialId e # seen) es) (\<lambda>rest.
       Inr (\<lparr>ov_credentialId = oi_credentialId e, ov_limit = limit, ov_reason = oi_reason e,
             ov_configuredBy = oi_configuredBy e, ov_configuredAt = oi_configuredAt e\<rparr> # rest))))"

definition admissionPolicy :: "number \<Rightarrow> override_input list \<Rightarrow> admission_policy checked" where
  "admissionPolicy defaultLimit overrides =
     bindE (requirePositiveInteger (JNum defaultLimit)) (\<lambda>limit.
     bindE (check_overrides [] overrides) (\<lambda>es.
       Inr \<lparr>pol_defaultLimit = limit, pol_overrides = es\<rparr>))"

definition effectiveLimit :: "admission_policy \<Rightarrow> string \<Rightarrow> int" where
  "effectiveLimit p c = (case find_first (\<lambda>e. ov_credentialId e = c) (pol_overrides p) of
     Some e \<Rightarrow> ov_limit e | None \<Rightarrow> pol_defaultLimit p)"

fun require_text :: "json \<Rightarrow> string checked" where
  "require_text (JStr s) = (if length (js_trim s) = 0 then Inl Invalid_value else Inr s)"
| "require_text _ = Inl Invalid_value"

fun require_epoch :: "json \<Rightarrow> int checked" where
  "require_epoch (JNum v) =
     (if \<not> isSafeInteger v \<or> int_of_number v < 0 then Inl Invalid_value else Inr (int_of_number v))"
| "require_epoch _ = Inl Invalid_value"

definition validateOverride :: "json \<Rightarrow> audited_override checked" where
  "validateOverride v =
     bindE (guardE (is_object v) Invalid_value) (\<lambda>_.
     bindE (require_text (json_field v ''credentialId'')) (\<lambda>rawId.
     bindE (requirePositiveInteger (json_field v ''limit'')) (\<lambda>limit.
     bindE (require_text (json_field v ''reason'')) (\<lambda>reason.
     bindE (require_text (json_field v ''configuredBy'')) (\<lambda>configuredBy.
     bindE (require_epoch (json_field v ''configuredAt'')) (\<lambda>configuredAt.
     bindE (credentialId rawId) (\<lambda>cid.
       Inr \<lparr>ov_credentialId = cid, ov_limit = limit, ov_reason = reason,
            ov_configuredBy = configuredBy, ov_configuredAt = configuredAt\<rparr>)))))))"

definition validateAdmissionPolicy :: "json \<Rightarrow> admission_policy checked" where
  "validateAdmissionPolicy v =
     bindE (guardE (is_object v) Invalid_value) (\<lambda>_.
     bindE (requirePositiveInteger (json_field v ''defaultLimit'')) (\<lambda>limit.
     bindE (case json_field v ''overrides'' of
         JUndefined \<Rightarrow> Inr []
       | JArr entries \<Rightarrow>
           bindE (mapE validateOverride entries) (\<lambda>es.
           bindE (guardE (distinct (map ov_credentialId es)) Invalid_value) (\<lambda>_. Inr es))
       | _ \<Rightarrow> Inl Invalid_value) (\<lambda>es.
       Inr \<lparr>pol_defaultLimit = limit, pol_overrides = es\<rparr>)))"

section \<open>Backpressure\<close>

datatype response_body = Body_text string | Body_absent | Body_json string | Body_unserializable

definition strongQuotaMarkers :: "string list" where
  "strongQuotaMarkers = [''insufficient_quota'', ''quota'', ''billing'', ''credit'',
     ''plan_limit'', ''usage limit'', ''limit_reached'', ''exceeded your current quota'']"

definition rateMarkers :: "string list" where
  "rateMarkers = [''rate_limit'', ''rate limit'', ''ratelimit'', ''too many requests'',
     ''overloaded'', ''slow_down'', ''throttl'']"

fun bodyToText :: "response_body \<Rightarrow> string" where
  "bodyToText (Body_text s) = js_lower s"
| "bodyToText Body_absent = ''''"
| "bodyToText (Body_json s) = js_lower s"
| "bodyToText Body_unserializable = ''[object]''"

definition containsAny :: "string \<Rightarrow> string list \<Rightarrow> bool" where
  "containsAny t markers = list_ex (\<lambda>k. js_includes t k) markers"

definition classifyQuotaSignal :: "number \<Rightarrow> response_body \<Rightarrow> quota_signal" where
  "classifyQuotaSignal status body =
     (if \<not> isSafeInteger status \<or> int_of_number status < 100 \<or> int_of_number status > 599
      then Quota_ok
      else let code = int_of_number status; t = bodyToText body in
        if code = 429 then (if containsAny t strongQuotaMarkers then Quota_exceeded else Rate_limited)
        else if code = 529 then Rate_limited
        else if containsAny t strongQuotaMarkers \<and> (code = 400 \<or> code = 402 \<or> code = 403)
        then Quota_exceeded
        else if containsAny t rateMarkers \<and> (code = 400 \<or> code = 403) then Rate_limited
        else Quota_ok)"

definition readHeader :: "(string \<times> string) list \<Rightarrow> string \<Rightarrow> string option" where
  "readHeader headers name =
     map_option snd (find_first (\<lambda>kv. js_lower (fst kv) = js_lower name) headers)"

fun number_times_1000 :: "number \<Rightarrow> number" where
  "number_times_1000 (JsNum q) = double_of_int (\<lfloor>q\<rfloor> * 1000)"
| "number_times_1000 n = n"

definition parseRetryAfterMs :: "(string \<times> string) list \<Rightarrow> number option" where
  "parseRetryAfterMs headers = (case readHeader headers ''retry-after'' of
     None \<Rightarrow> None
   | Some raw \<Rightarrow>
       let trimmed = js_trim raw in
       if trimmed = [] \<or> \<not> list_all is_digit trimmed then None
       else let seconds = double_of_int (digits_value trimmed) in
         if \<not> is_finite seconds then None else Some (number_times_1000 seconds))"

section \<open>Accepted policies\<close>

definition policy_ok :: "admission_policy \<Rightarrow> bool" where
  "policy_ok p \<longleftrightarrow> 1 \<le> pol_defaultLimit p \<and>
     (\<forall>e\<in>set (pol_overrides p). 1 \<le> ov_limit e) \<and>
     distinct (map ov_credentialId (pol_overrides p))"

lemma requirePositiveInteger_Inr: "requirePositiveInteger v = Inr n \<Longrightarrow> 1 \<le> n"
  by (cases v) (auto split: if_splits)

declare requirePositiveInteger.simps [simp del]

lemma check_overrides_Inr:
  "check_overrides seen es = Inr os \<Longrightarrow> (\<forall>e\<in>set os. 1 \<le> ov_limit e) \<and>
     distinct (map ov_credentialId os) \<and> set (map ov_credentialId os) \<inter> set seen = {}"
proof (induction es arbitrary: seen os)
  case (Cons e es)
  then obtain limit rest where
    "requirePositiveInteger (JNum (oi_limit e)) = Inr limit" "oi_credentialId e \<notin> set seen"
    and rest: "check_overrides (oi_credentialId e # seen) es = Inr rest"
    and os: "os = \<lparr>ov_credentialId = oi_credentialId e, ov_limit = limit, ov_reason = oi_reason e,
             ov_configuredBy = oi_configuredBy e, ov_configuredAt = oi_configuredAt e\<rparr> # rest"
    by (auto simp: res_simps)
  with Cons.IH [OF rest] show ?case by (auto dest: requirePositiveInteger_Inr)
qed simp

lemma admissionPolicy_ok: "admissionPolicy d es = Inr p \<Longrightarrow> policy_ok p"
  by (auto simp: admissionPolicy_def res_simps policy_ok_def
      dest: requirePositiveInteger_Inr check_overrides_Inr)

lemma validateOverride_Inr: "validateOverride v = Inr e \<Longrightarrow> 1 \<le> ov_limit e"
  by (auto simp: validateOverride_def res_simps dest: requirePositiveInteger_Inr)

lemma mapE_all: "mapE f xs = Inr ys \<Longrightarrow> (\<And>x y. f x = Inr y \<Longrightarrow> P y) \<Longrightarrow> \<forall>y\<in>set ys. P y"
  by (induction xs arbitrary: ys) (auto simp: res_simps)

lemma validateAdmissionPolicy_ok: "validateAdmissionPolicy v = Inr p \<Longrightarrow> policy_ok p"
  by (auto simp: validateAdmissionPolicy_def res_simps policy_ok_def
      dest: requirePositiveInteger_Inr mapE_all [OF _ validateOverride_Inr]
      split: json.splits)

lemma default_policy_ok: "policy_ok defaultAdmissionPolicy"
  by (simp add: policy_ok_def defaultAdmissionPolicy_def)

lemma effectiveLimit_pos: "policy_ok p \<Longrightarrow> 1 \<le> effectiveLimit p c"
  by (auto simp: effectiveLimit_def policy_ok_def dest: find_first_Some_iff split: option.splits)

section \<open>Properties\<close>

text \<open>Every policy accepted from untrusted configuration admits at least one request per
  credential: the default limit and every override are positive, no credential is overridden
  twice, and the effective limit of an overridden credential is its override, of any other the
  default.\<close>

theorem accepted_policy_limits:
  assumes "validateAdmissionPolicy v = Inr p"
  shows "1 \<le> effectiveLimit p c \<and>
    (\<forall>e\<in>set (pol_overrides p). effectiveLimit p (ov_credentialId e) = ov_limit e) \<and>
    (c \<notin> ov_credentialId ` set (pol_overrides p) \<longrightarrow> effectiveLimit p c = pol_defaultLimit p)"
proof -
  from validateAdmissionPolicy_ok [OF assms] have ok: "policy_ok p" .
  then have "\<forall>e\<in>set (pol_overrides p). effectiveLimit p (ov_credentialId e) = ov_limit e"
    by (simp add: effectiveLimit_def policy_ok_def find_first_key)
  moreover have "c \<notin> ov_credentialId ` set (pol_overrides p) \<Longrightarrow>
      find_first (\<lambda>e. ov_credentialId e = c) (pol_overrides p) = None"
    by (auto simp: find_first_None_iff)
  ultimately show ?thesis using effectiveLimit_pos [OF ok] by (simp add: effectiveLimit_def)
qed

definition sampleConfig :: json where
  "sampleConfig = JObj [(''defaultLimit'', JNum (number_of_int 1)), (''overrides'', JArr [JObj
     [(''credentialId'', JStr ''k''), (''limit'', JNum (number_of_int 3)), (''reason'', JStr ''load''),
      (''configuredBy'', JStr ''ops''), (''configuredAt'', JNum (number_of_int 7))]])]"

theorem accepted_policy_limits_witness:
  "1 \<le> effectiveLimit (projr (validateAdmissionPolicy sampleConfig)) ''k''"
proof -
  have "is_ok (validateAdmissionPolicy sampleConfig)" by code_simp
  from accepted_policy_limits [OF Inr_projr [OF this]] show ?thesis by blast
qed

text \<open>Exactly which responses count as backpressure: status 429 and 529 always, 400 and 403
  with a quota or rate marker in the body, 402 with a quota marker; and the signal is a quota
  signal exactly for a quota marker on 429, 400, 402 or 403. In particular a bare 403 never pauses
  a credential.\<close>

theorem backpressure_classification:
  "(classifyQuotaSignal (number_of_int code) body \<noteq> Quota_ok \<longleftrightarrow>
      code = 429 \<or> code = 529 \<or>
      containsAny (bodyToText body) strongQuotaMarkers \<and> code \<in> {400, 402, 403} \<or>
      containsAny (bodyToText body) rateMarkers \<and> code \<in> {400, 403}) \<and>
   (classifyQuotaSignal (number_of_int code) body = Quota_exceeded \<longleftrightarrow>
      containsAny (bodyToText body) strongQuotaMarkers \<and> code \<in> {429, 400, 402, 403})"
  by (auto simp: classifyQuotaSignal_def Let_def safe_int_def max_safe_integer_def)

end
