(* ===== verification/Provider_Admission.thy ===== *)
theory Provider_Admission
  imports Admission "HOL-Library.Multiset"
begin

text \<open>
  \<^verbatim>\<open>packages/adapters/src/provider-admission.ts\<close>: the proxy that admits provider requests per
  credential. Its state is one record: the slots (a \<open>Map\<close>, in insertion order), the permits,
  the event history, and the parts of the runtime it uses (the clock, the abort signals that
  have fired with their listeners, and the promises it has settled). A slot is referred to by
  its credential, a queued entry by the number of its promise. The pause timer of a slot is
  the delay it was armed with; its expiry is an operation of the environment. Event streams
  for subscribers are not modelled, the history they replay is. Token counts are integers.
\<close>

section \<open>State\<close>

datatype admission_error =
    Invalid_request | Credential_unknown | Permit_leaked | Shut_down | Queue_full | Cancelled_request

record admission_usage =
  us_inputTokens :: int
  us_outputTokens :: int
  us_requests :: int
  us_rateLimitedCount :: int

record admission_request =
  rq_credentialId :: string
  rq_attemptId :: string
  rq_nodeId :: "string option"
  rq_signal :: "nat option"

record admission_permit =
  pm_credentialId :: string
  pm_attemptId :: string
  pm_sequence :: nat
  pm_acquiredAtMs :: int
  pm_nodeId :: "string option"

record admission_result =
  rs_statusCode :: number
  rs_headers :: "(string \<times> string) list"
  rs_body :: response_body
  rs_retryAfterMs :: "number option"
  rs_inputTokens :: "int option"
  rs_outputTokens :: "int option"

datatype cancel_phase = Phase_queued | Phase_in_flight
datatype resume_reason = Retry_after_elapsed | Explicit_resume
datatype released_by = By_release | By_cancel

datatype admission_event_kind =
    Credential_paused quota_signal "number option"
  | Credential_resumed resume_reason
  | Request_admitted
  | Request_queued
  | Request_completed quota_signal int int
  | Request_cancelled cancel_phase
  | Quota_signal_event quota_signal "number option"

record admission_event =
  ev_kind :: admission_event_kind
  ev_sequence :: nat
  ev_credentialId :: string
  ev_attemptId :: string
  ev_nodeId :: "string option"
  ev_emittedAtMs :: int

record queued_entry =
  qe_id :: nat
  qe_attemptId :: string
  qe_nodeId :: "string option"
  qe_enqueuedAtMs :: int
  qe_signal :: "nat option"

record credential_slot =
  sl_credentialId :: string
  sl_limit :: int
  sl_inFlight :: int
  sl_queued :: "queued_entry list"
  sl_paused :: bool
  sl_pauseReason :: "quota_signal option"
  sl_pauseRetryAfterMs :: "number option"
  sl_pauseTimer :: "number option"
  sl_usage :: admission_usage

record permit_record =
  pr_sequence :: nat
  pr_slot :: string
  pr_attemptId :: string
  pr_nodeId :: "string option"
  pr_signal :: "nat option"
  pr_released :: bool
  pr_releasedBy :: "released_by option"

datatype abort_listener =
    Cancel_permit admission_permit | Cancel_queued string queued_entry

record acquire_result =
  ar_permit :: admission_permit
  ar_queued :: bool
  ar_queuedForMs :: int

record proxy =
  px_policy :: admission_policy
  px_maxQueuePerCredential :: int
  px_maxEventHistory :: int
  px_defaultPauseBackoffMs :: number
  px_slots :: "credential_slot list"
  px_permits :: "permit_record list"
  px_eventHistory :: "admission_event list"
  px_sequence :: nat
  px_outstanding :: int
  px_shutdownRequested :: bool
  px_clock :: "nat \<Rightarrow> int"
  px_clockReads :: nat
  px_aborted :: "nat list"
  px_listeners :: "(nat \<times> abort_listener) list"
  px_promises :: nat
  px_settled :: "(nat \<times> (admission_error + acquire_result)) list"

definition permitPruneThreshold :: int where
  "permitPruneThreshold = 1024"

definition DEFAULT_PAUSE_BACKOFF_MS :: number where
  "DEFAULT_PAUSE_BACKOFF_MS = number_of_int 60000"

definition MAX_SET_TIMEOUT_DELAY_MS :: number where
  "MAX_SET_TIMEOUT_DELAY_MS = number_of_int 2147483647"

definition proxy_new ::
    "admission_policy \<Rightarrow> (nat \<Rightarrow> int) \<Rightarrow> int option \<Rightarrow> int option \<Rightarrow> number option \<Rightarrow> proxy" where
  "proxy_new policy clock maxQueue maxHistory backoff =
     \<lparr>px_policy = policy,
      px_maxQueuePerCredential = (case maxQueue of None \<Rightarrow> 64 | Some n \<Rightarrow> n),
      px_maxEventHistory = (case maxHistory of None \<Rightarrow> 1024 | Some n \<Rightarrow> n),
      px_defaultPauseBackoffMs =
        (case backoff of None \<Rightarrow> DEFAULT_PAUSE_BACKOFF_MS | Some b \<Rightarrow> b),
      px_slots = [], px_permits = [], px_eventHistory = [], px_sequence = 0, px_outstanding = 0,
      px_shutdownRequested = False, px_clock = clock, px_clockReads = 0, px_aborted = [],
      px_listeners = [], px_promises = 0, px_settled = []\<rparr>"

section \<open>Small steps\<close>

definition msNow :: "proxy \<Rightarrow> int \<times> proxy" where
  "msNow s = (px_clock s (px_clockReads s), s\<lparr>px_clockReads := Suc (px_clockReads s)\<rparr>)"

definition nextSequence :: "proxy \<Rightarrow> nat \<times> proxy" where
  "nextSequence s = (Suc (px_sequence s), s\<lparr>px_sequence := Suc (px_sequence s)\<rparr>)"

definition dispatch :: "admission_event_kind \<Rightarrow> string \<Rightarrow> string \<Rightarrow> string option \<Rightarrow> proxy \<Rightarrow> proxy" where
  "dispatch kind cid aid node s =
     (let (n, s1) = nextSequence s; (t, s2) = msNow s1;
          history = px_eventHistory s2 @ [\<lparr>ev_kind = kind, ev_sequence = n, ev_credentialId = cid,
            ev_attemptId = aid, ev_nodeId = node, ev_emittedAtMs = t\<rparr>]
      in s2\<lparr>px_eventHistory :=
           (if int (length history) > px_maxEventHistory s2
            then drop (nat (int (length history) - px_maxEventHistory s2)) history
            else history)\<rparr>)"

text \<open>The emit helpers read the clock once for a field that \<open>dispatch\<close> overwrites.\<close>

definition emit :: "admission_event_kind \<Rightarrow> string \<Rightarrow> string \<Rightarrow> string option \<Rightarrow> proxy \<Rightarrow> proxy" where
  "emit kind cid aid node s = dispatch kind cid aid node (snd (msNow s))"

definition slot_of :: "proxy \<Rightarrow> string \<Rightarrow> credential_slot option" where
  "slot_of s c = find_first (\<lambda>sl. sl_credentialId sl = c) (px_slots s)"

definition modify_slot :: "string \<Rightarrow> (credential_slot \<Rightarrow> credential_slot) \<Rightarrow> proxy \<Rightarrow> proxy" where
  "modify_slot c f s = s\<lparr>px_slots :=
     map (\<lambda>sl. if sl_credentialId sl = c then f sl else sl) (px_slots s)\<rparr>"

definition is_aborted :: "proxy \<Rightarrow> nat option \<Rightarrow> bool" where
  "is_aborted s sig = (case sig of None \<Rightarrow> False | Some i \<Rightarrow> i \<in> set (px_aborted s))"

definition listen :: "nat option \<Rightarrow> abort_listener \<Rightarrow> proxy \<Rightarrow> proxy" where
  "listen sig l s = (case sig of None \<Rightarrow> s
     | Some i \<Rightarrow> s\<lparr>px_listeners := px_listeners s @ [(i, l)]\<rparr>)"

text \<open>Removing a listener: it is identified by what it would cancel.\<close>

fun listens_permit :: "nat \<Rightarrow> abort_listener \<Rightarrow> bool" where
  "listens_permit n (Cancel_permit p) = (pm_sequence p = n)"
| "listens_permit n (Cancel_queued c e) = False"

fun listens_entry :: "nat \<Rightarrow> abort_listener \<Rightarrow> bool" where
  "listens_entry n (Cancel_permit p) = False"
| "listens_entry n (Cancel_queued c e) = (qe_id e = n)"

definition unlisten :: "(abort_listener \<Rightarrow> bool) \<Rightarrow> proxy \<Rightarrow> proxy" where
  "unlisten p s = s\<lparr>px_listeners := filter (\<lambda>l. \<not> p (snd l)) (px_listeners s)\<rparr>"

definition detachQueuedListener :: "queued_entry \<Rightarrow> proxy \<Rightarrow> proxy" where
  "detachQueuedListener e s = unlisten (listens_entry (qe_id e)) s"

definition settle :: "nat \<Rightarrow> admission_error + acquire_result \<Rightarrow> proxy \<Rightarrow> proxy" where
  "settle n r s = s\<lparr>px_settled := px_settled s @ [(n, r)]\<rparr>"

definition zeroUsage :: admission_usage where
  "zeroUsage = \<lparr>us_inputTokens = 0, us_outputTokens = 0, us_requests = 0, us_rateLimitedCount = 0\<rparr>"

definition addUsage :: "admission_usage \<Rightarrow> quota_signal \<Rightarrow> int \<Rightarrow> int \<Rightarrow> admission_usage" where
  "addUsage u sig i out =
     \<lparr>us_inputTokens = us_inputTokens u + i, us_outputTokens = us_outputTokens u + out,
      us_requests = us_requests u + 1,
      us_rateLimitedCount = us_rateLimitedCount u + (if sig \<noteq> Quota_ok then 1 else 0)\<rparr>"

definition ensureSlot :: "string \<Rightarrow> proxy \<Rightarrow> proxy" where
  "ensureSlot c s = (case slot_of s c of
     Some _ \<Rightarrow> s
   | None \<Rightarrow> s\<lparr>px_slots := px_slots s @ [\<lparr>sl_credentialId = c,
       sl_limit = effectiveLimit (px_policy s) c, sl_inFlight = 0, sl_queued = [],
       sl_paused = False, sl_pauseReason = None, sl_pauseRetryAfterMs = None,
       sl_pauseTimer = None, sl_usage = zeroUsage\<rparr>]\<rparr>)"

section \<open>Admission\<close>

definition admit :: "string \<Rightarrow> string \<Rightarrow> string option \<Rightarrow> nat option \<Rightarrow> proxy \<Rightarrow> admission_permit \<times> proxy"
where
  "admit c aid node sig s =
     (let s1 = modify_slot c (\<lambda>sl. sl\<lparr>sl_inFlight := sl_inFlight sl + 1\<rparr>) s;
          s2 = s1\<lparr>px_outstanding := px_outstanding s1 + 1\<rparr>;
          (n, s3) = nextSequence s2;
          (t, s4) = msNow s3;
          permit = \<lparr>pm_credentialId = c, pm_attemptId = aid, pm_sequence = n,
                    pm_acquiredAtMs = t, pm_nodeId = node\<rparr>;
          s5 = s4\<lparr>px_permits := px_permits s4 @ [\<lparr>pr_sequence = n, pr_slot = c,
                 pr_attemptId = aid, pr_nodeId = node, pr_signal = sig, pr_released = False,
                 pr_releasedBy = None\<rparr>]\<rparr>;
          s6 = listen sig (Cancel_permit permit) s5
      in (permit, emit Request_admitted c aid node s6))"

text \<open>The \<open>while\<close> loop of \<open>pump\<close>: the list is the queue of the slot as the loop shrinks it.\<close>

fun pump_loop :: "queued_entry list \<Rightarrow> string \<Rightarrow> proxy \<Rightarrow> proxy" where
  "pump_loop [] c s = s"
| "pump_loop (e # es) c s = (case slot_of s c of None \<Rightarrow> s | Some sl \<Rightarrow>
     if \<not> sl_paused sl \<and> sl_inFlight sl < sl_limit sl then
       (let s1 = detachQueuedListener e (modify_slot c (\<lambda>sl. sl\<lparr>sl_queued := es\<rparr>) s) in
        if is_aborted s1 (qe_signal e) then
          pump_loop es c (settle (qe_id e) (Inl Cancelled_request)
            (emit (Request_cancelled Phase_queued) c (qe_attemptId e) (qe_nodeId e) s1))
        else
          (let (permit, s2) = admit c (qe_attemptId e) (qe_nodeId e) (qe_signal e) s1;
               (t, s3) = msNow s2
           in pump_loop es c (settle (qe_id e) (Inr \<lparr>ar_permit = permit, ar_queued = True,
                ar_queuedForMs = t - qe_enqueuedAtMs e\<rparr>) s3)))
     else s)"

definition pump :: "string \<Rightarrow> proxy \<Rightarrow> proxy" where
  "pump c s = (if px_shutdownRequested s then s
     else case slot_of s c of None \<Rightarrow> s | Some sl \<Rightarrow> pump_loop (sl_queued sl) c s)"

definition enqueue :: "admission_request \<Rightarrow> proxy \<Rightarrow> nat \<times> proxy" where
  "enqueue rq s =
     (let (t, s1) = msNow s;
          e = \<lparr>qe_id = px_promises s1, qe_attemptId = rq_attemptId rq, qe_nodeId = rq_nodeId rq,
               qe_enqueuedAtMs = t, qe_signal = rq_signal rq\<rparr>;
          s2 = modify_slot (rq_credentialId rq) (\<lambda>sl. sl\<lparr>sl_queued := sl_queued sl @ [e]\<rparr>)
                 (s1\<lparr>px_promises := Suc (px_promises s1)\<rparr>);
          s3 = emit Request_queued (rq_credentialId rq) (rq_attemptId rq) (rq_nodeId rq) s2
      in (qe_id e, listen (rq_signal rq) (Cancel_queued (rq_credentialId rq) e) s3))"

definition cancelQueued :: "string \<Rightarrow> queued_entry \<Rightarrow> proxy \<Rightarrow> proxy" where
  "cancelQueued c e s = (case slot_of s c of None \<Rightarrow> s | Some sl \<Rightarrow>
     if list_all (\<lambda>x. qe_id x \<noteq> qe_id e) (sl_queued sl) then s
     else settle (qe_id e) (Inl Cancelled_request)
       (emit (Request_cancelled Phase_queued) c (qe_attemptId e) (qe_nodeId e)
         (detachQueuedListener e
           (modify_slot c (\<lambda>sl. sl\<lparr>sl_queued := filter (\<lambda>x. qe_id x \<noteq> qe_id e) (sl_queued sl)\<rparr>) s))))"

section \<open>Pausing\<close>

definition usable_retry_after :: "number option \<Rightarrow> number option" where
  "usable_retry_after r = (case r of None \<Rightarrow> None
     | Some v \<Rightarrow> if is_finite v \<and> number_less (number_of_int 0) v then Some v else None)"

definition pauseSlot ::
    "string \<Rightarrow> quota_signal \<Rightarrow> number option \<Rightarrow> string \<Rightarrow> string option \<Rightarrow> proxy \<Rightarrow> proxy" where
  "pauseSlot c reason retryAfterMs aid node s =
     (let validated = usable_retry_after retryAfterMs;
          delay = number_min (case validated of Some v \<Rightarrow> v | None \<Rightarrow> px_defaultPauseBackoffMs s)
                    MAX_SET_TIMEOUT_DELAY_MS;
          s1 = modify_slot c (\<lambda>sl. sl\<lparr>sl_paused := True, sl_pauseReason := Some reason,
                 sl_pauseRetryAfterMs := validated,
                 sl_pauseTimer := (if px_shutdownRequested s then None else Some delay)\<rparr>) s
      in emit (Credential_paused reason retryAfterMs) c aid node s1)"

definition resumeSlot :: "string \<Rightarrow> resume_reason \<Rightarrow> proxy \<Rightarrow> proxy" where
  "resumeSlot c reason s = pump c
     (emit (Credential_resumed reason) c '''' None
       (modify_slot c (\<lambda>sl. sl\<lparr>sl_paused := False, sl_pauseReason := None,
          sl_pauseRetryAfterMs := None, sl_pauseTimer := None\<rparr>) s))"

section \<open>Release\<close>

text \<open>The \<open>for\<close> loop: \<open>n\<close> is the current size of the map.\<close>

fun prune_loop :: "int \<Rightarrow> permit_record list \<Rightarrow> permit_record list" where
  "prune_loop n [] = []"
| "prune_loop n (r # rs) =
     (if n \<le> permitPruneThreshold then r # rs
      else if pr_released r then prune_loop (n - 1) rs
      else r # prune_loop n rs)"

definition pruneReleasedPermits :: "proxy \<Rightarrow> proxy" where
  "pruneReleasedPermits s = s\<lparr>px_permits := prune_loop (int (length (px_permits s))) (px_permits s)\<rparr>"

definition retry_after_of :: "admission_result \<Rightarrow> number option" where
  "retry_after_of r = (case rs_retryAfterMs r of Some v \<Rightarrow> Some v
     | None \<Rightarrow> parseRetryAfterMs (rs_headers r))"

definition signal_of :: "admission_result option \<Rightarrow> quota_signal" where
  "signal_of r = (case r of None \<Rightarrow> Quota_ok
     | Some x \<Rightarrow> classifyQuotaSignal (rs_statusCode x) (rs_body x))"

text \<open>The backpressure part of \<open>finish\<close>, which both of its branches share.\<close>

definition apply_backpressure ::
    "string \<Rightarrow> admission_permit \<Rightarrow> admission_result option \<Rightarrow> proxy \<Rightarrow> proxy" where
  "apply_backpressure c p result s =
     (if signal_of result = Quota_ok then s
      else let retry = (case result of None \<Rightarrow> None | Some r \<Rightarrow> retry_after_of r) in
        pauseSlot c (signal_of result) retry (pm_attemptId p) (pm_nodeId p)
          (emit (Quota_signal_event (signal_of result) retry) c (pm_attemptId p) (pm_nodeId p) s))"

definition tokens_in :: "admission_result option \<Rightarrow> int" where
  "tokens_in r = (case r of None \<Rightarrow> 0
     | Some x \<Rightarrow> (case rs_inputTokens x of None \<Rightarrow> 0 | Some n \<Rightarrow> n))"

definition tokens_out :: "admission_result option \<Rightarrow> int" where
  "tokens_out r = (case r of None \<Rightarrow> 0
     | Some x \<Rightarrow> (case rs_outputTokens x of None \<Rightarrow> 0 | Some n \<Rightarrow> n))"

text \<open>Giving a permit back, once: its record is marked and the slot has one request less.\<close>

definition surrender :: "admission_permit \<Rightarrow> released_by \<Rightarrow> string \<Rightarrow> proxy \<Rightarrow> proxy" where
  "surrender p by c s =
     (let s1 = s\<lparr>px_permits := map (\<lambda>x. if pr_sequence x = pm_sequence p
            then x\<lparr>pr_released := True, pr_releasedBy := Some by\<rparr> else x) (px_permits s)\<rparr>;
          s2 = unlisten (listens_permit (pm_sequence p)) s1;
          s3 = s2\<lparr>px_outstanding := max 0 (px_outstanding s2 - 1)\<rparr>
      in modify_slot c (\<lambda>sl. sl\<lparr>sl_inFlight := max 0 (sl_inFlight sl - 1)\<rparr>) s3)"

definition finish ::
    "admission_permit \<Rightarrow> released_by \<Rightarrow> admission_result option \<Rightarrow> proxy \<Rightarrow> admission_error + proxy"
where
  "finish p by result s =
     (case find_first (\<lambda>r. pr_sequence r = pm_sequence p) (px_permits s) of
       None \<Rightarrow> Inl Permit_leaked
     | Some r \<Rightarrow>
         if pr_released r then
           (if by = By_release \<and> pr_releasedBy r = Some By_cancel
            then Inr (apply_backpressure (pr_slot r) p result s)
            else Inl Permit_leaked)
         else
           (let c = pr_slot r;
                s4 = surrender p by c s;
                s5 = (case by of
                  By_release \<Rightarrow> apply_backpressure c p result
                    (emit (Request_completed (signal_of result) (tokens_in result) (tokens_out result))
                       c (pm_attemptId p) (pm_nodeId p)
                      (modify_slot c (\<lambda>sl. sl\<lparr>sl_usage := addUsage (sl_usage sl) (signal_of result)
                          (tokens_in result) (tokens_out result)\<rparr>) s4))
                | By_cancel \<Rightarrow>
                    emit (Request_cancelled Phase_in_flight) c (pm_attemptId p) (pm_nodeId p) s4)
            in Inr (pruneReleasedPermits (pump c s5))))"

section \<open>The interface\<close>

definition validateRequest :: "admission_request \<Rightarrow> admission_error + unit" where
  "validateRequest rq = guardE (length (rq_attemptId rq) \<noteq> 0) Invalid_request"

definition assertNotShutdown :: "proxy \<Rightarrow> admission_error + unit" where
  "assertNotShutdown s = guardE (\<not> px_shutdownRequested s) Shut_down"

text \<open>What a call of \<open>acquire\<close> hands back: a settled promise, or the number of a pending one.\<close>

datatype acquired = Admitted acquire_result | Rejected admission_error | Pending nat

definition acquire :: "admission_request \<Rightarrow> proxy \<Rightarrow> admission_error + (acquired \<times> proxy)" where
  "acquire rq s =
     bindE (assertNotShutdown s) (\<lambda>_.
     bindE (validateRequest rq) (\<lambda>_.
     let c = rq_credentialId rq; s1 = ensureSlot c s in
     case slot_of s1 c of None \<Rightarrow> Inl Credential_unknown | Some sl \<Rightarrow>
       if is_aborted s1 (rq_signal rq) then Inr (Rejected Cancelled_request, s1)
       else if \<not> sl_paused sl \<and> sl_inFlight sl < sl_limit sl \<and> length (sl_queued sl) = 0
       then (let (permit, s2) = admit c (rq_attemptId rq) (rq_nodeId rq) (rq_signal rq) s1
             in Inr (Admitted \<lparr>ar_permit = permit, ar_queued = False, ar_queuedForMs = 0\<rparr>, s2))
       else if px_maxQueuePerCredential s1 \<le> int (length (sl_queued sl))
       then Inr (Rejected Queue_full, s1)
       else (let (n, s2) = enqueue rq s1 in Inr (Pending n, s2))))"

definition release :: "admission_permit \<Rightarrow> admission_result option \<Rightarrow> proxy \<Rightarrow> admission_error + proxy"
where
  "release p result s = finish p By_release result s"

definition pauseCredential ::
    "string \<Rightarrow> number option \<Rightarrow> quota_signal \<Rightarrow> proxy \<Rightarrow> admission_error + proxy" where
  "pauseCredential c retryAfterMs reason s =
     bindE (assertNotShutdown s) (\<lambda>_.
       Inr (pauseSlot c reason retryAfterMs '''' None (ensureSlot c s)))"

definition resumeCredential :: "string \<Rightarrow> proxy \<Rightarrow> admission_error + proxy" where
  "resumeCredential c s =
     bindE (assertNotShutdown s) (\<lambda>_. Inr (case slot_of s c of
       None \<Rightarrow> s
     | Some sl \<Rightarrow> if \<not> sl_paused sl then s else resumeSlot c Explicit_resume s))"

definition usage :: "string \<Rightarrow> proxy \<Rightarrow> admission_error + admission_usage" where
  "usage c s = (case slot_of s c of None \<Rightarrow> Inl Credential_unknown | Some sl \<Rightarrow> Inr (sl_usage sl))"

definition pausedCredentials :: "proxy \<Rightarrow> string list" where
  "pausedCredentials s = map sl_credentialId (filter sl_paused (px_slots s))"

fun reject_all :: "queued_entry list \<Rightarrow> proxy \<Rightarrow> proxy" where
  "reject_all [] s = s"
| "reject_all (e # es) s =
     reject_all es (settle (qe_id e) (Inl Shut_down) (detachQueuedListener e s))"

fun shutdown_slots :: "credential_slot list \<Rightarrow> proxy \<Rightarrow> proxy" where
  "shutdown_slots [] s = s"
| "shutdown_slots (sl # sls) s =
     shutdown_slots sls (reject_all (sl_queued sl)
       (modify_slot (sl_credentialId sl) (\<lambda>x. x\<lparr>sl_pauseTimer := None, sl_queued := []\<rparr>) s))"

definition shutdown :: "proxy \<Rightarrow> proxy" where
  "shutdown s = (if px_shutdownRequested s then s
     else shutdown_slots (px_slots s) (s\<lparr>px_shutdownRequested := True\<rparr>))"

section \<open>The environment\<close>

text \<open>The pause timer of a slot expires.\<close>

definition timer_fires :: "string \<Rightarrow> proxy \<Rightarrow> proxy" where
  "timer_fires c s = (case slot_of s c of None \<Rightarrow> s
     | Some sl \<Rightarrow> (case sl_pauseTimer sl of None \<Rightarrow> s
        | Some _ \<Rightarrow> resumeSlot c Retry_after_elapsed s))"

fun fire_listener :: "abort_listener \<Rightarrow> proxy \<Rightarrow> admission_error + proxy" where
  "fire_listener (Cancel_permit p) s = finish p By_cancel None s"
| "fire_listener (Cancel_queued c e) s = Inr (cancelQueued c e s)"

text \<open>
  An abort signal fires at most once: the listeners registered on it run in order, each removed
  before it runs, one removed by an earlier listener not at all.
\<close>

fun fire_listeners :: "(nat \<times> abort_listener) list \<Rightarrow> proxy \<Rightarrow> admission_error + proxy" where
  "fire_listeners [] s = Inr s"
| "fire_listeners (l # ls) s =
     (if l \<notin> set (px_listeners s) then fire_listeners ls s
      else bindE (fire_listener (snd l) (s\<lparr>px_listeners := remove1 l (px_listeners s)\<rparr>))
             (fire_listeners ls))"

definition abort_signal :: "nat \<Rightarrow> proxy \<Rightarrow> admission_error + proxy" where
  "abort_signal i s = (if i \<in> set (px_aborted s) then Inr s
     else fire_listeners (filter (\<lambda>l. fst l = i) (px_listeners s))
            (s\<lparr>px_aborted := i # px_aborted s\<rparr>))"


section \<open>The invariant\<close>

definition unreleased :: "proxy \<Rightarrow> permit_record list" where
  "unreleased s = filter (\<lambda>r. \<not> pr_released r) (px_permits s)"

text \<open>How many permits of a credential are held.\<close>

definition held :: "proxy \<Rightarrow> string \<Rightarrow> int" where
  "held s c = int (length (filter (\<lambda>r. pr_slot r = c) (unreleased s)))"

definition timer_ok :: "number \<Rightarrow> bool" where
  "timer_ok d \<longleftrightarrow> (\<exists>q. d = JsNum q \<and> q \<le> 2147483647)"

definition slot_core :: "proxy \<Rightarrow> credential_slot \<Rightarrow> bool" where
  "slot_core s sl \<longleftrightarrow> 1 \<le> sl_limit sl \<and> sl_inFlight sl = held s (sl_credentialId sl) \<and>
     sl_inFlight sl \<le> sl_limit sl \<and>
     int (length (sl_queued sl)) \<le> max 0 (px_maxQueuePerCredential s) \<and>
     (if px_shutdownRequested s then sl_pauseTimer sl = None \<and> sl_queued sl = []
      else sl_paused sl \<longrightarrow> (\<exists>d. sl_pauseTimer sl = Some d \<and> timer_ok d))"

text \<open>Nobody waits while the credential has room.\<close>

definition no_idle_wait :: "credential_slot \<Rightarrow> bool" where
  "no_idle_wait sl \<longleftrightarrow> sl_queued sl = [] \<or> sl_paused sl \<or> sl_inFlight sl = sl_limit sl"

definition proxy_core :: "proxy \<Rightarrow> bool" where
  "proxy_core s \<longleftrightarrow> policy_ok (px_policy s) \<and> (\<exists>b. px_defaultPauseBackoffMs s = JsNum b) \<and>
     distinct (map sl_credentialId (px_slots s)) \<and> distinct (map pr_sequence (px_permits s)) \<and>
     (\<forall>r\<in>set (px_permits s). pr_sequence r \<le> px_sequence s \<and>
        pr_slot r \<in> sl_credentialId ` set (px_slots s)) \<and>
     px_outstanding s = int (length (unreleased s)) \<and>
     (\<forall>i p. (i, Cancel_permit p) \<in> set (px_listeners s) \<longrightarrow>
        pm_sequence p \<in> pr_sequence ` set (unreleased s)) \<and>
     (\<forall>sl\<in>set (px_slots s). slot_core s sl)"

definition proxy_ok :: "proxy \<Rightarrow> bool" where
  "proxy_ok s \<longleftrightarrow> proxy_core s \<and> (\<forall>sl\<in>set (px_slots s). no_idle_wait sl)"

lemma proxy_new_ok:
  assumes "policy_ok policy" and "backoff = None \<or> (\<exists>b. backoff = Some (JsNum b))"
  shows "proxy_ok (proxy_new policy clock q h backoff)"
  using assms
  by (auto simp: proxy_ok_def proxy_core_def proxy_new_def unreleased_def
      DEFAULT_PAUSE_BACKOFF_MS_def number_of_int_def)

text \<open>What the invariant looks at; an emitted event changes nothing of it but the sequence.\<close>

definition same_core :: "proxy \<Rightarrow> proxy \<Rightarrow> bool" where
  "same_core s s' \<longleftrightarrow> px_policy s' = px_policy s \<and>
     px_maxQueuePerCredential s' = px_maxQueuePerCredential s \<and>
     px_defaultPauseBackoffMs s' = px_defaultPauseBackoffMs s \<and> px_slots s' = px_slots s \<and>
     px_permits s' = px_permits s \<and> px_sequence s \<le> px_sequence s' \<and>
     px_outstanding s' = px_outstanding s \<and>
     px_shutdownRequested s' = px_shutdownRequested s \<and>
     set (px_listeners s') \<subseteq> set (px_listeners s) \<and> px_aborted s' = px_aborted s"

lemma same_core_refl [simp]: "same_core s s"
  by (simp add: same_core_def)

lemma same_core_trans: "same_core s s' \<Longrightarrow> same_core s' s'' \<Longrightarrow> same_core s s''"
  by (auto simp: same_core_def)

lemma same_core_unreleased: "same_core s s' \<Longrightarrow> unreleased s' = unreleased s"
  by (simp add: same_core_def unreleased_def)

lemma same_core_held: "same_core s s' \<Longrightarrow> held s' = held s"
  by (simp add: fun_eq_iff held_def same_core_unreleased)

lemma same_core_slot: "same_core s s' \<Longrightarrow> slot_core s' = slot_core s"
  by (auto simp: fun_eq_iff slot_core_def same_core_held) (auto simp: same_core_def)

lemma same_core_proxy:
  assumes "same_core s s'" and "proxy_core s"
  shows "proxy_core s'"
  using assms(2) same_core_slot [OF assms(1)] same_core_unreleased [OF assms(1)] assms(1)
  unfolding proxy_core_def same_core_def by (auto; fastforce)

lemma same_core_ok: "same_core s s' \<Longrightarrow> proxy_ok s \<Longrightarrow> proxy_ok s'"
  unfolding proxy_ok_def using same_core_proxy by (auto simp: same_core_def)

lemma same_core_slot_of: "same_core s s' \<Longrightarrow> slot_of s' = slot_of s"
  by (simp add: fun_eq_iff slot_of_def same_core_def)

lemma msNow_core: "msNow s = (t, s') \<Longrightarrow> same_core s s'"
  by (auto simp: msNow_def same_core_def)

lemma emit_core: "same_core s (emit k c a n s)"
  by (auto simp: emit_def dispatch_def msNow_def nextSequence_def same_core_def Let_def)

lemma settle_core: "same_core s (settle n r s)"
  by (simp add: settle_def same_core_def)

lemma unlisten_core: "same_core s (unlisten p s)"
  by (auto simp: unlisten_def same_core_def)

lemma detach_core: "same_core s (detachQueuedListener e s)"
  by (simp add: detachQueuedListener_def unlisten_core)

lemmas core_steps = emit_core settle_core unlisten_core detach_core

lemma listen_queued_core: "proxy_core s \<Longrightarrow> proxy_core (listen sig (Cancel_queued c e) s)"
  by (auto simp: listen_def proxy_core_def unreleased_def slot_core_def held_def
      split: option.splits)

section \<open>Changing one slot\<close>

lemma slot_of_member: "slot_of s c = Some sl \<Longrightarrow> sl \<in> set (px_slots s) \<and> sl_credentialId sl = c"
  by (auto simp: slot_of_def dest: find_first_Some_iff)

lemma slot_of_unique:
  assumes "proxy_core s" and "sl \<in> set (px_slots s)"
  shows "slot_of s (sl_credentialId sl) = Some sl"
  using assms by (simp add: slot_of_def proxy_core_def find_first_key)

lemma slot_of_modify:
  assumes "\<And>sl. sl_credentialId (f sl) = sl_credentialId sl"
  shows "slot_of (modify_slot c f s) d =
    (if d = c then map_option f (slot_of s c) else slot_of s d)"
proof -
  have *: "find_first (\<lambda>sl. sl_credentialId sl = d)
      (map (\<lambda>sl. if sl_credentialId sl = c then f sl else sl) xs) =
    map_option (\<lambda>sl. if sl_credentialId sl = c then f sl else sl)
      (find_first (\<lambda>sl. sl_credentialId sl = d) xs)" for xs
    by (rule find_first_map) (simp add: assms)
  show ?thesis
    unfolding slot_of_def modify_slot_def
    by (cases "find_first (\<lambda>sl. sl_credentialId sl = d) (px_slots s)")
       (auto simp: * dest: find_first_Some_iff)
qed

lemma modify_slot_frame [simp]:
  "px_permits (modify_slot c f s) = px_permits s"
  "unreleased (modify_slot c f s) = unreleased s"
  "held (modify_slot c f s) = held s"
  "px_shutdownRequested (modify_slot c f s) = px_shutdownRequested s"
  "px_aborted (modify_slot c f s) = px_aborted s"
  "px_listeners (modify_slot c f s) = px_listeners s"
  "px_outstanding (modify_slot c f s) = px_outstanding s"
  "px_sequence (modify_slot c f s) = px_sequence s"
  "px_policy (modify_slot c f s) = px_policy s"
  "px_settled (modify_slot c f s) = px_settled s"
  "px_defaultPauseBackoffMs (modify_slot c f s) = px_defaultPauseBackoffMs s"
  "px_maxQueuePerCredential (modify_slot c f s) = px_maxQueuePerCredential s"
  "slot_core (modify_slot c f s) = slot_core s"
  by (simp_all add: modify_slot_def unreleased_def held_def slot_core_def fun_eq_iff)

lemma modify_slot_ids:
  assumes "\<And>sl. sl_credentialId (f sl) = sl_credentialId sl"
  shows "map sl_credentialId (px_slots (modify_slot c f s)) = map sl_credentialId (px_slots s)"
  using assms by (simp add: modify_slot_def)

lemma modify_slot_slots:
  "set (px_slots (modify_slot c f s)) =
   (\<lambda>sl. if sl_credentialId sl = c then f sl else sl) ` set (px_slots s)"
  by (simp add: modify_slot_def)

lemma modify_slot_core:
  assumes core: "proxy_core s" and ids: "\<And>sl. sl_credentialId (f sl) = sl_credentialId sl"
    and f: "\<And>sl. slot_of s c = Some sl \<Longrightarrow> slot_core s (f sl)"
  shows "proxy_core (modify_slot c f s)"
proof -
  have "slot_core s sl'" if sl': "sl' \<in> set (px_slots (modify_slot c f s))" for sl'
  proof -
    from sl' obtain sl where sl: "sl \<in> set (px_slots s)"
      "sl' = (if sl_credentialId sl = c then f sl else sl)"
      by (auto simp: modify_slot_slots)
    show ?thesis
    proof (cases "sl_credentialId sl = c")
      case True
      with slot_of_unique [OF core sl(1)] f sl(2) show ?thesis by simp
    next
      case False
      with core sl show ?thesis by (simp add: proxy_core_def)
    qed
  qed
  moreover have "sl_credentialId ` set (px_slots (modify_slot c f s)) = sl_credentialId ` set (px_slots s)"
    using modify_slot_ids [of f c s, OF ids] by (metis image_set)
  ultimately show ?thesis
    using core by (simp add: proxy_core_def modify_slot_ids [of f c s, OF ids])
qed

definition others_ok :: "string \<Rightarrow> proxy \<Rightarrow> bool" where
  "others_ok c s \<longleftrightarrow> (\<forall>sl\<in>set (px_slots s). sl_credentialId sl \<noteq> c \<longrightarrow> no_idle_wait sl)"

lemma others_ok_core: "same_core s s' \<Longrightarrow> others_ok c s' = others_ok c s"
  by (simp add: others_ok_def same_core_def)

lemma others_ok_modify:
  assumes "\<And>sl. sl_credentialId (f sl) = sl_credentialId sl"
  shows "others_ok c (modify_slot c f s) = others_ok c s"
  using assms by (auto simp: others_ok_def modify_slot_slots)

lemma proxy_ok_others:
  assumes "proxy_core s"
  shows "proxy_ok s \<longleftrightarrow> others_ok c s \<and> (\<forall>sl. slot_of s c = Some sl \<longrightarrow> no_idle_wait sl)"
  using assms slot_of_unique [OF assms] slot_of_member [of s c]
  by (auto simp: proxy_ok_def others_ok_def)

section \<open>Admitting keeps the core\<close>

lemma emit_frame [simp]:
  "px_slots (emit k c a n s) = px_slots s"
  "px_permits (emit k c a n s) = px_permits s"
  "px_outstanding (emit k c a n s) = px_outstanding s"
  "px_shutdownRequested (emit k c a n s) = px_shutdownRequested s"
  "px_aborted (emit k c a n s) = px_aborted s"
  "px_policy (emit k c a n s) = px_policy s"
  "px_settled (emit k c a n s) = px_settled s"
  "px_defaultPauseBackoffMs (emit k c a n s) = px_defaultPauseBackoffMs s"
  "px_maxQueuePerCredential (emit k c a n s) = px_maxQueuePerCredential s"
  "px_promises (emit k c a n s) = px_promises s"
  "px_listeners (emit k c a n s) = px_listeners s"
  "px_sequence (emit k c a n s) = Suc (px_sequence s)"
  by (simp_all add: emit_def dispatch_def msNow_def nextSequence_def Let_def)

lemma listen_frame [simp]:
  "px_slots (listen g l s) = px_slots s"
  "px_permits (listen g l s) = px_permits s"
  "px_outstanding (listen g l s) = px_outstanding s"
  "px_shutdownRequested (listen g l s) = px_shutdownRequested s"
  "px_aborted (listen g l s) = px_aborted s"
  "px_policy (listen g l s) = px_policy s"
  "px_settled (listen g l s) = px_settled s"
  "px_defaultPauseBackoffMs (listen g l s) = px_defaultPauseBackoffMs s"
  "px_maxQueuePerCredential (listen g l s) = px_maxQueuePerCredential s"
  "px_promises (listen g l s) = px_promises s"
  "px_sequence (listen g l s) = px_sequence s"
  by (simp_all add: listen_def split: option.splits)

lemma listen_listeners:
  "x \<in> set (px_listeners (listen g l s)) \<Longrightarrow> x \<in> set (px_listeners s) \<or> snd x = l"
  by (auto simp: listen_def split: option.splits)

lemma admit_frame:
  assumes "admit c aid node sig s = (p, s')"
  shows "px_slots s' = px_slots (modify_slot c (\<lambda>sl. sl\<lparr>sl_inFlight := sl_inFlight sl + 1\<rparr>) s)"
    and "px_shutdownRequested s' = px_shutdownRequested s" and "px_aborted s' = px_aborted s"
    and "px_policy s' = px_policy s" and "px_settled s' = px_settled s"
    and "px_defaultPauseBackoffMs s' = px_defaultPauseBackoffMs s"
    and "px_maxQueuePerCredential s' = px_maxQueuePerCredential s"
    and "px_outstanding s' = px_outstanding s + 1"
    and "px_sequence s' = Suc (Suc (px_sequence s))"
    and "px_permits s' = px_permits s @ [\<lparr>pr_sequence = Suc (px_sequence s), pr_slot = c,
           pr_attemptId = aid, pr_nodeId = node, pr_signal = sig, pr_released = False,
           pr_releasedBy = None\<rparr>]"
    and "pm_sequence p = Suc (px_sequence s) \<and> pm_credentialId p = c \<and> pm_attemptId p = aid"
    and "set (px_listeners s') \<subseteq> set (px_listeners s) \<union> UNIV \<times> {Cancel_permit p}"
  using assms
  by (auto simp: admit_def Let_def nextSequence_def msNow_def modify_slot_def
      dest!: listen_listeners)

lemma admit_core:
  assumes core: "proxy_core s" and sl: "slot_of s c = Some sl" and room: "sl_inFlight sl < sl_limit sl"
    and a: "admit c aid node sig s = (p, s')"
  shows "proxy_core s'"
proof -
  let ?f = "\<lambda>sl. sl\<lparr>sl_inFlight := sl_inFlight sl + 1\<rparr>"
  note fr = admit_frame [OF a]
  have un: "unreleased s' = unreleased s @ [last (px_permits s')]"
    by (simp add: unreleased_def fr(10))
  have held: "held s' d = held s d + (if d = c then 1 else 0)" for d
    by (simp add: held_def un fr(10))
  have core': "slot_core s' sl'" if "sl' \<in> set (px_slots s')" for sl'
  proof -
    from that obtain x where x: "x \<in> set (px_slots s)"
      "sl' = (if sl_credentialId x = c then ?f x else x)"
      unfolding fr(1) modify_slot_slots by blast
    from core x(1) have "slot_core s x" by (simp add: proxy_core_def)
    moreover have "x = sl" if "sl_credentialId x = c"
      using slot_of_unique [OF core x(1)] sl that by simp
    ultimately show ?thesis
      using x(2) room by (auto simp: slot_core_def held fr)
  qed
  have ids: "map sl_credentialId (px_slots s') = map sl_credentialId (px_slots s)"
    unfolding fr(1) by (rule modify_slot_ids) simp
  then have ids': "sl_credentialId ` set (px_slots s') = sl_credentialId ` set (px_slots s)"
    by (metis image_set)
  from slot_of_member [OF sl] have "c \<in> sl_credentialId ` set (px_slots s)" by auto
  moreover from core have "Suc (px_sequence s) \<notin> pr_sequence ` set (px_permits s)"
    by (auto simp: proxy_core_def)
  moreover from core fr(11,12) have "\<forall>i q. (i, Cancel_permit q) \<in> set (px_listeners s') \<longrightarrow>
        pm_sequence q \<in> pr_sequence ` set (unreleased s')"
    unfolding proxy_core_def un fr(10) by fastforce
  ultimately show ?thesis
    using core core' unfolding proxy_core_def ids ids'
    by (auto simp: fr un le_SucI)
qed

section \<open>The pump\<close>

lemma pump_loop_ok:
  assumes "proxy_core s" and "others_ok c s" and "slot_of s c = Some sl" and "sl_queued sl = es"
    and "\<not> px_shutdownRequested s"
  shows "proxy_ok (pump_loop es c s) \<and> \<not> px_shutdownRequested (pump_loop es c s)"
  using assms
proof (induction es arbitrary: s sl)
  case Nil
  then show ?case by (auto simp: proxy_ok_others [of s c] no_idle_wait_def)
next
  case (Cons e es)
  note core = Cons.prems(1) and sl = Cons.prems(3)
  from slot_of_member [OF sl] core have slc: "slot_core s sl" by (auto simp: proxy_core_def)
  show ?case
  proof (cases "\<not> sl_paused sl \<and> sl_inFlight sl < sl_limit sl")
    case False
    with slc have "no_idle_wait sl" by (auto simp: no_idle_wait_def slot_core_def)
    with False Cons.prems show ?thesis by (auto simp: proxy_ok_others [of s c])
  next
    case True
    let ?f = "\<lambda>sl. sl\<lparr>sl_queued := es\<rparr>"
    define s0 where "s0 = modify_slot c ?f s"
    define s1 where "s1 = detachQueuedListener e s0"
    from slc Cons.prems(4,5) have "slot_core s (?f sl)" by (auto simp: slot_core_def)
    with core sl have c0: "proxy_core s0"
      unfolding s0_def by (intro modify_slot_core) auto
    have sc: "same_core s0 s1" unfolding s1_def by (rule detach_core)
    note c1 = same_core_proxy [OF sc c0]
    have o1: "others_ok c s1"
      using Cons.prems(2) by (simp add: others_ok_core [OF sc] s0_def others_ok_modify)
    have sl1: "slot_of s1 c = Some (?f sl)"
      by (simp add: same_core_slot_of [OF sc] s0_def slot_of_modify sl)
    have sd1: "\<not> px_shutdownRequested s1" using sc Cons.prems(5) by (simp add: same_core_def s0_def)
    show ?thesis
    proof (cases "is_aborted s1 (qe_signal e)")
      case True
      let ?s2 = "settle (qe_id e) (Inl Cancelled_request)
            (emit (Request_cancelled Phase_queued) c (qe_attemptId e) (qe_nodeId e) s1)"
      have sc2: "same_core s1 ?s2" by (rule same_core_trans [OF emit_core settle_core])
      have "proxy_ok (pump_loop es c ?s2) \<and> \<not> px_shutdownRequested (pump_loop es c ?s2)"
        by (rule Cons.IH [OF same_core_proxy [OF sc2 c1]])
          (use o1 sl1 sd1 sc2 in \<open>auto simp: others_ok_core [OF sc2] same_core_slot_of [OF sc2]
             same_core_def\<close>)
      with True \<open>\<not> sl_paused sl \<and> _\<close> sl show ?thesis by (simp add: s0_def s1_def Let_def)
    next
      case False
      obtain p s2 where a: "admit c (qe_attemptId e) (qe_nodeId e) (qe_signal e) s1 = (p, s2)"
        by fastforce
      obtain t s3 where t: "msNow s2 = (t, s3)" by fastforce
      let ?g = "\<lambda>sl. sl\<lparr>sl_inFlight := sl_inFlight sl + 1\<rparr>"
      let ?s4 = "settle (qe_id e) (Inr \<lparr>ar_permit = p, ar_queued = True,
                ar_queuedForMs = t - qe_enqueuedAtMs e\<rparr>) s3"
      from True have room: "sl_inFlight (?f sl) < sl_limit (?f sl)" by simp
      note c2 = admit_core [OF c1 sl1 room a] and fr = admit_frame [OF a]
      have sc4: "same_core s2 ?s4" by (rule same_core_trans [OF msNow_core [OF t] settle_core])
      have sl2: "slot_of s2 c = Some (?g (?f sl))"
        using slot_of_modify [of ?g c s1 c] sl1 by (simp add: slot_of_def fr(1))
      have o2: "others_ok c s2"
        using o1 others_ok_modify [of ?g c s1] by (simp add: others_ok_def fr(1))
      have "proxy_ok (pump_loop es c ?s4) \<and> \<not> px_shutdownRequested (pump_loop es c ?s4)"
        by (rule Cons.IH [OF same_core_proxy [OF sc4 c2]])
          (use o2 sl2 sd1 sc4 fr(2) in \<open>auto simp: others_ok_core [OF sc4] same_core_slot_of [OF sc4]
             same_core_def\<close>)
      with True False sl a t show ?thesis by (simp add: s0_def s1_def Let_def)
    qed
  qed
qed

lemma pump_ok:
  assumes "proxy_core s" and "others_ok c s"
    and "\<And>sl. px_shutdownRequested s \<Longrightarrow> slot_of s c = Some sl \<Longrightarrow> no_idle_wait sl"
  shows "proxy_ok (pump c s)"
proof (cases "slot_of s c")
  case None
  with assms show ?thesis by (simp add: pump_def proxy_ok_others [of s c])
next
  case (Some sl)
  with assms pump_loop_ok [OF assms(1,2) Some refl] show ?thesis
    by (auto simp: pump_def proxy_ok_others [of s c])
qed

section \<open>Every operation keeps the invariant\<close>

lemma prune_loop_filter: "filter (\<lambda>r. \<not> pr_released r) (prune_loop n rs) = filter (\<lambda>r. \<not> pr_released r) rs"
  by (induction n rs rule: prune_loop.induct) auto

lemma prune_loop_map: "distinct (map f rs) \<Longrightarrow> distinct (map f (prune_loop n rs)) \<and>
    set (prune_loop n rs) \<subseteq> set rs"
  by (induction n rs rule: prune_loop.induct) auto

lemma prune_ok:
  assumes "proxy_ok s"
  shows "proxy_ok (pruneReleasedPermits s)"
proof -
  have un: "unreleased (pruneReleasedPermits s) = unreleased s"
    by (simp add: unreleased_def pruneReleasedPermits_def prune_loop_filter)
  then have held: "held (pruneReleasedPermits s) = held s" by (simp add: held_def fun_eq_iff)
  have core: "slot_core (pruneReleasedPermits s) = slot_core s"
    by (simp add: slot_core_def held fun_eq_iff) (simp add: pruneReleasedPermits_def)
  from assms have "distinct (map pr_sequence (px_permits s))"
    by (simp add: proxy_ok_def proxy_core_def)
  note pm = prune_loop_map [OF this, of "int (length (px_permits s))"]
  with assms show ?thesis unfolding proxy_ok_def proxy_core_def un core
    by (auto simp: pruneReleasedPermits_def)
qed

lemma number_min_timer:
  assumes "a = JsNum x"
  shows "timer_ok (number_min a MAX_SET_TIMEOUT_DELAY_MS)"
  using assms
  by (auto simp: number_min_def MAX_SET_TIMEOUT_DELAY_MS_def number_of_int_def timer_ok_def)

lemma usable_finite: "usable_retry_after r = Some v \<Longrightarrow> \<exists>x. v = JsNum x \<and> 0 < x"
  by (auto simp: usable_retry_after_def number_of_int_def split: option.splits if_splits
      elim: is_finite.elims)

lemma pauseSlot_core:
  assumes core: "proxy_core s"
  shows "proxy_core (pauseSlot c reason retry aid node s)"
    and "others_ok c (pauseSlot c reason retry aid node s) = others_ok c s"
    and "px_shutdownRequested (pauseSlot c reason retry aid node s) = px_shutdownRequested s"
    and "\<And>sl. slot_of (pauseSlot c reason retry aid node s) c = Some sl \<Longrightarrow>
       no_idle_wait sl \<and> sl_paused sl"
proof -
  let ?v = "usable_retry_after retry"
  let ?d = "number_min (case ?v of Some v \<Rightarrow> v | None \<Rightarrow> px_defaultPauseBackoffMs s)
                    MAX_SET_TIMEOUT_DELAY_MS"
  let ?f = "\<lambda>sl. sl\<lparr>sl_paused := True, sl_pauseReason := Some reason, sl_pauseRetryAfterMs := ?v,
                 sl_pauseTimer := (if px_shutdownRequested s then None else Some ?d)\<rparr>"
  let ?s = "modify_slot c ?f s"
  have p: "pauseSlot c reason retry aid node s = emit (Credential_paused reason retry) c aid node ?s"
    by (simp add: pauseSlot_def Let_def)
  have sc: "same_core ?s (pauseSlot c reason retry aid node s)" unfolding p by (rule emit_core)
  from core have d: "timer_ok ?d"
    by (cases ?v) (auto simp: proxy_core_def dest!: usable_finite intro: number_min_timer)
  have "slot_core s (?f sl)" if "slot_of s c = Some sl" for sl
    using slot_of_member [OF that] core d by (auto simp: proxy_core_def slot_core_def)
  from modify_slot_core [OF core _ this] have "proxy_core ?s" by simp
  from same_core_proxy [OF sc this] show "proxy_core (pauseSlot c reason retry aid node s)" .
  show "others_ok c (pauseSlot c reason retry aid node s) = others_ok c s"
    by (simp add: others_ok_core [OF sc] others_ok_modify)
  show "px_shutdownRequested (pauseSlot c reason retry aid node s) = px_shutdownRequested s"
    using sc by (simp add: same_core_def)
  show "no_idle_wait sl \<and> sl_paused sl"
    if "slot_of (pauseSlot c reason retry aid node s) c = Some sl" for sl
    using that by (auto simp: same_core_slot_of [OF sc] slot_of_modify no_idle_wait_def)
qed

lemma pauseSlot_ok: "proxy_ok s \<Longrightarrow> proxy_ok (pauseSlot c reason retry aid node s)"
proof -
  assume ok: "proxy_ok s"
  then have core: "proxy_core s" by (simp add: proxy_ok_def)
  note pc = pauseSlot_core [OF core, of c reason retry aid node]
  from ok pc(2,4) show "proxy_ok (pauseSlot c reason retry aid node s)"
    unfolding proxy_ok_others [OF pc(1), of c] proxy_ok_others [OF core, of c] by simp
qed

lemma apply_backpressure_core:
  assumes "proxy_core s"
  shows "proxy_core (apply_backpressure c p r s) \<and>
    others_ok c (apply_backpressure c p r s) = others_ok c s \<and>
    px_shutdownRequested (apply_backpressure c p r s) = px_shutdownRequested s"
proof (cases "signal_of r = Quota_ok")
  case False
  let ?retry = "case r of None \<Rightarrow> None | Some r \<Rightarrow> retry_after_of r"
  let ?s = "emit (Quota_signal_event (signal_of r) ?retry) c (pm_attemptId p) (pm_nodeId p) s"
  have sc: "same_core s ?s" by (rule emit_core)
  note pc = pauseSlot_core [OF same_core_proxy [OF sc assms],
      of c "signal_of r" ?retry "pm_attemptId p" "pm_nodeId p"]
  from False have "apply_backpressure c p r s =
      pauseSlot c (signal_of r) ?retry (pm_attemptId p) (pm_nodeId p) ?s"
    by (simp add: apply_backpressure_def Let_def)
  with pc(1-3) others_ok_core [OF sc, of c] sc show ?thesis by (simp add: same_core_def)
qed (simp add: apply_backpressure_def assms)

lemma apply_backpressure_ok: "proxy_ok s \<Longrightarrow> proxy_ok (apply_backpressure c p r s)"
  by (auto simp: apply_backpressure_def Let_def intro!: pauseSlot_ok same_core_ok [OF emit_core])

lemma resumeSlot_ok:
  assumes "proxy_ok s"
  shows "proxy_ok (resumeSlot c reason s)"
proof -
  let ?f = "\<lambda>sl. sl\<lparr>sl_paused := False, sl_pauseReason := None,
          sl_pauseRetryAfterMs := None, sl_pauseTimer := None\<rparr>"
  let ?s = "modify_slot c ?f s"
  let ?s' = "emit (Credential_resumed reason) c '''' None ?s"
  from assms have core: "proxy_core s" by (simp add: proxy_ok_def)
  have sc: "same_core ?s ?s'" by (rule emit_core)
  have "proxy_core ?s"
    by (rule modify_slot_core [OF core])
      (use core in \<open>auto simp: proxy_core_def slot_core_def dest!: slot_of_member\<close>)
  then have "proxy_core ?s'" by (rule same_core_proxy [OF sc])
  moreover from assms have "others_ok c ?s'"
    by (simp add: others_ok_core [OF sc] others_ok_modify proxy_ok_others [OF core, of c])
  moreover have "no_idle_wait sl" if "px_shutdownRequested ?s'" "slot_of ?s' c = Some sl" for sl
  proof -
    from that(1) have "px_shutdownRequested s" using sc by (simp add: same_core_def)
    with that(2) core show ?thesis
      by (auto simp: same_core_slot_of [OF sc] slot_of_modify no_idle_wait_def proxy_core_def
          slot_core_def dest!: slot_of_member)
  qed
  ultimately show ?thesis unfolding resumeSlot_def by (rule pump_ok)
qed

lemma release_marks:
  "filter (\<lambda>r. \<not> pr_released r) (map (\<lambda>x. if pr_sequence x = n
      then x\<lparr>pr_released := True, pr_releasedBy := b\<rparr> else x) rs) =
   filter (\<lambda>x. pr_sequence x \<noteq> n) (filter (\<lambda>r. \<not> pr_released r) rs)"
  by (induction rs) auto

lemma finish_released_ok:
  assumes ok: "proxy_ok s"
    and r: "find_first (\<lambda>r. pr_sequence r = pm_sequence p) (px_permits s) = Some r"
    and live: "\<not> pr_released r"
    and mid_def: "mid = surrender p by (pr_slot r) s"
  shows "proxy_core mid \<and> others_ok (pr_slot r) mid \<and>
    px_shutdownRequested mid = px_shutdownRequested s"
proof -
  let ?n = "pm_sequence p"
  let ?c = "pr_slot r"
  note mid = mid_def [unfolded surrender_def Let_def]
  from ok have core: "proxy_core s" by (simp add: proxy_ok_def)
  then have dist: "distinct (map pr_sequence (px_permits s))" by (simp add: proxy_core_def)
  from find_first_Some_iff [OF r] have rm: "r \<in> set (px_permits s)" "pr_sequence r = ?n" by auto
  have un: "unreleased mid = filter (\<lambda>x. pr_sequence x \<noteq> ?n) (unreleased s)"
    by (simp add: unreleased_def mid modify_slot_def unlisten_def release_marks)
  have split: "\<exists>pre post. unreleased s = pre @ r # post \<and> ?n \<notin> pr_sequence ` set pre \<and>
      ?n \<notin> pr_sequence ` set post"
  proof -
    from rm live have "r \<in> set (unreleased s)" by (simp add: unreleased_def)
    then obtain pre post where pp: "unreleased s = pre @ r # post" by (meson split_list)
    from dist have "distinct (map pr_sequence (unreleased s))"
      by (simp add: unreleased_def distinct_map_filter)
    with pp rm(2) show ?thesis by (intro exI [of _ pre] exI [of _ post]) auto
  qed
  then obtain pre post where pp: "unreleased s = pre @ r # post" "?n \<notin> pr_sequence ` set pre"
    "?n \<notin> pr_sequence ` set post" by blast
  have un': "unreleased mid = pre @ post"
  proof -
    have "filter (\<lambda>x. pr_sequence x \<noteq> ?n) pre = pre" "filter (\<lambda>x. pr_sequence x \<noteq> ?n) post = post"
      using pp(2,3) by (metis (mono_tags, lifting) filter_True image_eqI)+
    with rm(2) show ?thesis unfolding un pp(1) by simp
  qed
  have held: "held mid d = held s d - (if d = ?c then 1 else 0)" for d
    by (simp add: held_def un' pp(1))
  have pos: "1 \<le> held s ?c" by (simp add: held_def pp(1))
  let ?f = "\<lambda>sl. sl\<lparr>sl_inFlight := max 0 (sl_inFlight sl - 1)\<rparr>"
  have slots: "px_slots mid = px_slots (modify_slot ?c ?f s)"
    by (simp add: mid modify_slot_def unlisten_def)
  have frame: "px_shutdownRequested mid = px_shutdownRequested s" "px_policy mid = px_policy s"
    "px_defaultPauseBackoffMs mid = px_defaultPauseBackoffMs s" "px_sequence mid = px_sequence s"
    "px_maxQueuePerCredential mid = px_maxQueuePerCredential s"
    "px_outstanding mid = max 0 (px_outstanding s - 1)"
    "px_listeners mid = filter (\<lambda>l. \<not> listens_permit ?n (snd l)) (px_listeners s)"
    by (simp_all add: mid modify_slot_def unlisten_def)
  have core': "slot_core mid sl'" if "sl' \<in> set (px_slots mid)" for sl'
  proof -
    from that obtain x where x: "x \<in> set (px_slots s)"
      "sl' = (if sl_credentialId x = ?c then ?f x else x)"
      unfolding slots modify_slot_slots by blast
    from core x(1) have "slot_core s x" by (simp add: proxy_core_def)
    with x(2) pos show ?thesis by (auto simp: slot_core_def held frame)
  qed
  have ids: "map sl_credentialId (px_slots mid) = map sl_credentialId (px_slots s)"
    unfolding slots by (rule modify_slot_ids) simp
  then have ids': "sl_credentialId ` set (px_slots mid) = sl_credentialId ` set (px_slots s)"
    by (metis image_set)
  have permits: "map pr_sequence (px_permits mid) = map pr_sequence (px_permits s)"
    "\<forall>x\<in>set (px_permits mid). pr_sequence x \<le> px_sequence s \<and>
        pr_slot x \<in> sl_credentialId ` set (px_slots s)"
    using core by (auto simp: mid modify_slot_def unlisten_def proxy_core_def)
  have listeners: "pm_sequence q \<in> pr_sequence ` set (unreleased mid)"
    if "(i, Cancel_permit q) \<in> set (px_listeners mid)" for i q
  proof -
    from that have "pm_sequence q \<noteq> ?n" "(i, Cancel_permit q) \<in> set (px_listeners s)"
      by (auto simp: frame)
    with core have "pm_sequence q \<in> pr_sequence ` set (unreleased s)"
      unfolding proxy_core_def by blast
    with \<open>pm_sequence q \<noteq> ?n\<close> show ?thesis unfolding un by force
  qed
  have "px_outstanding mid = int (length (unreleased mid))"
    using core by (simp add: frame proxy_core_def un' pp(1))
  with core core' permits listeners have "proxy_core mid"
    unfolding proxy_core_def ids ids' by (simp add: frame) blast
  moreover have "others_ok ?c mid"
    using ok others_ok_modify [of ?f ?c s] proxy_ok_others [OF core, of ?c]
    by (simp add: others_ok_def slots)
  ultimately show ?thesis using frame(1) by blast
qed

lemma shut_no_wait:
  assumes "proxy_core s" "px_shutdownRequested s" "slot_of s c = Some sl"
  shows "no_idle_wait sl"
  using assms slot_of_member [OF assms(3)]
  by (auto simp: proxy_core_def slot_core_def no_idle_wait_def)

lemma finish_ok:
  assumes ok: "proxy_ok s" and fin: "finish p by result s = Inr s'"
  shows "proxy_ok s'"
proof (cases "find_first (\<lambda>r. pr_sequence r = pm_sequence p) (px_permits s)")
  case None
  with fin show ?thesis by (simp add: finish_def)
next
  case (Some r)
  show ?thesis
  proof (cases "pr_released r")
    case True
    with Some fin ok show ?thesis
      by (auto simp: finish_def intro: apply_backpressure_ok split: if_splits)
  next
    case False
    define mid where "mid = surrender p by (pr_slot r) s"
    from finish_released_ok [OF ok Some False mid_def]
    have mid: "proxy_core mid" "others_ok (pr_slot r) mid" by auto
    define c where "c = pr_slot r"
    define out where "out = (case by of
        By_release \<Rightarrow> apply_backpressure c p result
                    (emit (Request_completed (signal_of result) (tokens_in result) (tokens_out result))
                       c (pm_attemptId p) (pm_nodeId p)
                      (modify_slot c (\<lambda>sl. sl\<lparr>sl_usage := addUsage (sl_usage sl) (signal_of result)
                          (tokens_in result) (tokens_out result)\<rparr>) mid))
      | By_cancel \<Rightarrow> emit (Request_cancelled Phase_in_flight) c (pm_attemptId p) (pm_nodeId p) mid)"
    have s': "s' = pruneReleasedPermits (pump c out)"
      using fin Some False
      by (cases "by") (simp_all add: finish_def Let_def mid_def out_def c_def)
    have "proxy_core out \<and> others_ok c out"
    proof (cases "by")
      case By_cancel
      with mid show ?thesis
        by (simp add: out_def c_def same_core_proxy [OF emit_core] others_ok_core [OF emit_core])
    next
      case By_release
      let ?u = "modify_slot c (\<lambda>sl. sl\<lparr>sl_usage := addUsage (sl_usage sl) (signal_of result)
                          (tokens_in result) (tokens_out result)\<rparr>) mid"
      have "proxy_core ?u"
        by (rule modify_slot_core [OF mid(1)])
          (use mid(1) in \<open>auto simp: proxy_core_def slot_core_def dest!: slot_of_member\<close>)
      moreover from mid(2) have "others_ok c ?u" by (simp add: others_ok_modify c_def)
      ultimately show ?thesis
        using apply_backpressure_core [OF same_core_proxy [OF emit_core], of ?u]
        by (simp add: out_def By_release others_ok_core [OF emit_core])
    qed
    then have "proxy_ok (pump c out)"
      by (intro pump_ok) (auto intro: shut_no_wait)
    then show ?thesis unfolding s' by (rule prune_ok)
  qed
qed

lemma ensureSlot_ok:
  assumes ok: "proxy_ok s" and live: "\<not> px_shutdownRequested s"
  shows "proxy_ok (ensureSlot c s)" and "\<exists>sl. slot_of (ensureSlot c s) c = Some sl"
proof -
  show "\<exists>sl. slot_of (ensureSlot c s) c = Some sl"
    by (auto simp: ensureSlot_def slot_of_def find_first_append split: option.splits)
  show "proxy_ok (ensureSlot c s)"
  proof (cases "slot_of s c")
    case None
    then have new: "c \<notin> sl_credentialId ` set (px_slots s)"
      by (auto simp: slot_of_def find_first_None_iff)
    let ?s = "ensureSlot c s"
    have fr: "unreleased ?s = unreleased s" "held ?s = held s" "px_permits ?s = px_permits s"
      using None by (simp_all add: ensureSlot_def unreleased_def held_def fun_eq_iff)
    have core: "slot_core ?s = slot_core s"
      by (simp add: slot_core_def fr fun_eq_iff) (simp add: ensureSlot_def split: option.split)
    from ok have "r \<in> set (px_permits s) \<Longrightarrow> pr_slot r \<noteq> c" for r
      using new by (auto simp: proxy_ok_def proxy_core_def)
    then have "filter (\<lambda>r. pr_slot r = c) (unreleased s) = []"
      by (auto simp: unreleased_def filter_empty_conv)
    then have "held s c = 0" by (simp add: held_def)
    moreover from ok have "1 \<le> effectiveLimit (px_policy s) c"
      by (simp add: proxy_ok_def proxy_core_def effectiveLimit_pos)
    ultimately show ?thesis
      using ok live new None unfolding proxy_ok_def proxy_core_def fr core
      by (simp add: ensureSlot_def) (simp add: slot_core_def no_idle_wait_def)
  qed (simp add: ensureSlot_def ok)
qed

lemma ensureSlot_shut [simp]: "px_shutdownRequested (ensureSlot c s) = px_shutdownRequested s"
  by (simp add: ensureSlot_def split: option.split)

lemma enqueue_ok:
  assumes ok: "proxy_ok s" and live: "\<not> px_shutdownRequested s"
    and sl: "slot_of s (rq_credentialId rq) = Some sl"
    and busy: "\<not> (\<not> sl_paused sl \<and> sl_inFlight sl < sl_limit sl \<and> length (sl_queued sl) = 0)"
    and room: "int (length (sl_queued sl)) < px_maxQueuePerCredential s"
  shows "proxy_ok (snd (enqueue rq s))"
proof -
  let ?c = "rq_credentialId rq"
  obtain t s1 where t: "msNow s = (t, s1)" by fastforce
  let ?s2 = "s1\<lparr>px_promises := Suc (px_promises s1)\<rparr>"
  let ?e = "\<lparr>qe_id = px_promises s1, qe_attemptId = rq_attemptId rq, qe_nodeId = rq_nodeId rq,
               qe_enqueuedAtMs = t, qe_signal = rq_signal rq\<rparr>"
  let ?f = "\<lambda>sl. sl\<lparr>sl_queued := sl_queued sl @ [?e]\<rparr>"
  let ?s3 = "modify_slot ?c ?f ?s2"
  let ?s4 = "emit Request_queued ?c (rq_attemptId rq) (rq_nodeId rq) ?s3"
  have e: "snd (enqueue rq s) = listen (rq_signal rq) (Cancel_queued ?c ?e) ?s4"
    by (simp add: enqueue_def t Let_def)
  have sc: "same_core s ?s2" using msNow_core [OF t] by (simp add: same_core_def)
  from ok have core: "proxy_core s" by (simp add: proxy_ok_def)
  note c2 = same_core_proxy [OF sc core]
  have sl2: "slot_of ?s2 ?c = Some sl" by (simp only: same_core_slot_of [OF sc] sl)
  from slot_of_member [OF sl] core have slc: "slot_core s sl" by (auto simp: proxy_core_def)
  have "slot_core ?s2 (?f sl)"
    using slc room live by (auto simp: same_core_slot [OF sc] slot_core_def)
  with sl2 have c3: "proxy_core ?s3" by (intro modify_slot_core [OF c2]) auto
  have sc4: "same_core ?s3 ?s4" by (rule emit_core)
  have "no_idle_wait (?f sl)"
  proof (cases "sl_paused sl \<or> sl_inFlight sl = sl_limit sl")
    case False
    with slc busy have "sl_queued sl \<noteq> []" by (auto simp: slot_core_def)
    with ok slot_of_member [OF sl] False show ?thesis by (auto simp: proxy_ok_def no_idle_wait_def)
  qed (auto simp: no_idle_wait_def)
  moreover from ok have "others_ok ?c ?s3"
    by (simp add: others_ok_modify others_ok_core [OF sc] proxy_ok_others [OF core, of ?c])
  ultimately have "proxy_ok ?s3"
    using sl2 by (auto simp: proxy_ok_others [OF c3, of ?c] slot_of_modify)
  then have "proxy_ok ?s4" by (rule same_core_ok [OF sc4])
  then show ?thesis
    unfolding e proxy_ok_def using listen_queued_core [of ?s4 "rq_signal rq" ?c ?e]
    by (auto simp: listen_def split: option.splits)
qed

lemma admit_ok:
  assumes ok: "proxy_ok s" and sl: "slot_of s c = Some sl" and empty: "sl_queued sl = []"
    and room: "sl_inFlight sl < sl_limit sl"
  shows "proxy_ok (snd (admit c aid node sig s))"
proof -
  obtain p s' where a: "admit c aid node sig s = (p, s')" by fastforce
  from ok have core: "proxy_core s" by (simp add: proxy_ok_def)
  note c' = admit_core [OF core sl room a]
  let ?g = "\<lambda>sl. sl\<lparr>sl_inFlight := sl_inFlight sl + 1\<rparr>"
  have "others_ok c s'"
    using ok others_ok_modify [of ?g c s] proxy_ok_others [OF core, of c]
    by (simp add: others_ok_def admit_frame(1) [OF a])
  moreover have "slot_of s' c = Some (?g sl)"
    using slot_of_modify [of ?g c s c] sl by (simp add: slot_of_def admit_frame(1) [OF a])
  ultimately show ?thesis
    using empty by (auto simp: a proxy_ok_others [OF c', of c] no_idle_wait_def)
qed

lemma acquire_ok:
  assumes ok: "proxy_ok s" and acq: "acquire rq s = Inr (a, s')"
  shows "proxy_ok s'"
proof -
  let ?c = "rq_credentialId rq"
  let ?s = "ensureSlot ?c s"
  from acq have live: "\<not> px_shutdownRequested s"
    by (auto simp: acquire_def assertNotShutdown_def res_simps)
  note e = ensureSlot_ok [OF ok live, of ?c]
  from e(2) obtain sl where sl: "slot_of ?s ?c = Some sl" by blast
  from acq live sl show ?thesis
    using e(1) admit_ok [OF e(1) sl, of "rq_attemptId rq" "rq_nodeId rq" "rq_signal rq"]
      enqueue_ok [OF e(1) _ sl]
    by (auto simp: acquire_def assertNotShutdown_def res_simps Let_def not_le
        split: if_splits prod.splits)
qed

lemma cancelQueued_ok:
  assumes ok: "proxy_ok s"
  shows "proxy_ok (cancelQueued c e s)"
proof (cases "slot_of s c")
  case None
  then show ?thesis by (simp add: cancelQueued_def ok)
next
  case (Some sl)
  let ?f = "\<lambda>sl'. sl'\<lparr>sl_queued := filter (\<lambda>x. qe_id x \<noteq> qe_id e) (sl_queued sl')\<rparr>"
  from ok have core: "proxy_core s" by (simp add: proxy_ok_def)
  from slot_of_member [OF Some] core have slc: "slot_core s sl" by (auto simp: proxy_core_def)
  have "length (filter (\<lambda>x. qe_id x \<noteq> qe_id e) (sl_queued sl)) \<le> length (sl_queued sl)"
    by (rule length_filter_le)
  then have "int (length (filter (\<lambda>x. qe_id x \<noteq> qe_id e) (sl_queued sl))) \<le>
      max 0 (px_maxQueuePerCredential s)"
    using slc unfolding slot_core_def by linarith
  with slc have "slot_core s (?f sl)" by (auto simp: slot_core_def)
  with Some have c1: "proxy_core (modify_slot c ?f s)" by (intro modify_slot_core [OF core]) auto
  have "no_idle_wait (?f sl)"
    using ok slot_of_member [OF Some] by (auto simp: proxy_ok_def no_idle_wait_def)
  with ok Some have "proxy_ok (modify_slot c ?f s)"
    by (simp add: proxy_ok_others [OF c1, of c] proxy_ok_others [OF core, of c] others_ok_modify
        slot_of_modify)
  then show ?thesis
    using ok Some
    by (auto simp: cancelQueued_def intro: same_core_ok [OF settle_core]
        same_core_ok [OF emit_core] same_core_ok [OF detach_core])
qed

lemma reject_all_core: "same_core s (reject_all es s)"
  by (induction es arbitrary: s)
     (auto intro: same_core_trans [OF same_core_trans [OF detach_core settle_core]])

lemma shutdown_slots_result:
  assumes "distinct (map sl_credentialId sls)"
  shows "same_core (s\<lparr>px_slots := map (\<lambda>x. if sl_credentialId x \<in> sl_credentialId ` set sls
       then x\<lparr>sl_pauseTimer := None, sl_queued := []\<rparr> else x) (px_slots s)\<rparr>) (shutdown_slots sls s)"
  using assms
proof (induction sls arbitrary: s)
  case Nil
  then show ?case by (simp add: same_core_def)
next
  case (Cons sl sls)
  let ?f = "\<lambda>x. x\<lparr>sl_pauseTimer := None, sl_queued := []\<rparr>"
  let ?m = "modify_slot (sl_credentialId sl) ?f s"
  let ?r = "reject_all (sl_queued sl) ?m"
  have rc: "same_core ?m ?r" by (rule reject_all_core)
  have slots: "px_slots ?r = px_slots ?m" using rc by (simp add: same_core_def)
  from Cons.prems have "distinct (map sl_credentialId sls)" by simp
  from Cons.IH [OF this, of ?r] have IH: "same_core (?r\<lparr>px_slots := map (\<lambda>x. if sl_credentialId x \<in> sl_credentialId ` set sls
       then ?f x else x) (px_slots ?m)\<rparr>) (shutdown_slots sls ?r)"
    unfolding slots .
  have "map (\<lambda>x. if sl_credentialId x \<in> sl_credentialId ` set sls then ?f x else x) (px_slots ?m) =
    map (\<lambda>x. if sl_credentialId x \<in> sl_credentialId ` set (sl # sls) then ?f x else x) (px_slots s)"
    by (auto simp: modify_slot_def)
  with IH rc show ?case
    by (simp add: same_core_def modify_slot_def) blast
qed

lemma shutdown_ok:
  assumes ok: "proxy_ok s"
  shows "proxy_ok (shutdown s)"
proof (cases "px_shutdownRequested s")
  case False
  from ok have core: "proxy_core s" by (simp add: proxy_ok_def)
  then have dist: "distinct (map sl_credentialId (px_slots s))" by (simp add: proxy_core_def)
  let ?f = "\<lambda>x. x\<lparr>sl_pauseTimer := None, sl_queued := []\<rparr>"
  let ?t = "s\<lparr>px_shutdownRequested := True, px_slots := map ?f (px_slots s)\<rparr>"
  have "map (\<lambda>x. if sl_credentialId x \<in> sl_credentialId ` set (px_slots s) then ?f x else x)
      (px_slots s) = map ?f (px_slots s)" by auto
  with shutdown_slots_result [OF dist, of "s\<lparr>px_shutdownRequested := True\<rparr>"]
  have sc: "same_core ?t (shutdown s)" using False by (simp add: shutdown_def)
  have un: "unreleased ?t = unreleased s" "held ?t = held s"
    by (simp_all add: unreleased_def held_def fun_eq_iff)
  have "proxy_ok ?t"
    using ok unfolding proxy_ok_def proxy_core_def un
    by (auto simp: slot_core_def un no_idle_wait_def comp_def image_image)
  then show ?thesis by (rule same_core_ok [OF sc])
qed (simp add: shutdown_def ok)

lemma timer_fires_ok: "proxy_ok s \<Longrightarrow> proxy_ok (timer_fires c s)"
  by (auto simp: timer_fires_def intro: resumeSlot_ok split: option.splits)

text \<open>An abort never throws: the permit behind a registered listener is still held.\<close>

lemma finish_live:
  assumes ok: "proxy_ok s" and "pm_sequence p \<in> pr_sequence ` set (unreleased s)"
  shows "\<exists>s'. finish p by result s = Inr s'"
proof -
  from assms(2) obtain r where r: "r \<in> set (px_permits s)" "pr_sequence r = pm_sequence p"
    "\<not> pr_released r" by (auto simp: unreleased_def)
  from ok have "distinct (map pr_sequence (px_permits s))"
    by (simp add: proxy_ok_def proxy_core_def)
  from find_first_key [OF this r(1)] r(2,3) show ?thesis by (simp add: finish_def Let_def)
qed

lemma drop_listener_core: "same_core s (s\<lparr>px_listeners := remove1 l (px_listeners s)\<rparr>)"
  using set_remove1_subset [of l "px_listeners s"] by (auto simp: same_core_def)

lemma fire_listeners_ok: "proxy_ok s \<Longrightarrow> \<exists>s'. fire_listeners ls s = Inr s' \<and> proxy_ok s'"
proof (induction ls arbitrary: s)
  case (Cons l ls)
  show ?case
  proof (cases "l \<in> set (px_listeners s)")
    case True
    let ?s = "s\<lparr>px_listeners := remove1 l (px_listeners s)\<rparr>"
    have ok: "proxy_ok ?s" by (rule same_core_ok [OF drop_listener_core Cons.prems])
    have "\<exists>s'. fire_listener (snd l) ?s = Inr s' \<and> proxy_ok s'"
    proof (cases "snd l")
      case (Cancel_permit p)
      with True have "(fst l, Cancel_permit p) \<in> set (px_listeners s)" by (metis prod.collapse)
      with Cons.prems have "pm_sequence p \<in> pr_sequence ` set (unreleased ?s)"
        by (auto simp: proxy_ok_def proxy_core_def unreleased_def)
      from finish_live [OF ok this] obtain s' where "finish p By_cancel None ?s = Inr s'" by blast
      with finish_ok [OF ok this] Cancel_permit show ?thesis by auto
    next
      case (Cancel_queued c e)
      with cancelQueued_ok [OF ok] show ?thesis by simp
    qed
    with True Cons.IH show ?thesis by auto
  qed (simp add: Cons)
qed simp

lemma aborted_ok:
  assumes "proxy_ok s"
  shows "proxy_ok (s\<lparr>px_aborted := is\<rparr>)"
proof -
  have un: "unreleased (s\<lparr>px_aborted := is\<rparr>) = unreleased s"
    "held (s\<lparr>px_aborted := is\<rparr>) = held s"
    by (simp_all add: unreleased_def held_def fun_eq_iff)
  have core: "slot_core (s\<lparr>px_aborted := is\<rparr>) = slot_core s"
    by (simp add: slot_core_def un fun_eq_iff)
  show ?thesis
    using assms unfolding proxy_ok_def proxy_core_def un core by simp
qed

lemma abort_signal_ok:
  assumes "proxy_ok s"
  shows "\<exists>s'. abort_signal i s = Inr s' \<and> proxy_ok s'"
  using fire_listeners_ok [OF aborted_ok [OF assms]] assms by (auto simp: abort_signal_def)

section \<open>Every waiter is answered once\<close>

definition waiting :: "proxy \<Rightarrow> nat list" where
  "waiting s = concat (map (\<lambda>sl. map qe_id (sl_queued sl)) (px_slots s))"

definition answered :: "proxy \<Rightarrow> nat list" where
  "answered s = map fst (px_settled s)"

text \<open>Answers are only added, and the pending promises are those neither answered nor new.\<close>

definition progress :: "proxy \<Rightarrow> proxy \<Rightarrow> bool" where
  "progress s s' \<longleftrightarrow> (\<exists>more. px_settled s' = px_settled s @ more) \<and>
     px_promises s \<le> px_promises s' \<and> (px_shutdownRequested s \<longrightarrow> px_shutdownRequested s') \<and>
     mset (waiting s') + mset (answered s') + mset [0..<px_promises s] =
     mset (waiting s) + mset (answered s) + mset [0..<px_promises s']"

lemma progress_refl [simp]: "progress s s"
  by (simp add: progress_def)

lemma balance_trans:
  assumes "w' + p = w + p'" and "w'' + p' = w' + (p'' :: 'a multiset)"
  shows "w'' + p = w + p''"
proof -
  have "(w'' + p) + p' = (w'' + p') + p" by (simp only: ac_simps)
  also have "\<dots> = (w' + p) + p''" unfolding assms(2) by (simp only: ac_simps)
  also have "\<dots> = (w + p'') + p'" unfolding assms(1) by (simp only: ac_simps)
  finally show ?thesis by simp
qed

lemma progress_trans:
  assumes "progress s s'" and "progress s' s''"
  shows "progress s s''"
proof -
  have "mset (waiting s'') + mset (answered s'') + mset [0..<px_promises s] =
     mset (waiting s) + mset (answered s) + mset [0..<px_promises s'']"
    by (rule balance_trans [where w' = "mset (waiting s') + mset (answered s')"])
      (use assms in \<open>auto simp: progress_def\<close>)
  with assms show ?thesis by (auto simp: progress_def)
qed

lemma progress_frame:
  assumes "map sl_queued (px_slots s') = map sl_queued (px_slots s)" and "px_settled s' = px_settled s"
    and "px_promises s' = px_promises s" and "px_shutdownRequested s' = px_shutdownRequested s"
  shows "progress s s'"
proof -
  have "waiting s' = concat (map (map qe_id) (map sl_queued (px_slots s')))"
    by (simp add: waiting_def comp_def)
  also have "\<dots> = waiting s" unfolding assms(1) by (simp add: waiting_def comp_def)
  finally show ?thesis using assms by (simp add: progress_def answered_def)
qed

lemma progress_modify:
  "(\<And>sl. sl_queued (f sl) = sl_queued sl) \<Longrightarrow> progress s (modify_slot c f s)"
  by (rule progress_frame) (auto simp: modify_slot_def)

lemma progress_emit: "progress s (emit k c a n s)"
  by (rule progress_frame)
     (simp_all add: emit_def dispatch_def msNow_def nextSequence_def Let_def)

lemma progress_msNow: "msNow s = (t, s') \<Longrightarrow> progress s s'"
  by (rule progress_frame) (auto simp: msNow_def)

lemma progress_unlisten: "progress s (unlisten p s)"
  by (rule progress_frame) (simp_all add: unlisten_def)

lemma progress_listen: "progress s (listen sig l s)"
  by (rule progress_frame) (simp_all add: listen_def split: option.splits)

lemma progress_admit:
  assumes "admit c aid node sig s = (p, s')"
  shows "progress s s'"
proof (rule progress_frame)
  show "map sl_queued (px_slots s') = map sl_queued (px_slots s)"
    unfolding admit_frame(1) [OF assms] by (simp add: modify_slot_def)
  show "px_settled s' = px_settled s" "px_shutdownRequested s' = px_shutdownRequested s"
    using admit_frame [OF assms] by auto
  show "px_promises s' = px_promises s"
    using assms by (auto simp: admit_def Let_def nextSequence_def msNow_def modify_slot_def)
qed

lemma progress_pauseSlot: "progress s (pauseSlot c q r a n s)"
  unfolding pauseSlot_def Let_def by (rule progress_trans [OF progress_modify progress_emit]) simp

lemma progress_backpressure: "progress s (apply_backpressure c p r s)"
  by (auto simp: apply_backpressure_def Let_def
      intro: progress_trans [OF progress_emit progress_pauseSlot])

lemma progress_surrender: "progress s (surrender p by c s)"
  by (rule progress_frame) (auto simp: surrender_def Let_def modify_slot_def unlisten_def)

lemma progress_prune: "progress s (pruneReleasedPermits s)"
  by (rule progress_frame) (simp_all add: pruneReleasedPermits_def)

lemma progress_ensureSlot: "progress s (ensureSlot c s)"
  by (auto simp: progress_def ensureSlot_def waiting_def answered_def split: option.splits)

text \<open>Replacing the queue of one slot moves exactly the difference.\<close>

lemma waiting_modify_mset:
  assumes "distinct (map sl_credentialId slots)"
    and "find_first (\<lambda>sl. sl_credentialId sl = c) slots = Some sl"
  shows "mset (concat (map (\<lambda>x. map qe_id (sl_queued x))
      (map (\<lambda>x. if sl_credentialId x = c then f x else x) slots))) + mset (map qe_id (sl_queued sl)) =
    mset (concat (map (\<lambda>x. map qe_id (sl_queued x)) slots)) + mset (map qe_id (sl_queued (f sl)))"
  using assms
proof (induction slots)
  case (Cons x xs)
  show ?case
  proof (cases "sl_credentialId x = c")
    case True
    with Cons.prems(1) have "map (\<lambda>x. if sl_credentialId x = c then f x else x) xs = xs"
      by (intro map_idI) (metis distinct.simps(2) image_eqI list.set_map list.simps(9))
    with True Cons.prems(2) show ?thesis by (simp add: union_ac)
  next
    case False
    with Cons show ?thesis by (simp add: union_ac)
  qed
qed simp

lemma waiting_modify:
  assumes "distinct (map sl_credentialId (px_slots s))" and "slot_of s c = Some sl"
  shows "mset (waiting (modify_slot c f s)) + mset (map qe_id (sl_queued sl)) =
    mset (waiting s) + mset (map qe_id (sl_queued (f sl)))"
  using waiting_modify_mset [OF assms(1) assms(2) [unfolded slot_of_def], of f]
  by (simp add: waiting_def modify_slot_def)

lemma progress_settle:
  assumes "progress s (s'\<lparr>px_settled := px_settled s' @ [(n, r)]\<rparr>)"
  shows "progress s (settle n r s')"
  using assms by (simp add: settle_def)

text \<open>Taking the entry \<open>e\<close> out of the queue of \<open>c\<close> and settling its promise.\<close>

lemma progress_answer:
  assumes dist: "distinct (map sl_credentialId (px_slots s))" and sl: "slot_of s c = Some sl"
    and ids: "\<And>x. sl_credentialId (f x) = sl_credentialId x"
    and q: "mset (map qe_id (sl_queued sl)) = add_mset n (mset (map qe_id (sl_queued (f sl))))"
    and mid: "progress (modify_slot c f s) s'"
  shows "progress s (settle n r s')"
proof -
  have "mset (waiting s) = add_mset n (mset (waiting (modify_slot c f s)))"
    using waiting_modify [OF dist sl, of f] unfolding q
    by simp
  moreover have "px_promises (modify_slot c f s) = px_promises s"
    by (simp add: modify_slot_def)
  ultimately show ?thesis
    using mid by (auto simp: progress_def settle_def answered_def waiting_def)
qed

lemma pump_loop_progress:
  assumes "distinct (map sl_credentialId (px_slots s))" and "slot_of s c = Some sl"
    and "sl_queued sl = es"
  shows "progress s (pump_loop es c s)"
  using assms
proof (induction es arbitrary: s sl)
  case (Cons e es)
  note dist = Cons.prems(1) and sl = Cons.prems(2)
  let ?f = "\<lambda>sl. sl\<lparr>sl_queued := es\<rparr>"
  define s0 where "s0 = modify_slot c ?f s"
  define s1 where "s1 = detachQueuedListener e s0"
  have sc: "same_core s0 s1" unfolding s1_def by (rule detach_core)
  have ids0: "map sl_credentialId (px_slots s0) = map sl_credentialId (px_slots s)"
    unfolding s0_def by (rule modify_slot_ids) simp
  have p01: "progress s0 s1" by (simp add: s1_def detachQueuedListener_def progress_unlisten)
  have sl1: "slot_of s1 c = Some (?f sl)"
    by (simp add: same_core_slot_of [OF sc] s0_def slot_of_modify sl)
  have d1: "distinct (map sl_credentialId (px_slots s1))"
    using sc dist ids0 by (simp add: same_core_def)
  have q: "mset (map qe_id (sl_queued sl)) = add_mset (qe_id e) (mset (map qe_id (sl_queued (?f sl))))"
    by (simp add: Cons.prems(3))
  note answer = progress_answer [OF dist sl, of ?f, OF _ q, folded s0_def]
  show ?case
  proof (cases "\<not> sl_paused sl \<and> sl_inFlight sl < sl_limit sl")
    case False
    then show ?thesis by (auto simp: sl)
  next
    case room: True
    show ?thesis
    proof (cases "is_aborted s1 (qe_signal e)")
      case True
      let ?s2 = "emit (Request_cancelled Phase_queued) c (qe_attemptId e) (qe_nodeId e) s1"
      let ?s3 = "settle (qe_id e) (Inl Cancelled_request) ?s2"
      have sc3: "same_core s1 ?s3" by (rule same_core_trans [OF emit_core settle_core])
      have "progress s ?s3" by (rule answer) (auto intro: progress_trans [OF p01 progress_emit])
      moreover have "progress ?s3 (pump_loop es c ?s3)"
        by (rule Cons.IH) (use d1 sl1 sc3 in \<open>auto simp: same_core_slot_of [OF sc3] same_core_def\<close>)
      ultimately have "progress s (pump_loop es c ?s3)" by (rule progress_trans)
      with True room sl show ?thesis by (simp add: s0_def s1_def Let_def)
    next
      case False
      obtain p s2 where a: "admit c (qe_attemptId e) (qe_nodeId e) (qe_signal e) s1 = (p, s2)"
        by fastforce
      obtain t s3 where t: "msNow s2 = (t, s3)" by fastforce
      let ?g = "\<lambda>sl. sl\<lparr>sl_inFlight := sl_inFlight sl + 1\<rparr>"
      let ?s4 = "settle (qe_id e) (Inr \<lparr>ar_permit = p, ar_queued = True,
                ar_queuedForMs = t - qe_enqueuedAtMs e\<rparr>) s3"
      have sc4: "same_core s2 ?s4" by (rule same_core_trans [OF msNow_core [OF t] settle_core])
      have sl2: "slot_of s2 c = Some (?g (?f sl))"
        using slot_of_modify [of ?g c s1 c] sl1 by (simp add: slot_of_def admit_frame(1) [OF a])
      have d2: "distinct (map sl_credentialId (px_slots s2))"
        using d1 modify_slot_ids [of ?g c s1] by (simp add: admit_frame(1) [OF a])
      have "progress s ?s4"
        by (rule answer) (auto intro: progress_trans [OF p01]
            progress_trans [OF progress_admit [OF a] progress_msNow [OF t]])
      moreover have "progress ?s4 (pump_loop es c ?s4)"
        by (rule Cons.IH) (use d2 sl2 sc4 in \<open>auto simp: same_core_slot_of [OF sc4] same_core_def\<close>)
      ultimately have "progress s (pump_loop es c ?s4)" by (rule progress_trans)
      with False room sl a t show ?thesis by (simp add: s0_def s1_def Let_def)
    qed
  qed
qed simp

lemma core_distinct: "proxy_core s \<Longrightarrow> distinct (map sl_credentialId (px_slots s))"
  by (simp add: proxy_core_def)

lemma pump_progress: "distinct (map sl_credentialId (px_slots s)) \<Longrightarrow> progress s (pump c s)"
  by (auto simp: pump_def intro: pump_loop_progress split: option.splits)

lemma resumeSlot_progress:
  assumes "distinct (map sl_credentialId (px_slots s))"
  shows "progress s (resumeSlot c reason s)"
proof -
  let ?f = "\<lambda>sl. sl\<lparr>sl_paused := False, sl_pauseReason := None,
          sl_pauseRetryAfterMs := None, sl_pauseTimer := None\<rparr>"
  let ?s = "emit (Credential_resumed reason) c '''' None (modify_slot c ?f s)"
  have "map sl_credentialId (px_slots ?s) = map sl_credentialId (px_slots s)"
    using modify_slot_ids [of ?f c s] emit_core [of "modify_slot c ?f s"]
    by (simp add: same_core_def)
  with assms have "progress ?s (pump c ?s)" by (intro pump_progress) simp
  moreover have "progress s ?s" by (rule progress_trans [OF progress_modify progress_emit]) simp
  ultimately show ?thesis unfolding resumeSlot_def by (rule progress_trans [rotated])
qed

lemma surrender_ids:
  "map sl_credentialId (px_slots (surrender p by c s)) = map sl_credentialId (px_slots s)"
  by (simp add: surrender_def Let_def modify_slot_def unlisten_def)

lemma backpressure_ids:
  "map sl_credentialId (px_slots (apply_backpressure c p r s)) = map sl_credentialId (px_slots s)"
  by (simp add: apply_backpressure_def pauseSlot_def Let_def emit_def dispatch_def msNow_def
      nextSequence_def modify_slot_def)

lemma emit_ids: "map sl_credentialId (px_slots (emit k c a n s)) = map sl_credentialId (px_slots s)"
  by (simp add: emit_def dispatch_def msNow_def nextSequence_def Let_def)

lemma finish_progress:
  assumes dist: "distinct (map sl_credentialId (px_slots s))"
    and fin: "finish p by result s = Inr s'"
  shows "progress s s'"
proof -
  from fin obtain r where r: "find_first (\<lambda>r. pr_sequence r = pm_sequence p) (px_permits s) = Some r"
    by (auto simp: finish_def split: option.splits)
  let ?c = "pr_slot r"
  let ?m = "surrender p by ?c s"
  let ?u = "modify_slot ?c (\<lambda>sl. sl\<lparr>sl_usage := addUsage (sl_usage sl) (signal_of result)
                          (tokens_in result) (tokens_out result)\<rparr>) ?m"
  let ?rel = "apply_backpressure ?c p result (emit (Request_completed (signal_of result)
      (tokens_in result) (tokens_out result)) ?c (pm_attemptId p) (pm_nodeId p) ?u)"
  let ?can = "emit (Request_cancelled Phase_in_flight) ?c (pm_attemptId p) (pm_nodeId p) ?m"
  show ?thesis
  proof (cases "pr_released r")
    case True
    with r fin show ?thesis by (auto simp: finish_def intro: progress_backpressure split: if_splits)
  next
    case False
    have step: "progress s (pruneReleasedPermits (pump ?c t))"
      if t: "progress ?m t" "map sl_credentialId (px_slots t) = map sl_credentialId (px_slots s)" for t
      by (rule progress_trans [OF progress_trans [OF progress_surrender t(1)]
            progress_trans [OF pump_progress progress_prune]]) (simp add: t(2) dist)
    have mod_ids: "map sl_credentialId (px_slots ?u) = map sl_credentialId (px_slots ?m)"
      by (rule modify_slot_ids) simp
    have "progress ?m ?rel"
      by (rule progress_trans [OF progress_trans [OF progress_modify progress_emit]
            progress_backpressure]) simp
    then have rel: "progress s (pruneReleasedPermits (pump ?c ?rel))"
      by (rule step) (simp only: backpressure_ids emit_ids mod_ids surrender_ids)
    have can: "progress s (pruneReleasedPermits (pump ?c ?can))"
      by (rule step [OF progress_emit]) (simp only: emit_ids surrender_ids)
    from rel can r False fin show ?thesis
      by (cases "by") (auto simp: finish_def Let_def)
  qed
qed

lemma enqueue_progress:
  assumes dist: "distinct (map sl_credentialId (px_slots s))"
    and sl: "slot_of s (rq_credentialId rq) = Some sl"
  shows "progress s (snd (enqueue rq s))"
proof -
  let ?c = "rq_credentialId rq"
  obtain t s1 where t: "msNow s = (t, s1)" by fastforce
  let ?s2 = "s1\<lparr>px_promises := Suc (px_promises s1)\<rparr>"
  let ?e = "\<lparr>qe_id = px_promises s1, qe_attemptId = rq_attemptId rq, qe_nodeId = rq_nodeId rq,
               qe_enqueuedAtMs = t, qe_signal = rq_signal rq\<rparr>"
  let ?f = "\<lambda>sl. sl\<lparr>sl_queued := sl_queued sl @ [?e]\<rparr>"
  let ?s3 = "modify_slot ?c ?f ?s2"
  have e: "snd (enqueue rq s) = listen (rq_signal rq) (Cancel_queued ?c ?e)
      (emit Request_queued ?c (rq_attemptId rq) (rq_nodeId rq) ?s3)"
    by (simp add: enqueue_def t Let_def)
  from t have s1: "px_slots s1 = px_slots s" "px_settled s1 = px_settled s"
    "px_promises s1 = px_promises s" "px_shutdownRequested s1 = px_shutdownRequested s"
    by (auto simp: msNow_def)
  have "slot_of ?s2 ?c = Some sl" using sl by (simp add: slot_of_def s1)
  from waiting_modify [OF _ this, of ?f] dist
  have "mset (waiting ?s3) = add_mset (px_promises s) (mset (waiting s))"
    by (simp add: s1 waiting_def)
  then have "progress s ?s3"
    by (simp add: progress_def answered_def s1 atLeast0_lessThan_Suc) (simp add: modify_slot_def s1 atLeast0_lessThan_Suc)
  then show ?thesis unfolding e
    by (rule progress_trans [OF _ progress_trans [OF progress_emit progress_listen]])
qed

lemma acquire_progress:
  assumes ok: "proxy_ok s" and acq: "acquire rq s = Inr (a, s')"
  shows "progress s s'"
proof -
  let ?c = "rq_credentialId rq"
  let ?s = "ensureSlot ?c s"
  from acq have live: "\<not> px_shutdownRequested s"
    by (auto simp: acquire_def assertNotShutdown_def res_simps)
  note e = ensureSlot_ok [OF ok live, of ?c]
  from e(1) have d: "distinct (map sl_credentialId (px_slots ?s))"
    by (simp add: proxy_ok_def proxy_core_def)
  from e(2) obtain sl where sl: "slot_of ?s ?c = Some sl" by blast
  from acq live sl have "progress ?s s'"
    using enqueue_progress [OF d sl]
    by (auto simp: acquire_def assertNotShutdown_def res_simps Let_def intro: progress_admit
        split: if_splits prod.splits)
  then show ?thesis by (rule progress_trans [OF progress_ensureSlot])
qed

lemma remove_one_id:
  assumes "distinct (map qe_id q)" and "x \<in> set q"
  shows "mset (map qe_id q) = add_mset (qe_id x) (mset (map qe_id (filter (\<lambda>y. qe_id y \<noteq> qe_id x) q)))"
proof -
  from assms(2) obtain pre post where q: "q = pre @ x # post" by (meson split_list)
  with assms(1) have "filter (\<lambda>y. qe_id y \<noteq> qe_id x) pre = pre"
    "filter (\<lambda>y. qe_id y \<noteq> qe_id x) post = post"
    by (auto intro!: filter_True simp: image_iff)
  then show ?thesis unfolding q by simp
qed

text \<open>Promise numbers are never reused while the proxy runs.\<close>

definition promises_ok :: "proxy \<Rightarrow> bool" where
  "promises_ok s \<longleftrightarrow> mset (waiting s) + mset (answered s) = mset [0..<px_promises s]"

lemma progress_promises: "progress s s' \<Longrightarrow> promises_ok s \<Longrightarrow> promises_ok s'"
  by (simp add: progress_def promises_ok_def add.commute)

lemma promises_distinct:
  assumes "promises_ok s"
  shows "distinct (waiting s @ answered s)" and "set (waiting s @ answered s) = {0..<px_promises s}"
proof -
  from assms have m: "mset (waiting s @ answered s) = mset [0..<px_promises s]"
    by (simp add: promises_ok_def)
  from mset_eq_imp_distinct_iff [OF m] show "distinct (waiting s @ answered s)" by simp
  from mset_eq_setD [OF m] show "set (waiting s @ answered s) = {0..<px_promises s}" by simp
qed

lemma queue_distinct:
  assumes "promises_ok s" and "sl \<in> set (px_slots s)"
  shows "distinct (map qe_id (sl_queued sl))"
  using promises_distinct(1) [OF assms(1)] assms(2)
  by (auto simp: waiting_def distinct_concat_iff)

lemma cancelQueued_progress:
  assumes dist: "distinct (map sl_credentialId (px_slots s))" and ok: "promises_ok s"
  shows "progress s (cancelQueued c e s)"
proof (cases "slot_of s c")
  case (Some sl)
  let ?f = "\<lambda>sl'. sl'\<lparr>sl_queued := filter (\<lambda>x. qe_id x \<noteq> qe_id e) (sl_queued sl')\<rparr>"
  show ?thesis
  proof (cases "list_all (\<lambda>x. qe_id x \<noteq> qe_id e) (sl_queued sl)")
    case False
    then obtain x where x: "x \<in> set (sl_queued sl)" "qe_id x = qe_id e" by (auto simp: list_all_iff)
    from remove_one_id [OF queue_distinct [OF ok] x(1)] slot_of_member [OF Some] x(2)
    have q: "mset (map qe_id (sl_queued sl)) =
      add_mset (qe_id e) (mset (map qe_id (sl_queued (?f sl))))" by simp
    have "progress (modify_slot c ?f s) (emit (Request_cancelled Phase_queued) c (qe_attemptId e)
        (qe_nodeId e) (detachQueuedListener e (modify_slot c ?f s)))"
      unfolding detachQueuedListener_def by (rule progress_trans [OF progress_unlisten progress_emit])
    from progress_answer [OF dist Some, of ?f, OF _ q this] Some False
    show ?thesis by (simp add: cancelQueued_def)
  qed (simp add: cancelQueued_def Some)
qed (simp add: cancelQueued_def)

lemma reject_all_settles:
  "px_settled (reject_all es s) = px_settled s @ map (\<lambda>e. (qe_id e, Inl Shut_down)) es \<and>
   px_promises (reject_all es s) = px_promises s"
  by (induction es arbitrary: s) (simp_all add: settle_def detachQueuedListener_def unlisten_def)

lemma shutdown_slots_progress:
  assumes "distinct (map sl_credentialId (px_slots s))" and "distinct (map sl_credentialId sls)"
    and "\<And>sl. sl \<in> set sls \<Longrightarrow> slot_of s (sl_credentialId sl) = Some sl"
  shows "progress s (shutdown_slots sls s)"
  using assms
proof (induction sls arbitrary: s)
  case (Cons sl sls)
  let ?f = "\<lambda>x. x\<lparr>sl_pauseTimer := None, sl_queued := []\<rparr>"
  let ?m = "modify_slot (sl_credentialId sl) ?f s"
  let ?r = "reject_all (sl_queued sl) ?m"
  have rc: "same_core ?m ?r" by (rule reject_all_core)
  have ids: "map sl_credentialId (px_slots ?m) = map sl_credentialId (px_slots s)"
    by (rule modify_slot_ids) simp
  from Cons.prems(3) have sl: "slot_of s (sl_credentialId sl) = Some sl" by simp
  have w: "waiting ?r = waiting ?m" using rc by (simp add: same_core_def waiting_def)
  have "px_promises ?m = px_promises s" by (simp add: modify_slot_def)
  with waiting_modify [OF Cons.prems(1) sl, of ?f] reject_all_settles [of "sl_queued sl" ?m] rc
  have "progress s ?r"
    by (simp add: progress_def w answered_def same_core_def comp_def)
  moreover have "progress ?r (shutdown_slots sls ?r)"
  proof (rule Cons.IH)
    show "distinct (map sl_credentialId (px_slots ?r))" "distinct (map sl_credentialId sls)"
      using rc ids Cons.prems(1,2) by (simp_all add: same_core_def)
    fix x assume x: "x \<in> set sls"
    with Cons.prems(2) have "sl_credentialId x \<noteq> sl_credentialId sl" by (auto simp: image_iff)
    with Cons.prems(3) x show "slot_of ?r (sl_credentialId x) = Some x"
      by (simp add: same_core_slot_of [OF rc] slot_of_modify)
  qed
  ultimately show ?case by (simp add: progress_trans [of s ?r])
qed simp

lemma shutdown_progress:
  assumes "proxy_core s"
  shows "progress s (shutdown s)"
proof (cases "px_shutdownRequested s")
  case False
  have "progress s (s\<lparr>px_shutdownRequested := True\<rparr>)"
    by (simp add: progress_def waiting_def answered_def)
  moreover have "progress (s\<lparr>px_shutdownRequested := True\<rparr>)
      (shutdown_slots (px_slots s) (s\<lparr>px_shutdownRequested := True\<rparr>))"
    by (rule shutdown_slots_progress)
      (use core_distinct [OF assms] slot_of_unique [OF assms] in \<open>auto simp: slot_of_def\<close>)
  ultimately show ?thesis using False by (simp add: shutdown_def progress_trans [of s])
qed (simp add: shutdown_def)

lemma fire_listeners_progress:
  "proxy_ok s \<Longrightarrow> promises_ok s \<Longrightarrow> fire_listeners ls s = Inr s' \<Longrightarrow> progress s s'"
proof (induction ls arbitrary: s)
  case (Cons l ls)
  show ?case
  proof (cases "l \<in> set (px_listeners s)")
    case True
    let ?s = "s\<lparr>px_listeners := remove1 l (px_listeners s)\<rparr>"
    have sc: "same_core s ?s" by (rule drop_listener_core)
    have ok: "proxy_ok ?s" by (rule same_core_ok [OF sc Cons.prems(1)])
    have p0: "progress s ?s" by (rule progress_frame) simp_all
    from True Cons.prems(3) obtain m where m: "fire_listener (snd l) ?s = Inr m"
      "fire_listeners ls m = Inr s'" by (auto simp: res_simps)
    from ok have d: "distinct (map sl_credentialId (px_slots ?s))"
      by (simp add: proxy_ok_def proxy_core_def)
    have "progress ?s m \<and> proxy_ok m"
    proof (cases "snd l")
      case (Cancel_permit p)
      with m(1) finish_progress [OF d] finish_ok [OF ok] show ?thesis by auto
    next
      case (Cancel_queued c e)
      with m(1) cancelQueued_progress [OF d progress_promises [OF p0 Cons.prems(2)]]
        cancelQueued_ok [OF ok] show ?thesis by auto
    qed
    with Cons.IH m(2) progress_trans [OF p0] progress_promises Cons.prems(2)
    show ?thesis by (meson progress_trans)
  next
    case False
    with Cons show ?thesis by simp
  qed
qed simp

section \<open>The proxy as a machine\<close>

datatype proxy_op =
    Acquire_op admission_request | Release_op admission_permit "admission_result option"
  | Pause_op string "number option" quota_signal | Resume_op string
  | Timer_op string | Abort_op nat | Shutdown_op

fun proxy_step :: "proxy \<Rightarrow> proxy_op \<Rightarrow> admission_error + proxy" where
  "proxy_step s (Acquire_op rq) = bindE (acquire rq s) (\<lambda>(a, s'). Inr s')"
| "proxy_step s (Release_op p r) = release p r s"
| "proxy_step s (Pause_op c n q) = pauseCredential c n q s"
| "proxy_step s (Resume_op c) = resumeCredential c s"
| "proxy_step s (Timer_op c) = Inr (timer_fires c s)"
| "proxy_step s (Abort_op i) = abort_signal i s"
| "proxy_step s Shutdown_op = Inr (shutdown s)"

definition proxy_inv :: "proxy \<Rightarrow> bool" where
  "proxy_inv s \<longleftrightarrow> proxy_ok s \<and> promises_ok s"

lemma proxy_step_Inr:
  assumes inv: "proxy_inv s" and step: "proxy_step s i = Inr s'"
  shows "proxy_ok s' \<and> progress s s'"
proof -
  from inv have ok: "proxy_ok s" and pr: "promises_ok s" and core: "proxy_core s"
    by (auto simp: proxy_inv_def proxy_ok_def)
  note d = core_distinct [OF core]
  show ?thesis
  proof (cases i)
    case (Acquire_op rq)
    with step acquire_ok [OF ok] acquire_progress [OF ok] show ?thesis by (auto simp: res_simps)
  next
    case (Release_op p r)
    with step finish_ok [OF ok] finish_progress [OF d] show ?thesis by (auto simp: release_def)
  next
    case (Pause_op c n q)
    with step ok show ?thesis
      by (auto simp: pauseCredential_def assertNotShutdown_def res_simps
          intro: pauseSlot_ok ensureSlot_ok progress_trans [OF progress_ensureSlot progress_pauseSlot])
  next
    case (Resume_op c)
    with step ok d show ?thesis
      by (auto simp: resumeCredential_def assertNotShutdown_def res_simps
          intro: resumeSlot_ok resumeSlot_progress split: option.splits)
  next
    case (Timer_op c)
    with step ok d show ?thesis
      by (auto simp: timer_fires_def intro: resumeSlot_ok resumeSlot_progress split: option.splits)
  next
    case (Abort_op n)
    show ?thesis
    proof (cases "n \<in> set (px_aborted s)")
      case True
      with Abort_op step ok show ?thesis by (simp add: abort_signal_def)
    next
      case False
      let ?s = "s\<lparr>px_aborted := n # px_aborted s\<rparr>"
      have p0: "progress s ?s" by (rule progress_frame) simp_all
      have "proxy_ok ?s" by (rule aborted_ok [OF ok])
      from fire_listeners_progress [OF this progress_promises [OF p0 pr]] abort_signal_ok [OF ok, of n]
        False Abort_op step progress_trans [OF p0]
      show ?thesis by (auto simp: abort_signal_def)
    qed
  next
    case Shutdown_op
    with step shutdown_ok [OF ok] shutdown_progress [OF core] show ?thesis by auto
  qed
qed

interpretation admission: guarded_machine proxy_step proxy_inv progress
proof unfold_locales
  fix s i s' assume "proxy_inv s" "proxy_step s i = Inr s'"
  with proxy_step_Inr [OF this] show "proxy_inv s'"
    by (auto simp: proxy_inv_def dest: progress_promises)
qed (auto dest: proxy_step_Inr intro: progress_trans)

section \<open>The queue is served in order\<close>

lemma pump_loop_order:
  assumes "slot_of s c = Some sl" and "sl_queued sl = es"
  shows "\<exists>k sl'. slot_of (pump_loop es c s) c = Some sl' \<and> sl_queued sl' = drop k es \<and>
    (\<exists>more. px_settled (pump_loop es c s) = px_settled s @ more \<and>
       map fst more = map qe_id (take k es))"
  using assms
proof (induction es arbitrary: s sl)
  case Nil
  then show ?case by auto
next
  case (Cons e es)
  let ?f = "\<lambda>sl. sl\<lparr>sl_queued := es\<rparr>"
  let ?s1 = "detachQueuedListener e (modify_slot c ?f s)"
  have sc: "same_core (modify_slot c ?f s) ?s1" by (rule detach_core)
  have sl1: "slot_of ?s1 c = Some (?f sl)"
    by (simp add: same_core_slot_of [OF sc] slot_of_modify Cons.prems(1))
  have st1: "px_settled ?s1 = px_settled s"
    by (simp add: detachQueuedListener_def unlisten_def)
  show ?case
  proof (cases "\<not> sl_paused sl \<and> sl_inFlight sl < sl_limit sl")
    case False
    then have "pump_loop (e # es) c s = s" by (auto simp: Cons.prems(1))
    with Cons.prems show ?thesis by (intro exI [of _ 0]) auto
  next
    case room: True
    have step: ?thesis if s2: "slot_of s2 c = Some x" "sl_queued x = es"
      "pump_loop (e # es) c s = pump_loop es c s2"
      "px_settled s2 = px_settled s @ [(qe_id e, r)]" for s2 x r
    proof -
      from Cons.IH [OF s2(1,2)] obtain k sl' more where
        "slot_of (pump_loop es c s2) c = Some sl'" "sl_queued sl' = drop k es"
        "px_settled (pump_loop es c s2) = px_settled s2 @ more"
        "map fst more = map qe_id (take k es)" by blast
      with s2 show ?thesis
        by (intro exI [of _ "Suc k"] exI [of _ sl'] conjI exI [of _ "(qe_id e, r) # more"]) simp_all
    qed
    show ?thesis
    proof (cases "is_aborted ?s1 (qe_signal e)")
      case True
      let ?s3 = "settle (qe_id e) (Inl Cancelled_request)
        (emit (Request_cancelled Phase_queued) c (qe_attemptId e) (qe_nodeId e) ?s1)"
      have "same_core ?s1 ?s3" by (rule same_core_trans [OF emit_core settle_core])
      then have "slot_of ?s3 c = Some (?f sl)" using sl1 by (simp add: same_core_slot_of)
      then show ?thesis
        by (rule step) (use True room Cons.prems(1) st1 in \<open>simp_all add: Let_def settle_def\<close>)
    next
      case False
      obtain p s2 where a: "admit c (qe_attemptId e) (qe_nodeId e) (qe_signal e) ?s1 = (p, s2)"
        by fastforce
      obtain t s3 where t: "msNow s2 = (t, s3)" by fastforce
      let ?g = "\<lambda>sl. sl\<lparr>sl_inFlight := sl_inFlight sl + 1\<rparr>"
      let ?s4 = "settle (qe_id e) (Inr \<lparr>ar_permit = p, ar_queued = True,
                ar_queuedForMs = t - qe_enqueuedAtMs e\<rparr>) s3"
      have sc4: "same_core s2 ?s4" by (rule same_core_trans [OF msNow_core [OF t] settle_core])
      have "slot_of ?s4 c = Some (?g (?f sl))"
        using slot_of_modify [of ?g c ?s1 c] sl1
        by (simp add: same_core_slot_of [OF sc4]) (simp add: slot_of_def admit_frame(1) [OF a])
      then show ?thesis
        by (rule step) (use False room Cons.prems(1) st1 a t admit_frame(5) [OF a]
          in \<open>auto simp add: Let_def settle_def msNow_def\<close>)
    qed
  qed
qed

section \<open>A concrete run\<close>

definition samplePolicy :: admission_policy where
  "samplePolicy = defaultAdmissionPolicy"

definition sampleProxy :: proxy where
  "sampleProxy = proxy_new samplePolicy (\<lambda>k. 5000 + int k) (Some 2) None None"

definition sampleRequest :: "string \<Rightarrow> nat option \<Rightarrow> admission_request" where
  "sampleRequest aid sig = \<lparr>rq_credentialId = ''cred'', rq_attemptId = aid, rq_nodeId = None,
     rq_signal = sig\<rparr>"

definition samplePermit :: admission_permit where
  "samplePermit = \<lparr>pm_credentialId = ''cred'', pm_attemptId = ''a1'', pm_sequence = 1,
     pm_acquiredAtMs = 5000, pm_nodeId = None\<rparr>"

definition sampleLimited :: admission_result where
  "sampleLimited = \<lparr>rs_statusCode = number_of_int 429, rs_headers = [(''Retry-After'', ''7'')],
     rs_body = Body_absent, rs_retryAfterMs = None, rs_inputTokens = Some 10, rs_outputTokens = None\<rparr>"

text \<open>Three requests on one credential, the second of which is aborted while it waits; the first
  is answered with a rate limit.\<close>

definition sampleTraffic :: "proxy_op list" where
  "sampleTraffic = [Acquire_op (sampleRequest ''a1'' None), Acquire_op (sampleRequest ''a2'' (Some 3)),
     Acquire_op (sampleRequest ''a3'' None), Abort_op 3, Release_op samplePermit (Some sampleLimited)]"

definition busyProxy :: proxy where
  "busyProxy = projr (run_machine proxy_step sampleProxy sampleTraffic)"

lemma sampleProxy_inv: "proxy_inv sampleProxy"
  using proxy_new_ok [OF default_policy_ok, of None]
  by (simp add: proxy_inv_def sampleProxy_def samplePolicy_def)
     (simp add: promises_ok_def waiting_def answered_def proxy_new_def)

lemma busyProxy_run: "run_machine proxy_step sampleProxy sampleTraffic = Inr busyProxy"
  unfolding busyProxy_def by (rule Inr_projr) code_simp

section \<open>Properties\<close>



text \<open>C20: No lost wake-up and no indefinite pause: in every state the proxy reaches before
  shutdown, a credential with waiting requests is paused or has all its permits in use, and a
  paused credential has an armed timer whose delay the runtime honours (at most 2147483647 ms).\<close>

theorem waiting_means_busy_or_paused:
  assumes "proxy_inv s0" and "run_machine proxy_step s0 ops = Inr s" and "sl \<in> set (px_slots s)"
    and "\<not> px_shutdownRequested s"
  shows "(sl_queued sl \<noteq> [] \<longrightarrow> sl_paused sl \<or> held s (sl_credentialId sl) = sl_limit sl) \<and>
    (sl_paused sl \<longrightarrow> (\<exists>d. sl_pauseTimer sl = Some (JsNum d) \<and> d \<le> 2147483647))"
  using admission.run_inv [OF assms(1,2)] assms(3,4)
  by (fastforce simp: proxy_inv_def proxy_ok_def proxy_core_def slot_core_def no_idle_wait_def
      timer_ok_def)

theorem waiting_means_busy_or_paused_witness:
  "\<exists>sl\<in>set (px_slots busyProxy). \<exists>d. sl_pauseTimer sl = Some (JsNum d) \<and> d \<le> 2147483647"
proof -
  have sl: "px_slots busyProxy \<noteq> []" "sl_paused (hd (px_slots busyProxy))"
    "\<not> px_shutdownRequested busyProxy" by code_simp+
  then have "hd (px_slots busyProxy) \<in> set (px_slots busyProxy)" by simp
  with waiting_means_busy_or_paused [OF sampleProxy_inv busyProxy_run this sl(3)] sl(2)
  show ?thesis by blast
qed

text \<open>C21: Every queued request is answered exactly once: the promises handed out are, without
  repetition, those still waiting in a queue and those already settled, and no answer is ever
  withdrawn or given twice.\<close>

theorem waiters_answered_once:
  assumes "proxy_inv s0" and "run_machine proxy_step s0 ops = Inr s"
  shows "distinct (waiting s @ answered s) \<and> set (waiting s @ answered s) = {0..<px_promises s} \<and>
    (\<exists>more. px_settled s = px_settled s0 @ more)"
  using admission.run_inv [OF assms] admission.run_rel [OF assms] promises_distinct [of s]
  by (simp add: proxy_inv_def progress_def)

theorem waiters_answered_once_witness: "distinct (waiting busyProxy @ answered busyProxy)"
  using waiters_answered_once [OF sampleProxy_inv busyProxy_run] by blast

text \<open>C22: An abort never fails: the cancellation listeners that an abort signal runs find their
  permit still held or their queued request still waiting, so none throws.\<close>

theorem abort_never_throws:
  assumes "proxy_inv s0" and "run_machine proxy_step s0 ops = Inr s"
  shows "\<exists>s'. abort_signal i s = Inr s'"
  using admission.run_inv [OF assms] abort_signal_ok [of s i] by (auto simp: proxy_inv_def)

theorem abort_never_throws_witness: "\<exists>s'. abort_signal 9 busyProxy = Inr s'"
  by (rule abort_never_throws [OF sampleProxy_inv busyProxy_run])


text \<open>Waiting requests are served first come first served: pumping a credential answers a
  prefix of its queue, in queue order, and leaves the rest queued; and a new request is admitted
  at once only when nobody waits, the credential is not paused and a permit is free.\<close>

theorem queue_served_in_order:
  assumes "slot_of s c = Some sl" and "\<not> px_shutdownRequested s"
  shows "(\<exists>k sl' more. slot_of (pump c s) c = Some sl' \<and> sl_queued sl' = drop k (sl_queued sl) \<and>
      px_settled (pump c s) = px_settled s @ more \<and>
      map fst more = map qe_id (take k (sl_queued sl))) \<and>
    (\<forall>rq r s'. rq_credentialId rq = c \<longrightarrow> acquire rq s = Inr (Admitted r, s') \<longrightarrow>
      sl_queued sl = [] \<and> \<not> sl_paused sl \<and> sl_inFlight sl < sl_limit sl)"
proof (intro conjI allI impI)
  from pump_loop_order [OF assms(1) refl] assms
  show "\<exists>k sl' more. slot_of (pump c s) c = Some sl' \<and> sl_queued sl' = drop k (sl_queued sl) \<and>
      px_settled (pump c s) = px_settled s @ more \<and> map fst more = map qe_id (take k (sl_queued sl))"
    by (auto simp: pump_def)
next
  fix rq r s' assume rq: "rq_credentialId rq = c" and acq: "acquire rq s = Inr (Admitted r, s')"
  from assms(1) rq have "ensureSlot c s = s" by (simp add: ensureSlot_def)
  with acq rq assms show "sl_queued sl = []" "\<not> sl_paused sl" "sl_inFlight sl < sl_limit sl"
    by (auto simp: acquire_def res_simps Let_def split: if_splits prod.splits)
qed

theorem queue_served_in_order_witness:
  "\<exists>sl k sl' more. slot_of busyProxy ''cred'' = Some sl \<and>
     slot_of (pump ''cred'' busyProxy) ''cred'' = Some sl' \<and>
     sl_queued sl' = drop k (sl_queued sl) \<and>
     px_settled (pump ''cred'' busyProxy) = px_settled busyProxy @ more"
proof -
  have live: "\<not> px_shutdownRequested busyProxy" by code_simp
  have "\<not> Option.is_none (slot_of busyProxy ''cred'')" by code_simp
  then obtain sl where "slot_of busyProxy ''cred'' = Some sl" by (auto simp: Option.is_none_def)
  from queue_served_in_order [OF this live] this show ?thesis by blast
qed

text \<open>
  The exception to idempotent release: once more than \<open>permitPruneThreshold\<close> permits are on
  record, pruning forgets the oldest released ones, a permit that an abort gave back included,
  although its holder has still to call \<open>release\<close>; that call then fails.
\<close>

lemma pruned_cancelled_permit_leaks:
  assumes "px_permits s = r # rs" and "pr_released r" and "permitPruneThreshold < int (length (r # rs))"
    and "pr_sequence r \<notin> pr_sequence ` set rs" and "pm_sequence p = pr_sequence r"
  shows "finish p By_release result (pruneReleasedPermits s) = Inl Permit_leaked"
    and "pr_releasedBy r = Some By_cancel \<Longrightarrow> finish p By_release result s \<noteq> Inl Permit_leaked"
proof -
  have sub: "set (prune_loop n xs) \<subseteq> set xs" for n xs
    by (induction n xs rule: prune_loop.induct) auto
  from assms(1,2,3) have "px_permits (pruneReleasedPermits s) = prune_loop (int (length rs)) rs"
    by (simp add: pruneReleasedPermits_def)
  with sub [of "int (length rs)" rs] assms(4,5)
  have "find_first (\<lambda>x. pr_sequence x = pm_sequence p) (px_permits (pruneReleasedPermits s)) = None"
    by (simp add: find_first_None_iff) (metis image_eqI subsetD)
  then show "finish p By_release result (pruneReleasedPermits s) = Inl Permit_leaked"
    by (simp add: finish_def)
  show "finish p By_release result s \<noteq> Inl Permit_leaked" if "pr_releasedBy r = Some By_cancel"
    using assms that by (simp add: finish_def)
qed

end
