(* ===== verification/Vcs_Binding.thy ===== *)
theory Vcs_Binding
  imports Value_Objects
begin

text \<open>
  \<^verbatim>\<open>packages/core/src/vcs-change-binding.ts\<close>, its store
  \<^verbatim>\<open>packages/adapters/src/sqlite/vcs-change-binding-store.ts\<close> and the table of migration
  \<^verbatim>\<open>host/0013_vcs_change_bindings.sql\<close>: the binding of a node to its change, its rows, and the reads
  and writes of the store. The table is the list of its rows in the order they were inserted; a write
  is one transaction that the constraints and triggers of the table accept or abort. A rewrite
  generation and a time are integers, of which the validator checks the range.
\<close>

section \<open>Bindings\<close>

datatype conflict_state = Clean | Conflict | Resolved

record vcs_binding =
  vb_treeId :: string
  vb_nodeId :: string
  vb_jjChangeId :: string
  vb_currentCommitId :: string
  vb_parentChangeId :: "string option"
  vb_bookmark :: "string option"
  vb_rewriteGeneration :: int
  vb_lastJjOperationId :: string
  vb_lastPushedCommitId :: "string option"
  vb_lastReviewedCommitId :: "string option"
  vb_conflictState :: conflict_state
  vb_recordedAt :: int

datatype binding_store_error = Binding_invalid_input | Binding_write_failed | Binding_corrupt
  | Orphan_binding | Duplicate_binding | Binding_value domain_error_code

text \<open>\<open>VALID_CONFLICT_TRANSITIONS\<close> as the rows of its table.\<close>

fun VALID_CONFLICT_TRANSITIONS :: "conflict_state \<Rightarrow> conflict_state list" where
  "VALID_CONFLICT_TRANSITIONS Clean = [Clean, Conflict]"
| "VALID_CONFLICT_TRANSITIONS Conflict = [Clean, Conflict, Resolved]"
| "VALID_CONFLICT_TRANSITIONS Resolved = [Clean, Resolved]"

definition isValidConflictTransition :: "conflict_state \<Rightarrow> conflict_state \<Rightarrow> bool" where
  "isValidConflictTransition from to \<longleftrightarrow> to \<in> set (VALID_CONFLICT_TRANSITIONS from)"

definition present_ok :: "(string \<Rightarrow> string checked) \<Rightarrow> string option \<Rightarrow> bool" where
  "present_ok parse v = (case v of None \<Rightarrow> True | Some s \<Rightarrow> is_ok (parse s))"

text \<open>Any of its errors is wrapped by the store, so they are not told apart.\<close>

definition validateVcsChangeBinding :: "vcs_binding \<Rightarrow> unit + unit" where
  "validateVcsChangeBinding b =
     bindE (guardE (is_ok (taskTreeId (vb_treeId b))) ()) (\<lambda>_.
     bindE (guardE (is_ok (taskNodeId (vb_nodeId b))) ()) (\<lambda>_.
     bindE (guardE (is_ok (contentHash (vb_jjChangeId b))) ()) (\<lambda>_.
     bindE (guardE (is_ok (gitSha (vb_currentCommitId b))) ()) (\<lambda>_.
     bindE (guardE (present_ok contentHash (vb_parentChangeId b)) ()) (\<lambda>_.
     bindE (guardE (vb_bookmark b \<noteq> Some []) ()) (\<lambda>_.
     bindE (guardE (safe_int (vb_rewriteGeneration b) \<and> \<not> vb_rewriteGeneration b < 0) ()) (\<lambda>_.
     bindE (guardE (is_ok (contentHash (vb_lastJjOperationId b))) ()) (\<lambda>_.
     bindE (guardE (present_ok gitSha (vb_lastPushedCommitId b)) ()) (\<lambda>_.
     bindE (guardE (present_ok gitSha (vb_lastReviewedCommitId b)) ()) (\<lambda>_.
     guardE (safe_int (vb_recordedAt b) \<and> \<not> vb_recordedAt b < 0) ()))))))))))"

fun state_name :: "conflict_state \<Rightarrow> string" where
  "state_name Clean = ''clean''"
| "state_name Conflict = ''conflict''"
| "state_name Resolved = ''resolved''"

section \<open>Rows\<close>

datatype sql_value = SNull | SText string | SInt int

type_synonym sql_row = "(string \<times> sql_value) list"

definition sql_text :: "string option \<Rightarrow> sql_value" where
  "sql_text v = (case v of None \<Rightarrow> SNull | Some s \<Rightarrow> SText s)"

text \<open>The parameters of the upsert, named by the columns they are bound to.\<close>

definition row_of :: "vcs_binding \<Rightarrow> sql_row" where
  "row_of b =
     [(''tree_id'', SText (vb_treeId b)), (''node_id'', SText (vb_nodeId b)),
      (''jj_change_id'', SText (vb_jjChangeId b)), (''current_commit_id'', SText (vb_currentCommitId b)),
      (''parent_change_id'', sql_text (vb_parentChangeId b)), (''bookmark'', sql_text (vb_bookmark b)),
      (''rewrite_generation'', SInt (vb_rewriteGeneration b)),
      (''last_jj_operation_id'', SText (vb_lastJjOperationId b)),
      (''last_pushed_commit_id'', sql_text (vb_lastPushedCommitId b)),
      (''last_reviewed_commit_id'', sql_text (vb_lastReviewedCommitId b)),
      (''conflict_state'', SText (state_name (vb_conflictState b))),
      (''recorded_at_ms'', SInt (vb_recordedAt b))]"

definition requiredString :: "sql_row \<Rightarrow> string \<Rightarrow> binding_store_error + string" where
  "requiredString row key = (case map_of row key of
      Some (SText s) \<Rightarrow> if length s = 0 then Inl Binding_corrupt else Inr s
    | _ \<Rightarrow> Inl Binding_corrupt)"

definition nullableString :: "sql_row \<Rightarrow> string \<Rightarrow> binding_store_error + string option" where
  "nullableString row key = (case map_of row key of
      None \<Rightarrow> Inr None
    | Some SNull \<Rightarrow> Inr None
    | Some (SText s) \<Rightarrow> if length s = 0 then Inl Binding_corrupt else Inr (Some s)
    | Some (SInt _) \<Rightarrow> Inl Binding_corrupt)"

definition toSafeNumber :: "sql_row \<Rightarrow> string \<Rightarrow> binding_store_error + int" where
  "toSafeNumber row key = (case map_of row key of
      Some (SInt i) \<Rightarrow> if \<not> safe_int i then Inl Binding_corrupt else Inr i
    | _ \<Rightarrow> Inl Binding_corrupt)"

definition conflictStateFromValue :: "string \<Rightarrow> binding_store_error + conflict_state" where
  "conflictStateFromValue v =
     (if v = ''clean'' then Inr Clean else if v = ''conflict'' then Inr Conflict
      else if v = ''resolved'' then Inr Resolved else Inl Binding_corrupt)"

definition parsed :: "'a checked \<Rightarrow> binding_store_error + 'a" where
  "parsed m = (case m of Inl e \<Rightarrow> Inl (Binding_value e) | Inr x \<Rightarrow> Inr x)"

definition parsed_if :: "(string \<Rightarrow> string checked) \<Rightarrow> string option \<Rightarrow> binding_store_error + string option" where
  "parsed_if parse v = (case v of None \<Rightarrow> Inr None
    | Some s \<Rightarrow> bindE (parsed (parse s)) (\<lambda>x. Inr (Some x)))"

definition readBinding :: "sql_row \<Rightarrow> binding_store_error + vcs_binding" where
  "readBinding row =
     bindE (requiredString row ''conflict_state'') (\<lambda>conflictValue.
     bindE (conflictStateFromValue conflictValue) (\<lambda>conflictState.
     bindE (nullableString row ''parent_change_id'') (\<lambda>parentChangeId.
     bindE (nullableString row ''bookmark'') (\<lambda>bookmark.
     bindE (nullableString row ''last_pushed_commit_id'') (\<lambda>lastPushed.
     bindE (nullableString row ''last_reviewed_commit_id'') (\<lambda>lastReviewed.
     bindE (requiredString row ''tree_id'') (\<lambda>tree. bindE (parsed (taskTreeId tree)) (\<lambda>treeId.
     bindE (requiredString row ''node_id'') (\<lambda>node. bindE (parsed (taskNodeId node)) (\<lambda>nodeId.
     bindE (requiredString row ''jj_change_id'') (\<lambda>change. bindE (parsed (contentHash change)) (\<lambda>changeId.
     bindE (requiredString row ''current_commit_id'') (\<lambda>commit. bindE (parsed (gitSha commit)) (\<lambda>commitId.
     bindE (parsed_if contentHash parentChangeId) (\<lambda>parent.
     bindE (toSafeNumber row ''rewrite_generation'') (\<lambda>generation.
     bindE (requiredString row ''last_jj_operation_id'') (\<lambda>operation.
     bindE (parsed (contentHash operation)) (\<lambda>operationId.
     bindE (parsed_if gitSha lastPushed) (\<lambda>pushed.
     bindE (parsed_if gitSha lastReviewed) (\<lambda>reviewed.
     bindE (toSafeNumber row ''recorded_at_ms'') (\<lambda>recorded.
     bindE (parsed (timestampFromEpochMilliseconds (number_of_int recorded))) (\<lambda>recordedAt.
     Inr \<lparr>vb_treeId = treeId, vb_nodeId = nodeId, vb_jjChangeId = changeId,
          vb_currentCommitId = commitId, vb_parentChangeId = parent, vb_bookmark = bookmark,
          vb_rewriteGeneration = generation, vb_lastJjOperationId = operationId,
          vb_lastPushedCommitId = pushed, vb_lastReviewedCommitId = reviewed,
          vb_conflictState = conflictState, vb_recordedAt = recordedAt\<rparr>))))))))))))))))))))))"

section \<open>The table\<close>

definition col :: "sql_row \<Rightarrow> string \<Rightarrow> sql_value" where
  "col row key = (case map_of row key of None \<Rightarrow> SNull | Some v \<Rightarrow> v)"

definition row_key :: "sql_row \<Rightarrow> sql_value \<times> sql_value" where
  "row_key row = (col row ''tree_id'', col row ''node_id'')"

fun hex_text :: "nat list \<Rightarrow> sql_value \<Rightarrow> bool" where
  "hex_text lengths (SText s) = (length s \<in> set lengths \<and> list_all hex_digit s)"
| "hex_text lengths _ = False"

fun sql_length :: "sql_value \<Rightarrow> nat" where
  "sql_length (SText s) = length s"
| "sql_length _ = 0"

text \<open>The \<open>CHECK\<close> constraints of the table.\<close>

definition row_allowed :: "sql_row \<Rightarrow> bool" where
  "row_allowed row \<longleftrightarrow> sql_length (col row ''tree_id'') = 36 \<and> sql_length (col row ''node_id'') = 36 \<and>
     hex_text [64] (col row ''jj_change_id'') \<and> hex_text [40, 64] (col row ''current_commit_id'') \<and>
     (col row ''parent_change_id'' = SNull \<or> hex_text [64] (col row ''parent_change_id'')) \<and>
     (col row ''bookmark'' = SNull \<or> sql_length (col row ''bookmark'') > 0) \<and>
     (case col row ''rewrite_generation'' of SInt g \<Rightarrow> g \<ge> 0 | _ \<Rightarrow> False) \<and>
     hex_text [64] (col row ''last_jj_operation_id'') \<and>
     (col row ''last_pushed_commit_id'' = SNull \<or> hex_text [40, 64] (col row ''last_pushed_commit_id'')) \<and>
     (col row ''last_reviewed_commit_id'' = SNull \<or> hex_text [40, 64] (col row ''last_reviewed_commit_id'')) \<and>
     col row ''conflict_state'' \<in> {SText ''clean'', SText ''conflict'', SText ''resolved''} \<and>
     (case col row ''recorded_at_ms'' of SInt t \<Rightarrow> t \<ge> 0 | _ \<Rightarrow> False)"

fun generation_of :: "sql_row \<Rightarrow> int" where
  "generation_of row = (case col row ''rewrite_generation'' of SInt g \<Rightarrow> g | _ \<Rightarrow> 0)"

text \<open>
  The upsert. A row with the key of the new one is updated in place, unless the trigger
  \<open>rewrite_is_monotonic\<close> aborts; \<open>None\<close> is an aborted transaction.
\<close>

fun upsert_row :: "sql_row \<Rightarrow> sql_row list \<Rightarrow> sql_row list option" where
  "upsert_row new [] = (if row_allowed new then Some [new] else None)"
| "upsert_row new (row # rows) =
     (if row_key row = row_key new
      then (if \<not> row_allowed new \<or> generation_of new < generation_of row then None else Some (new # rows))
      else map_option ((#) row) (upsert_row new rows))"

text \<open>The write; \<open>up\<close> says whether the database runs the transaction at all.\<close>

definition upsertBinding :: "bool \<Rightarrow> vcs_binding \<Rightarrow> sql_row list \<Rightarrow> binding_store_error + sql_row list" where
  "upsertBinding up b table = (case validateVcsChangeBinding b of
      Inl _ \<Rightarrow> Inl Binding_invalid_input
    | Inr _ \<Rightarrow> if \<not> up then Inl Binding_write_failed
        else (case upsert_row (row_of b) table of
          None \<Rightarrow> Inl Binding_write_failed
        | Some table' \<Rightarrow> Inr table'))"

definition select_first :: "(sql_row \<Rightarrow> bool) \<Rightarrow> sql_row list \<Rightarrow> binding_store_error + vcs_binding option" where
  "select_first p table = (case find_first p table of
      None \<Rightarrow> Inr None
    | Some row \<Rightarrow> bindE (readBinding row) (\<lambda>b. Inr (Some b)))"

definition getBinding :: "string \<Rightarrow> string \<Rightarrow> sql_row list \<Rightarrow> binding_store_error + vcs_binding option" where
  "getBinding tree node table = select_first (\<lambda>row. row_key row = (SText tree, SText node)) table"

definition getByChangeId :: "string \<Rightarrow> string \<Rightarrow> sql_row list \<Rightarrow> binding_store_error + vcs_binding option" where
  "getByChangeId tree change table =
     select_first (\<lambda>row. col row ''tree_id'' = SText tree \<and> col row ''jj_change_id'' = SText change) table"

fun text_of :: "sql_value \<Rightarrow> string" where
  "text_of (SText s) = s"
| "text_of _ = []"

definition rows_of_tree :: "string \<Rightarrow> sql_row list \<Rightarrow> sql_row list" where
  "rows_of_tree tree table = filter (\<lambda>row. col row ''tree_id'' = SText tree) table"

definition listForTree :: "string \<Rightarrow> sql_row list \<Rightarrow> binding_store_error + vcs_binding list" where
  "listForTree tree table =
     mapE readBinding (sort_key (\<lambda>row. text_of (col row ''node_id'')) (rows_of_tree tree table))"

definition assertNoOrphans :: "string \<Rightarrow> string list \<Rightarrow> sql_row list \<Rightarrow> binding_store_error + unit" where
  "assertNoOrphans tree known table =
     bindE (mapE (\<lambda>row. requiredString row ''node_id'') (rows_of_tree tree table)) (\<lambda>nodes.
     guardE (list_all (\<lambda>n. n \<in> set known) nodes) Orphan_binding)"

definition assertNoDuplicates :: "string \<Rightarrow> sql_row list \<Rightarrow> binding_store_error + unit" where
  "assertNoDuplicates tree table =
     (let rows = rows_of_tree tree table; nodes = map (\<lambda>row. col row ''node_id'') rows in
      bindE (guardE (distinct nodes) Duplicate_binding) (\<lambda>_.
      guardE (list_all (\<lambda>row. list_all (\<lambda>other. col other ''jj_change_id'' = col row ''jj_change_id'' \<longrightarrow>
        col other ''node_id'' = col row ''node_id'') rows) rows) Duplicate_binding))"

section \<open>The contract of a binding store\<close>

text \<open>
  \<open>VcsChangeBindingStore\<close>, as far as its clients rely on it: what a lookup returns after an upsert, and
  that a generation never goes back.
\<close>

locale binding_store =
  fixes upsert :: "vcs_binding \<Rightarrow> 's \<Rightarrow> 'e + 's"
    and get :: "string \<Rightarrow> string \<Rightarrow> 's \<Rightarrow> 'e + vcs_binding option"
    and inv :: "'s \<Rightarrow> bool"
  assumes upsert_inv: "inv s \<Longrightarrow> upsert b s = Inr s' \<Longrightarrow> inv s'"
    and get_total: "inv s \<Longrightarrow> is_ok (get t n s)"
    and get_upsert: "inv s \<Longrightarrow> upsert b s = Inr s' \<Longrightarrow>
      get t n s' = (if t = vb_treeId b \<and> n = vb_nodeId b then Inr (Some b) else get t n s)"
    and upsert_monotone: "inv s \<Longrightarrow> upsert b s = Inr s' \<Longrightarrow>
      get (vb_treeId b) (vb_nodeId b) s = Inr (Some old) \<Longrightarrow> vb_rewriteGeneration old \<le> vb_rewriteGeneration b"
begin

lemma run_inv: "inv s \<Longrightarrow> run_machine (\<lambda>s b. upsert b s) s bs = Inr s' \<Longrightarrow> inv s'"
  by (induction bs arbitrary: s) (auto simp: res_simps intro: upsert_inv)

text \<open>The last accepted write of a key is what is read.\<close>

lemma last_write_wins:
  "inv s \<Longrightarrow> run_machine (\<lambda>s b. upsert b s) s bs = Inr s' \<Longrightarrow>
     get t n s' = (case find_first (\<lambda>b. vb_treeId b = t \<and> vb_nodeId b = n) (rev bs) of
       Some b \<Rightarrow> Inr (Some b) | None \<Rightarrow> get t n s)"
proof (induction bs arbitrary: s)
  case (Cons b bs)
  obtain s1 where s1: "upsert b s = Inr s1" "run_machine (\<lambda>s b. upsert b s) s1 bs = Inr s'"
    using Cons.prems(2) by (auto simp: res_simps)
  show ?case
    using Cons.IH [OF upsert_inv [OF Cons.prems(1) s1(1)] s1(2)] get_upsert [OF Cons.prems(1) s1(1), of t n]
    by (simp add: find_first_append split: option.splits)
qed simp

lemma generations_ascend:
  "inv s \<Longrightarrow> run_machine (\<lambda>s b. upsert b s) s bs = Inr s' \<Longrightarrow>
     sorted (map vb_rewriteGeneration (filter (\<lambda>b. vb_treeId b = t \<and> vb_nodeId b = n) bs)) \<and>
     (\<forall>old. get t n s = Inr (Some old) \<longrightarrow>
       (\<forall>b\<in>set bs. vb_treeId b = t \<longrightarrow> vb_nodeId b = n \<longrightarrow> vb_rewriteGeneration old \<le> vb_rewriteGeneration b))"
proof (induction bs arbitrary: s)
  case (Cons b bs)
  obtain s1 where s1: "upsert b s = Inr s1" "run_machine (\<lambda>s b. upsert b s) s1 bs = Inr s'" using Cons.prems(2) by (auto simp: res_simps)
  note ih = Cons.IH [OF upsert_inv [OF Cons.prems(1) s1(1)] s1(2)] and get = get_upsert [OF Cons.prems(1) s1(1)]
  show ?case
  proof (cases "vb_treeId b = t \<and> vb_nodeId b = n")
    case True
    then have "get t n s1 = Inr (Some b)" using get by simp
    moreover have "vb_rewriteGeneration old \<le> vb_rewriteGeneration b" if "get t n s = Inr (Some old)" for old
      using upsert_monotone [OF Cons.prems(1) s1(1)] that True by auto
    ultimately show ?thesis using ih True by fastforce
  next
    case False
    then have "get t n s1 = get t n s" using get [of t n] by auto
    then show ?thesis using ih False by auto
  qed
qed simp

end

section \<open>The table keeps the contract\<close>

lemma validate_iff:
  "validateVcsChangeBinding b = Inr u \<longleftrightarrow> uuidV7Pattern (vb_treeId b) \<and> uuidV7Pattern (vb_nodeId b) \<and>
     contentHashPattern (vb_jjChangeId b) \<and> gitShaPattern (vb_currentCommitId b) \<and>
     (\<forall>p. vb_parentChangeId b = Some p \<longrightarrow> contentHashPattern p) \<and> vb_bookmark b \<noteq> Some [] \<and>
     0 \<le> vb_rewriteGeneration b \<and> safe_int (vb_rewriteGeneration b) \<and> contentHashPattern (vb_lastJjOperationId b) \<and>
     (\<forall>p. vb_lastPushedCommitId b = Some p \<longrightarrow> gitShaPattern p) \<and>
     (\<forall>p. vb_lastReviewedCommitId b = Some p \<longrightarrow> gitShaPattern p) \<and>
     0 \<le> vb_recordedAt b \<and> safe_int (vb_recordedAt b)"
  by (auto simp: validateVcsChangeBinding_def res_simps present_ok_def taskTreeId_def taskNodeId_def
      contentHash_def gitSha_def not_less split: option.splits if_splits)

lemma col_row_of [simp]:
  "col (row_of b) ''tree_id'' = SText (vb_treeId b)" "col (row_of b) ''node_id'' = SText (vb_nodeId b)"
  "col (row_of b) ''jj_change_id'' = SText (vb_jjChangeId b)"
  "col (row_of b) ''current_commit_id'' = SText (vb_currentCommitId b)"
  "col (row_of b) ''parent_change_id'' = sql_text (vb_parentChangeId b)"
  "col (row_of b) ''bookmark'' = sql_text (vb_bookmark b)"
  "col (row_of b) ''rewrite_generation'' = SInt (vb_rewriteGeneration b)"
  "col (row_of b) ''last_jj_operation_id'' = SText (vb_lastJjOperationId b)"
  "col (row_of b) ''last_pushed_commit_id'' = sql_text (vb_lastPushedCommitId b)"
  "col (row_of b) ''last_reviewed_commit_id'' = sql_text (vb_lastReviewedCommitId b)"
  "col (row_of b) ''conflict_state'' = SText (state_name (vb_conflictState b))"
  "col (row_of b) ''recorded_at_ms'' = SInt (vb_recordedAt b)"
  by (simp_all add: col_def row_of_def)

lemma row_of_key [simp]: "row_key (row_of b) = (SText (vb_treeId b), SText (vb_nodeId b))"
  by (simp add: row_key_def)

lemma row_of_generation [simp]: "generation_of (row_of b) = vb_rewriteGeneration b"
  by simp

lemma pattern_rows:
  "contentHashPattern s \<Longrightarrow> length s = 64 \<and> list_all hex_digit s"
  "gitShaPattern s \<Longrightarrow> (length s = 40 \<or> length s = 64) \<and> list_all hex_digit s"
  "uuidV7Pattern s \<Longrightarrow> length s = 36"
  unfolding contentHashPattern_def gitShaPattern_def uuidV7Pattern_def uuid_shape_def
  by (auto simp: fits_replicate dest: fits_length)

lemma state_name_cases: "state_name s \<in> {''clean'', ''conflict'', ''resolved''}"
  by (cases s) auto

lemma valid_row_allowed: "validateVcsChangeBinding b = Inr u \<Longrightarrow> row_allowed (row_of b)"
  using state_name_cases [of "vb_conflictState b"]
  by (auto simp: validate_iff row_allowed_def sql_text_def dest!: pattern_rows split: option.splits)

lemma present_texts:
  "validateVcsChangeBinding b = Inr u \<Longrightarrow> vb_treeId b \<noteq> [] \<and> vb_nodeId b \<noteq> [] \<and> vb_jjChangeId b \<noteq> [] \<and>
     vb_currentCommitId b \<noteq> [] \<and> vb_lastJjOperationId b \<noteq> [] \<and> vb_parentChangeId b \<noteq> Some [] \<and>
     vb_lastPushedCommitId b \<noteq> Some [] \<and> vb_lastReviewedCommitId b \<noteq> Some []"
  by (auto simp: validate_iff dest!: pattern_rows)

lemma requiredString_row:
  "col row key = SText s \<Longrightarrow> s \<noteq> [] \<Longrightarrow> requiredString row key = Inr s"
  by (auto simp: requiredString_def col_def split: option.splits)

lemma nullableString_row:
  "col row key = sql_text v \<Longrightarrow> v \<noteq> Some [] \<Longrightarrow> nullableString row key = Inr v"
  by (auto simp: nullableString_def col_def sql_text_def split: option.splits)

lemma toSafeNumber_row: "col row key = SInt i \<Longrightarrow> safe_int i \<Longrightarrow> toSafeNumber row key = Inr i"
  by (auto simp: toSafeNumber_def col_def split: option.splits)

lemma conflict_state_name [simp]: "conflictStateFromValue (state_name s) = Inr s"
  by (cases s) (simp_all add: conflictStateFromValue_def)

lemma state_name_text [simp]: "state_name s \<noteq> []"
  by (cases s) auto

lemma parsed_if_ok: "(\<forall>s. v = Some s \<longrightarrow> parse s = Inr s) \<Longrightarrow> parsed_if parse v = Inr v"
  by (cases v) (simp_all add: parsed_if_def parsed_def)

lemma read_row_of:
  assumes "validateVcsChangeBinding b = Inr ()"
  shows "readBinding (row_of b) = Inr b"
proof -
  note v = assms [unfolded validate_iff] and ne = present_texts [OF assms]
  have "parsed_if contentHash (vb_parentChangeId b) = Inr (vb_parentChangeId b)"
    "parsed_if gitSha (vb_lastPushedCommitId b) = Inr (vb_lastPushedCommitId b)"
    "parsed_if gitSha (vb_lastReviewedCommitId b) = Inr (vb_lastReviewedCommitId b)"
    using v by (auto intro!: parsed_if_ok simp: contentHash_def gitSha_def)
  moreover have "parsed (taskTreeId (vb_treeId b)) = Inr (vb_treeId b)"
    "parsed (taskNodeId (vb_nodeId b)) = Inr (vb_nodeId b)"
    "parsed (contentHash (vb_jjChangeId b)) = Inr (vb_jjChangeId b)"
    "parsed (gitSha (vb_currentCommitId b)) = Inr (vb_currentCommitId b)"
    "parsed (contentHash (vb_lastJjOperationId b)) = Inr (vb_lastJjOperationId b)"
    "parsed (timestampFromEpochMilliseconds (number_of_int (vb_recordedAt b))) = Inr (vb_recordedAt b)"
    using v by (auto simp: parsed_def taskTreeId_def taskNodeId_def parseUuidV7_def contentHash_def gitSha_def
        timestamp_of_int is_timestamp_def safe_int_def)
  ultimately show ?thesis
    using v ne unfolding readBinding_def by (simp add: requiredString_row nullableString_row toSafeNumber_row)
qed

text \<open>A stored binding is read back unchanged. For every binding the validator accepts, the row the upsert
  writes satisfies every CHECK constraint of the table, and reading that row returns the binding, with every
  optional field, the generation, the conflict state and the time as they were.\<close>

theorem binding_row_roundtrip:
  assumes "validateVcsChangeBinding b = Inr ()"
  shows "row_allowed (row_of b) \<and> readBinding (row_of b) = Inr b"
  using valid_row_allowed [OF assms] read_row_of [OF assms] by simp

definition table_ok :: "sql_row list \<Rightarrow> bool" where
  "table_ok table \<longleftrightarrow> distinct (map row_key table) \<and>
     (\<forall>row\<in>set table. \<exists>b. row = row_of b \<and> validateVcsChangeBinding b = Inr ())"

lemma upsert_keys:
  "upsert_row new table = Some table' \<Longrightarrow> set (map row_key table') = insert (row_key new) (set (map row_key table)) \<and>
     set table' \<subseteq> insert new (set table) \<and> (distinct (map row_key table) \<longrightarrow> distinct (map row_key table'))"
proof (induction new table arbitrary: table' rule: upsert_row.induct)
  case (1 new)
  then show ?case by (auto split: if_splits)
next
  case (2 new row rows)
  then show ?case by (fastforce split: if_splits)
qed

lemma upsert_lookup:
  "upsert_row new table = Some table' \<Longrightarrow>
     find_first (\<lambda>row. row_key row = k) table' =
       (if k = row_key new then Some new else find_first (\<lambda>row. row_key row = k) table)"
  by (induction new table arbitrary: table' rule: upsert_row.induct) (auto split: if_splits)

lemma upsert_generation:
  "upsert_row new table = Some table' \<Longrightarrow> find_first (\<lambda>row. row_key row = row_key new) table = Some old \<Longrightarrow>
     generation_of old \<le> generation_of new"
  by (induction new table arbitrary: table' rule: upsert_row.induct) (auto split: if_splits simp del: generation_of.simps)

lemma upsertBinding_Inr:
  "upsertBinding up b table = Inr table' \<longleftrightarrow>
     up \<and> validateVcsChangeBinding b = Inr () \<and> upsert_row (row_of b) table = Some table'"
  by (auto simp: upsertBinding_def split: sum.splits option.splits)

lemma get_cases:
  assumes "table_ok table"
  obtains (absent) "find_first (\<lambda>row. row_key row = (SText t, SText n)) table = None" "getBinding t n table = Inr None"
  | (present) b where "find_first (\<lambda>row. row_key row = (SText t, SText n)) table = Some (row_of b)"
      "validateVcsChangeBinding b = Inr ()" "getBinding t n table = Inr (Some b)" "vb_treeId b = t" "vb_nodeId b = n"
proof (cases "find_first (\<lambda>row. row_key row = (SText t, SText n)) table")
  case None
  then show ?thesis using absent by (simp add: getBinding_def select_first_def)
next
  case (Some row)
  from find_first_Some_iff [OF this] assms obtain b where b: "row = row_of b" "validateVcsChangeBinding b = Inr ()"
    and k: "row_key row = (SText t, SText n)" unfolding table_ok_def by blast
  have "readBinding (row_of b) = Inr b"
    using b(2) by (rule read_row_of)
  then show ?thesis using present [of b] Some b k by (simp add: getBinding_def select_first_def)
qed

interpretation sqlite_bindings: binding_store "upsertBinding True" getBinding table_ok
proof
  fix s b s' assume ok: "table_ok s" and up: "upsertBinding True b s = Inr s'"
  note row = up [unfolded upsertBinding_Inr]
  then show "table_ok s'"
    using upsert_keys [of "row_of b" s s'] ok unfolding table_ok_def by blast
  fix t n
  show "getBinding t n s' = (if t = vb_treeId b \<and> n = vb_nodeId b then Inr (Some b) else getBinding t n s)"
    using row read_row_of [of b] upsert_lookup [of "row_of b" s s' "(SText t, SText n)"]
    by (simp add: getBinding_def select_first_def)
  fix old assume "getBinding (vb_treeId b) (vb_nodeId b) s = Inr (Some old)"
  with ok show "vb_rewriteGeneration old \<le> vb_rewriteGeneration b"
    using upsert_generation [of "row_of b" s s' "row_of old"] row
    by (cases rule: get_cases [of s "vb_treeId b" "vb_nodeId b"]) auto
next
  fix s t n assume "table_ok s"
  then show "is_ok (getBinding t n s)" by (cases rule: get_cases [of s t n]) auto
qed

text \<open>C32: The binding store is a map whose generations only grow. After any sequence of accepted upserts on an
  empty table, looking up a node returns exactly the last binding written for that tree and node, or nothing if
  none was; and the generations written for one node never decrease along the sequence.\<close>

theorem bindings_last_write_wins:
  assumes "run_machine (\<lambda>table b. upsertBinding True b table) [] bs = Inr table"
  shows "getBinding t n table = Inr (find_first (\<lambda>b. vb_treeId b = t \<and> vb_nodeId b = n) (rev bs)) \<and>
    sorted (map vb_rewriteGeneration (filter (\<lambda>b. vb_treeId b = t \<and> vb_nodeId b = n) bs))"
proof -
  have "table_ok []" by (simp add: table_ok_def)
  from sqlite_bindings.last_write_wins [OF this assms] sqlite_bindings.generations_ascend [OF this assms]
  show ?thesis by (simp add: getBinding_def select_first_def split: option.splits)
qed

definition sampleBinding :: "int \<Rightarrow> string option \<Rightarrow> vcs_binding" where
  "sampleBinding generation bookmark = \<lparr>vb_treeId = ''00000000-0000-7000-8000-000000000000'',
     vb_nodeId = ''00000000-0000-7000-8000-000000000001'', vb_jjChangeId = replicate 64 (CHR ''c''),
     vb_currentCommitId = replicate 40 (CHR ''a''), vb_parentChangeId = None, vb_bookmark = bookmark,
     vb_rewriteGeneration = generation, vb_lastJjOperationId = replicate 64 (CHR ''d''),
     vb_lastPushedCommitId = None, vb_lastReviewedCommitId = Some (replicate 40 (CHR ''b'')),
     vb_conflictState = Clean, vb_recordedAt = 7\<rparr>"

theorem binding_row_roundtrip_witness:
  "readBinding (row_of (sampleBinding 2 (Some ''minions/x''))) = Inr (sampleBinding 2 (Some ''minions/x''))"
proof -
  have "validateVcsChangeBinding (sampleBinding 2 (Some ''minions/x'')) = Inr ()" by code_simp
  then show ?thesis using binding_row_roundtrip by blast
qed

theorem bindings_last_write_wins_witness:
  "getBinding (vb_treeId (sampleBinding 0 None)) (vb_nodeId (sampleBinding 0 None))
     (projr (run_machine (\<lambda>table b. upsertBinding True b table) []
        [sampleBinding 0 None, sampleBinding 3 (Some ''minions/x'')])) =
   Inr (Some (sampleBinding 3 (Some ''minions/x'')))"
proof -
  have "is_ok (run_machine (\<lambda>table b. upsertBinding True b table) []
      [sampleBinding 0 None, sampleBinding 3 (Some ''minions/x'')])" by code_simp
  from bindings_last_write_wins [OF Inr_projr [OF this]] show ?thesis
    by (simp add: sampleBinding_def)
qed

lemma stale_upsert_refused:
  "upsertBinding True (sampleBinding 2 None) [row_of (sampleBinding 3 None)] = Inl Binding_write_failed"
  by code_simp

end
