(* ===== verification/Gate_Runner.thy ===== *)
theory Gate_Runner
  imports Value_Objects
begin

text \<open>
  \<^verbatim>\<open>packages/core/src/gate-runner.ts\<close>, \<^verbatim>\<open>revision-gates.ts\<close> and \<^verbatim>\<open>packages/adapters/src/gate-runner-adapter.ts\<close>:
  blocking gates that run in a sandbox, the receipts that bind their outcome to a commit, a
  profile and an environment, and the check that a set of receipts unblocks a node. The
  sandbox, the clock, the receipt store and the digest are not code of the repository's core:
  a \<open>gate_answer\<close> is what they answer for one gate (the runner races a timer, an abort
  signal and the sandbox, and only the first to settle counts), the digest is a parameter.
\<close>

section \<open>Receipts\<close>

datatype gate_outcome =
    Gate_passed | Gate_failed | Gate_timeout | Gate_cancelled | Gate_missing_executable | Gate_error

record gate_receipt =
  gr_gateName :: string
  gr_category :: int
  gr_outcome :: gate_outcome
  gr_exitCode :: "int option"
  gr_durationMs :: int
  gr_stdoutDigest :: string
  gr_stderrDigest :: string
  gr_headCommit :: string
  gr_profileHash :: string
  gr_environmentDigest :: string
  gr_capturedAt :: int
  gr_sequence :: nat

record gate_command =
  gc_name :: string
  gc_category :: int
  gc_executable :: string
  gc_args :: "string list"
  gc_envAllowlist :: "string list"
  gc_timeoutMs :: number

record gate_run_request =
  grr_nodeId :: string
  grr_attemptId :: "string option"
  grr_headCommit :: string
  grr_profileHash :: string
  grr_environment :: "(string \<times> string) list"
  grr_sandboxInstanceId :: string
  grr_workingDirectory :: string
  grr_maxOutputBytes :: number
  grr_gates :: "gate_command list"

record gate_bindings =
  gb_headCommit :: string
  gb_profileHash :: string
  gb_environmentDigest :: string

record gate_expectation =
  ge_bindings :: gate_bindings
  ge_requiredCategories :: "int list"

datatype gate_problem_reason = No_receipt | Stale_receipt | Missing_passing_receipt

record gate_validation =
  gv_unblocked :: bool
  gv_problems :: "(int \<times> gate_problem_reason) list"

datatype gate_runner_error = Gate_request_invalid | Gate_store_failed

section \<open>Classification\<close>

definition CANCEL_SIGNALS :: "string list" where
  "CANCEL_SIGNALS = [''SIGTERM'', ''SIGINT'', ''SIGHUP'', ''SIGQUIT'']"

definition classifyOutcome :: "int option \<Rightarrow> string option \<Rightarrow> bool \<Rightarrow> gate_outcome" where
  "classifyOutcome exitCode sig timedOut =
     (if timedOut then Gate_timeout
      else case sig of
        Some x \<Rightarrow> if x \<in> set CANCEL_SIGNALS then Gate_cancelled else Gate_timeout
      | None \<Rightarrow> (case exitCode of
          None \<Rightarrow> Gate_missing_executable
        | Some c \<Rightarrow> if c = 0 then Gate_passed else Gate_failed))"

definition canonicalEnvironmentJson :: "(string \<times> string) list \<Rightarrow> string" where
  "canonicalEnvironmentJson env = json_array (map (\<lambda>kv. json_array
     [json_string (fst kv), json_string (snd kv)]) (sort_key fst env))"

definition computeEnvironmentDigest ::
    "(string \<times> string) list \<Rightarrow> (string \<Rightarrow> string) \<Rightarrow> string" where
  "computeEnvironmentDigest env digest = digest (canonicalEnvironmentJson env)"

definition isReceiptStale :: "gate_receipt \<Rightarrow> gate_bindings \<Rightarrow> bool" where
  "isReceiptStale r current \<longleftrightarrow> gr_headCommit r \<noteq> gb_headCommit current \<or>
     gr_profileHash r \<noteq> gb_profileHash current \<or>
     gr_environmentDigest r \<noteq> gb_environmentDigest current"

definition probeGateCommand :: "gate_command \<Rightarrow> gate_outcome option" where
  "probeGateCommand c =
     (if length (gc_executable c) = 0 then Some Gate_error
      else if \<not> isSafeInteger (gc_timeoutMs c) \<or> int_of_number (gc_timeoutMs c) \<le> 0
      then Some Gate_error else None)"

fun validate_categories ::
    "gate_receipt list \<Rightarrow> gate_bindings \<Rightarrow> int list \<Rightarrow> (int \<times> gate_problem_reason) list" where
  "validate_categories receipts b [] = []"
| "validate_categories receipts b (c # cs) =
     (let matching = filter (\<lambda>r. gr_category r = c) receipts;
          fresh = filter (\<lambda>r. \<not> isReceiptStale r b) matching
      in if length matching = 0 then (c, No_receipt) # validate_categories receipts b cs
         else if length fresh = 0 then (c, Stale_receipt) # validate_categories receipts b cs
         else if \<not> list_ex (\<lambda>r. gr_outcome r = Gate_passed) fresh
         then (c, Missing_passing_receipt) # validate_categories receipts b cs
         else validate_categories receipts b cs)"

definition validateGateReceipts :: "gate_receipt list \<Rightarrow> gate_expectation \<Rightarrow> gate_validation" where
  "validateGateReceipts receipts expected =
     (let problems = validate_categories receipts (ge_bindings expected) (ge_requiredCategories expected)
      in \<lparr>gv_unblocked = (length problems = 0), gv_problems = problems\<rparr>)"

fun check_gates :: "int list \<Rightarrow> gate_command list \<Rightarrow> gate_runner_error + unit" where
  "check_gates seen [] = Inr ()"
| "check_gates seen (g # gs) =
     bindE (guardE (length (gc_name g) \<noteq> 0) Gate_request_invalid) (\<lambda>_.
     bindE (guardE (gc_category g \<notin> set seen) Gate_request_invalid) (\<lambda>_.
       check_gates (gc_category g # seen) gs))"

definition validateGateRunRequest :: "gate_run_request \<Rightarrow> gate_runner_error + unit" where
  "validateGateRunRequest rq =
     bindE (guardE (length (grr_gates rq) \<noteq> 0) Gate_request_invalid) (\<lambda>_.
     bindE (guardE (\<not> (\<not> isSafeInteger (grr_maxOutputBytes rq) \<or>
                        int_of_number (grr_maxOutputBytes rq) \<le> 0)) Gate_request_invalid) (\<lambda>_.
     bindE (guardE (length (grr_workingDirectory rq) \<noteq> 0) Gate_request_invalid) (\<lambda>_.
     bindE (guardE (length (grr_sandboxInstanceId rq) \<noteq> 0) Gate_request_invalid) (\<lambda>_.
       check_gates [] (grr_gates rq)))))"

section \<open>Running\<close>

datatype gate_rejection = Denied_executable | Denied_timeout | Rejected_otherwise

text \<open>The first event that settles the race of one gate.\<close>

datatype gate_event =
    Timer_fires | Abort_fires
  | Sandbox_resolves "int option" string string
  | Sandbox_rejects gate_rejection

record gate_answer =
  ga_abortedBefore :: bool
  ga_startedAt :: int
  ga_first :: gate_event
  ga_settledAt :: int
  ga_capturedAt :: int
  ga_stored :: bool

record observed_outcome =
  oo_outcome :: gate_outcome
  oo_exitCode :: "int option"
  oo_stdout :: string
  oo_stderr :: string
  oo_durationMs :: int

definition staticOutcome :: "gate_outcome \<Rightarrow> observed_outcome" where
  "staticOutcome x = \<lparr>oo_outcome = x, oo_exitCode = None, oo_stdout = '''', oo_stderr = '''',
     oo_durationMs = 0\<rparr>"

definition elapsedSince :: "int \<Rightarrow> int \<Rightarrow> int" where
  "elapsedSince now startedAt = (if startedAt \<le> now then now - startedAt else 0)"

fun classifyRejection :: "gate_rejection \<Rightarrow> gate_outcome" where
  "classifyRejection Denied_executable = Gate_missing_executable"
| "classifyRejection Denied_timeout = Gate_timeout"
| "classifyRejection Rejected_otherwise = Gate_error"

definition executeGate :: "gate_answer \<Rightarrow> observed_outcome" where
  "executeGate a =
     (if ga_abortedBefore a then staticOutcome Gate_cancelled
      else let d = elapsedSince (ga_settledAt a) (ga_startedAt a);
               nothing = (\<lambda>x. \<lparr>oo_outcome = x, oo_exitCode = None, oo_stdout = '''',
                 oo_stderr = '''', oo_durationMs = d\<rparr>)
           in case ga_first a of
             Timer_fires \<Rightarrow> nothing Gate_timeout
           | Abort_fires \<Rightarrow> nothing Gate_cancelled
           | Sandbox_resolves code out err \<Rightarrow>
               \<lparr>oo_outcome = classifyOutcome code None False, oo_exitCode = code,
                oo_stdout = out, oo_stderr = err, oo_durationMs = d\<rparr>
           | Sandbox_rejects r \<Rightarrow> nothing (classifyRejection r))"

definition runGate :: "gate_command \<Rightarrow> gate_answer \<Rightarrow> observed_outcome" where
  "runGate g a = (case probeGateCommand g of Some x \<Rightarrow> staticOutcome x | None \<Rightarrow> executeGate a)"

definition buildReceipt ::
    "(string \<Rightarrow> string) \<Rightarrow> gate_command \<Rightarrow> gate_run_request \<Rightarrow> string \<Rightarrow> observed_outcome \<Rightarrow> nat \<Rightarrow>
     int \<Rightarrow> gate_receipt" where
  "buildReceipt byteDigest g rq envDigest observed i capturedAt =
     \<lparr>gr_gateName = gc_name g, gr_category = gc_category g, gr_outcome = oo_outcome observed,
      gr_exitCode = oo_exitCode observed, gr_durationMs = oo_durationMs observed,
      gr_stdoutDigest = byteDigest (oo_stdout observed),
      gr_stderrDigest = byteDigest (oo_stderr observed), gr_headCommit = grr_headCommit rq,
      gr_profileHash = grr_profileHash rq, gr_environmentDigest = envDigest,
      gr_capturedAt = capturedAt, gr_sequence = i\<rparr>"

text \<open>The loop of \<open>runGates\<close>; the second component is what the store holds afterwards.\<close>

fun runGates_loop ::
    "(string \<Rightarrow> string) \<Rightarrow> (nat \<Rightarrow> gate_answer) \<Rightarrow> gate_run_request \<Rightarrow> string \<Rightarrow> nat \<Rightarrow> gate_command list \<Rightarrow>
     (gate_runner_error + gate_receipt list) \<times> gate_receipt list" where
  "runGates_loop byteDigest env rq ed i [] = (Inr [], [])"
| "runGates_loop byteDigest env rq ed i (g # gs) =
     (let r = buildReceipt byteDigest g rq ed (runGate g (env i)) i (ga_capturedAt (env i)) in
      if \<not> ga_stored (env i) then (Inl Gate_store_failed, [])
      else case runGates_loop byteDigest env rq ed (Suc i) gs of
        (Inl e, kept) \<Rightarrow> (Inl e, r # kept)
      | (Inr rs, kept) \<Rightarrow> (Inr (r # rs), r # kept))"

definition runGates ::
    "(string \<Rightarrow> string) \<Rightarrow> (string \<Rightarrow> string) \<Rightarrow> (nat \<Rightarrow> gate_answer) \<Rightarrow> gate_run_request \<Rightarrow>
     (gate_runner_error + gate_receipt list) \<times> gate_receipt list" where
  "runGates digest byteDigest env rq = (case validateGateRunRequest rq of
     Inl e \<Rightarrow> (Inl e, [])
   | Inr _ \<Rightarrow> runGates_loop byteDigest env rq (computeEnvironmentDigest (grr_environment rq) digest)
       0 (grr_gates rq))"

section \<open>Gating every revision of a stack\<close>

definition EMPTY_REVSET :: string where
  "EMPTY_REVSET = ''none()''"

datatype range_error = Range_error

definition buildRevisionRevset :: "string list \<Rightarrow> range_error + string" where
  "buildRevisionRevset changeIds =
     (if length changeIds = 0 then Inr EMPTY_REVSET
      else bindE (guardE (list_all (\<lambda>i. length i \<noteq> 0) changeIds) Range_error) (\<lambda>_.
        Inr (join '' | '' (map (\<lambda>i. ''('' @ i @ '')'') changeIds))))"

record revision_snapshot =
  rv_changeId :: string
  rv_commitId :: string

record mutation_proof =
  mp_changedChangeIds :: "string list"
  mp_unexpectedChangeIds :: "string list"
  mp_unexpectedMutation :: bool

definition changed_ids :: "revision_snapshot list \<Rightarrow> revision_snapshot list \<Rightarrow> string list" where
  "changed_ids before after =
     map rv_changeId (filter (\<lambda>x. map_option rv_commitId (js_map rv_changeId before (rv_changeId x)) \<noteq>
         Some (rv_commitId x)) after) @
     map rv_changeId (filter (\<lambda>x. rv_changeId x \<notin> rv_changeId ` set after) before)"

definition dedupePreserveOrder :: "string list \<Rightarrow> string list" where
  "dedupePreserveOrder xs = dedupe_from [] xs"

definition validateNoUnexpectedMutation ::
    "string list \<Rightarrow> revision_snapshot list \<Rightarrow> revision_snapshot list \<Rightarrow> mutation_proof" where
  "validateNoUnexpectedMutation intended before after =
     (let changed = changed_ids before after;
          unexpected = filter (\<lambda>i. i \<notin> set intended) changed
      in \<lparr>mp_changedChangeIds = dedupePreserveOrder changed,
          mp_unexpectedChangeIds = dedupePreserveOrder unexpected,
          mp_unexpectedMutation = (length (dedupePreserveOrder unexpected) > 0)\<rparr>)"

section \<open>Properties\<close>

lemma validate_categories_empty:
  "validate_categories receipts b cs = [] \<longleftrightarrow>
    (\<forall>c\<in>set cs. \<exists>r\<in>set receipts. gr_category r = c \<and> \<not> isReceiptStale r b \<and>
       gr_outcome r = Gate_passed)"
proof (induction cs)
  case (Cons c cs)
  let ?m = "filter (\<lambda>r. gr_category r = c) receipts"
  let ?f = "filter (\<lambda>r. \<not> isReceiptStale r b) ?m"
  have "list_ex (\<lambda>r. gr_outcome r = Gate_passed) ?f \<longleftrightarrow> (\<exists>r\<in>set receipts. gr_category r = c \<and>
      \<not> isReceiptStale r b \<and> gr_outcome r = Gate_passed)"
    by (auto simp: list_ex_iff)
  moreover have "list_ex (\<lambda>r. gr_outcome r = Gate_passed) ?f \<Longrightarrow> ?f \<noteq> [] \<and> ?m \<noteq> []"
    by (cases ?f; cases ?m) auto
  ultimately show ?case using Cons by (auto simp: Let_def simp del: filter_filter)
qed simp

text \<open>C39: A node is unblocked exactly when every required category has a receipt that passed and
  that is bound to the expected commit, gate profile and environment; a stale or failing receipt
  never unblocks anything.\<close>

theorem gates_unblock_iff:
  "gv_unblocked (validateGateReceipts receipts expected) \<longleftrightarrow>
   (\<forall>c\<in>set (ge_requiredCategories expected). \<exists>r\<in>set receipts.
      gr_category r = c \<and> gr_outcome r = Gate_passed \<and>
      gr_headCommit r = gb_headCommit (ge_bindings expected) \<and>
      gr_profileHash r = gb_profileHash (ge_bindings expected) \<and>
      gr_environmentDigest r = gb_environmentDigest (ge_bindings expected))"
  by (auto simp: validateGateReceipts_def Let_def validate_categories_empty isReceiptStale_def)

definition sampleGateReceipt :: "int \<Rightarrow> gate_outcome \<Rightarrow> string \<Rightarrow> gate_receipt" where
  "sampleGateReceipt category outcome head = \<lparr>gr_gateName = ''lint'', gr_category = category,
     gr_outcome = outcome, gr_exitCode = Some 0, gr_durationMs = 1, gr_stdoutDigest = [],
     gr_stderrDigest = [], gr_headCommit = head, gr_profileHash = ''p'', gr_environmentDigest = ''e'',
     gr_capturedAt = 0, gr_sequence = 0\<rparr>"

definition sampleExpectation :: "int list \<Rightarrow> gate_expectation" where
  "sampleExpectation categories = \<lparr>ge_bindings = \<lparr>gb_headCommit = ''new'', gb_profileHash = ''p'',
     gb_environmentDigest = ''e''\<rparr>, ge_requiredCategories = categories\<rparr>"

theorem gates_unblock_iff_witness:
  "gv_unblocked (validateGateReceipts [sampleGateReceipt 1 Gate_failed ''new'', sampleGateReceipt 1 Gate_passed ''new'']
      (sampleExpectation [1])) \<and>
   \<not> gv_unblocked (validateGateReceipts [sampleGateReceipt 1 Gate_passed ''old''] (sampleExpectation [1]))"
  unfolding gates_unblock_iff by (simp add: sampleGateReceipt_def sampleExpectation_def)

lemma runGates_loop_receipts:
  "runGates_loop bd env rq ed i gs = (Inr rs, kept) \<Longrightarrow>
     kept = rs \<and> rs = map (\<lambda>(k, g). buildReceipt bd g rq ed (runGate g (env k)) k (ga_capturedAt (env k)))
       (enumerate i gs)"
  by (induction bd env rq ed i gs arbitrary: rs kept rule: runGates_loop.induct)
     (auto simp: Let_def split: if_splits prod.splits sum.splits)

lemma runGates_loop_kept:
  "runGates_loop bd env rq ed i gs = (r, kept) \<Longrightarrow> \<exists>n. kept =
     take n (map (\<lambda>(k, g). buildReceipt bd g rq ed (runGate g (env k)) k (ga_capturedAt (env k)))
       (enumerate i gs))"
proof (induction bd env rq ed i gs arbitrary: r kept rule: runGates_loop.induct)
  case (2 bd env rq ed i g gs)
  show ?case
  proof (cases "ga_stored (env i)")
    case False
    with 2(2) show ?thesis by (intro exI [of _ 0]) (simp add: Let_def)
  next
    case True
    obtain r' kept' where rec: "runGates_loop bd env rq ed (Suc i) gs = (r', kept')" by fastforce
    from 2(1) [OF refl _ rec] True obtain n where "kept' =
     take n (map (\<lambda>(k, g). buildReceipt bd g rq ed (runGate g (env k)) k (ga_capturedAt (env k)))
       (enumerate (Suc i) gs))" by auto
    with 2(2) True rec show ?thesis
      by (intro exI [of _ "Suc n"]) (auto simp: Let_def split: sum.splits)
  qed
qed simp

text \<open>Running the gates of a valid request yields exactly one receipt per gate, in order,
  numbered from zero, stored before it is returned, and bound to the commit, profile and
  environment of the request; a receipt says passed only if the command was runnable, was not
  aborted, and the sandbox reported exit code zero before the timer or an abort.\<close>

theorem run_gates_receipts:
  assumes "runGates digest byteDigest env rq = (Inr rs, kept)"
  shows "kept = rs \<and> length rs = length (grr_gates rq) \<and>
    (\<forall>i < length rs. gr_sequence (rs ! i) = i \<and> gr_category (rs ! i) = gc_category (grr_gates rq ! i) \<and>
       gr_headCommit (rs ! i) = grr_headCommit rq \<and> gr_profileHash (rs ! i) = grr_profileHash rq \<and>
       gr_environmentDigest (rs ! i) = digest (canonicalEnvironmentJson (grr_environment rq)) \<and>
       (gr_outcome (rs ! i) = Gate_passed \<longrightarrow> probeGateCommand (grr_gates rq ! i) = None \<and>
          \<not> ga_abortedBefore (env i) \<and> (\<exists>out err. ga_first (env i) = Sandbox_resolves (Some 0) out err)))"
proof -
  from assms have "runGates_loop byteDigest env rq
      (computeEnvironmentDigest (grr_environment rq) digest) 0 (grr_gates rq) = (Inr rs, kept)"
    by (auto simp: runGates_def split: sum.splits)
  from runGates_loop_receipts [OF this] have rs: "kept = rs" "rs = map (\<lambda>(k, g). buildReceipt byteDigest g rq
      (computeEnvironmentDigest (grr_environment rq) digest) (runGate g (env k)) k (ga_capturedAt (env k)))
       (enumerate 0 (grr_gates rq))" by auto
  have passed: "oo_outcome (runGate g a) = Gate_passed \<Longrightarrow> probeGateCommand g = None \<and>
      \<not> ga_abortedBefore a \<and> (\<exists>out err. ga_first a = Sandbox_resolves (Some 0) out err)" for g a
    by (auto simp: runGate_def staticOutcome_def executeGate_def Let_def classifyOutcome_def
        probeGateCommand_def split: option.splits if_splits gate_event.splits)
       (metis classifyRejection.elims gate_outcome.distinct)
  show ?thesis
    using passed
    by (auto simp: rs nth_enumerate_eq buildReceipt_def computeEnvironmentDigest_def)
qed

definition sampleGateRequest :: gate_run_request where
  "sampleGateRequest = \<lparr>grr_nodeId = ''n'', grr_attemptId = None, grr_headCommit = ''c'',
     grr_profileHash = ''p'', grr_environment = [(''B'', ''2''), (''A'', ''1'')],
     grr_sandboxInstanceId = ''i'', grr_workingDirectory = ''w'',
     grr_maxOutputBytes = number_of_int 100,
     grr_gates = [\<lparr>gc_name = ''lint'', gc_category = 1, gc_executable = ''eslint'', gc_args = [],
       gc_envAllowlist = [], gc_timeoutMs = number_of_int 1000\<rparr>]\<rparr>"

definition sampleGateAnswers :: "nat \<Rightarrow> gate_answer" where
  "sampleGateAnswers i = \<lparr>ga_abortedBefore = False, ga_startedAt = 10,
     ga_first = Sandbox_resolves (Some 0) ''out'' ''err'', ga_settledAt = 30, ga_capturedAt = 31,
     ga_stored = True\<rparr>"

theorem run_gates_receipts_witness:
  "\<exists>rs. runGates (\<lambda>x. x) (\<lambda>x. x) sampleGateAnswers sampleGateRequest = (Inr rs, rs) \<and> length rs = 1"
proof -
  obtain r kept where run: "runGates (\<lambda>x. x) (\<lambda>x. x) sampleGateAnswers sampleGateRequest = (r, kept)"
    by fastforce
  have "is_ok (fst (runGates (\<lambda>x. x) (\<lambda>x. x) sampleGateAnswers sampleGateRequest))" by code_simp
  with run obtain rs where "r = Inr rs" by (auto simp: is_ok_iff)
  with run_gates_receipts [OF run [unfolded this]] run show ?thesis
    by (simp add: sampleGateRequest_def)
qed

text \<open>The digest of an environment does not depend on the order its variables were inserted
  in: two environments with the same variables have the same digest.\<close>

theorem environment_digest_order_independent:
  assumes "distinct (map fst env)" and "distinct (map fst env')" and "set env = set env'"
  shows "computeEnvironmentDigest env digest = computeEnvironmentDigest env' digest"
proof -
  have "inj_on fst (set env)" using assms(1) by (simp add: distinct_map)
  then have "sort_key fst env = sort_key fst env'"
    using assms by (intro map_sorted_distinct_set_unique [where f = fst]) (auto simp: distinct_map)
  then show ?thesis by (simp add: computeEnvironmentDigest_def canonicalEnvironmentJson_def)
qed

theorem environment_digest_order_independent_witness:
  "computeEnvironmentDigest [(''B'', ''2''), (''A'', ''1'')] id =
   computeEnvironmentDigest [(''A'', ''1''), (''B'', ''2'')] id"
  by (rule environment_digest_order_independent) auto

text \<open>The mutation proof of a revision gate is exact: it reports a mutation outside the
  intended revisions if and only if some change not intended has a different commit after the run
  than before, appeared, or vanished; and it lists every changed revision once.\<close>

theorem mutation_proof_exact:
  assumes "distinct (map rv_changeId before)" and "distinct (map rv_changeId after)"
  shows "(mp_unexpectedMutation (validateNoUnexpectedMutation intended before after) \<longleftrightarrow>
      (\<exists>i. i \<notin> set intended \<and>
        map_option rv_commitId (js_map rv_changeId before i) \<noteq>
        map_option rv_commitId (js_map rv_changeId after i))) \<and>
    distinct (mp_changedChangeIds (validateNoUnexpectedMutation intended before after)) \<and>
    set (mp_changedChangeIds (validateNoUnexpectedMutation intended before after)) =
      {i. map_option rv_commitId (js_map rv_changeId before i) \<noteq>
          map_option rv_commitId (js_map rv_changeId after i)}"
proof -
  let ?v = "\<lambda>xs i. map_option rv_commitId (js_map rv_changeId xs i)"
  have changed: "set (changed_ids before after) = {i. ?v before i \<noteq> ?v after i}"
  proof (rule set_eqI)
    fix i
    show "i \<in> set (changed_ids before after) \<longleftrightarrow> i \<in> {i. ?v before i \<noteq> ?v after i}"
    proof (cases "js_map rv_changeId after i")
      case None
      then have no: "i \<notin> rv_changeId ` set after" by (simp add: js_map_None_iff)
      have "i \<in> set (changed_ids before after) \<longleftrightarrow> i \<in> rv_changeId ` set before"
        using no by (auto simp: changed_ids_def)
      also have "\<dots> \<longleftrightarrow> js_map rv_changeId before i \<noteq> None" by (simp add: js_map_None_iff)
      finally show ?thesis using None by auto
    next
      case (Some x)
      with js_map_distinct [OF assms(2), of i x] have x: "x \<in> set after" "rv_changeId x = i" by auto
      have uniq: "y = x" if "y \<in> set after" "rv_changeId y = i" for y
        using js_map_distinct [OF assms(2), of i y] that Some by simp
      have "(\<exists>y\<in>set after. rv_changeId y = i \<and> Q y) \<longleftrightarrow> Q x" for Q
        using x uniq by metis
      moreover have "i \<in> rv_changeId ` set after" using x by blast
      moreover have "i \<in> set (changed_ids before after) \<longleftrightarrow>
          (\<exists>y\<in>set after. rv_changeId y = i \<and> ?v before i \<noteq> Some (rv_commitId y)) \<or>
          i \<notin> rv_changeId ` set after \<and> i \<in> rv_changeId ` set before"
        unfolding changed_ids_def set_append set_map set_filter image_iff Un_iff Bex_def
          mem_Collect_eq by metis
      ultimately have "i \<in> set (changed_ids before after) \<longleftrightarrow> ?v before i \<noteq> Some (rv_commitId x)"
        by (simp only: simp_thms)
      with Some show ?thesis by auto
    qed
  qed
  then show ?thesis
    by (auto simp: validateNoUnexpectedMutation_def Let_def dedupePreserveOrder_def
        set_dedupe_from distinct_dedupe_from length_greater_0_conv
        simp flip: set_empty)
qed

definition sampleBefore :: "revision_snapshot list" where
  "sampleBefore = [\<lparr>rv_changeId = ''a'', rv_commitId = ''1''\<rparr>, \<lparr>rv_changeId = ''b'', rv_commitId = ''2''\<rparr>]"

definition sampleAfter :: "revision_snapshot list" where
  "sampleAfter = [\<lparr>rv_changeId = ''a'', rv_commitId = ''3''\<rparr>]"

theorem mutation_proof_exact_witness:
  "mp_unexpectedMutation (validateNoUnexpectedMutation [''a''] sampleBefore sampleAfter)"
proof -
  have d: "distinct (map rv_changeId sampleBefore)" "distinct (map rv_changeId sampleAfter)"
    by (simp_all add: sampleBefore_def sampleAfter_def)
  have "map_option rv_commitId (js_map rv_changeId sampleBefore ''b'') \<noteq>
        map_option rv_commitId (js_map rv_changeId sampleAfter ''b'')"
    by (simp add: sampleBefore_def sampleAfter_def js_map_def)
  moreover have "''b'' \<notin> set [''a'']" by simp
  ultimately show ?thesis using mutation_proof_exact [OF d, of "[''a'']"] by blast
qed

end
