(* ===== verification/Repair.thy ===== *)
theory Repair
  imports Gate_Runner
begin

text \<open>
  \<^verbatim>\<open>packages/core/src/repair.ts\<close> and \<^verbatim>\<open>packages/adapters/src/repair-coordinator.ts\<close>: classifying a failed
  attempt, the retry budget, the repair decision, and the coordinator loop that re-runs one node
  until it is repaired or escalated. The ports of the coordinator (execution, gates, working
  copy, attention sink) answer the n-th call with the n-th answer of a \<open>repair_env\<close>; the log is
  what was called. One iteration of the loop is a definition; the loop has no bound of its own,
  so it is a partial function and its termination a theorem.
\<close>

section \<open>Failure classes\<close>

datatype failure_class =
    Gate_failure_class | Sandbox_failure | Harness_failure | Auth_blocker | Isolation_blocker
  | Config_blocker | Infrastructure_error | Human_intervention_required

definition IS_BLOCKER_FAILURE_CLASS :: "failure_class \<Rightarrow> bool" where
  "IS_BLOCKER_FAILURE_CLASS c \<longleftrightarrow> c = Auth_blocker \<or> c = Isolation_blocker \<or> c = Config_blocker"

definition IS_TERMINAL_FAILURE_CLASS :: "failure_class \<Rightarrow> bool" where
  "IS_TERMINAL_FAILURE_CLASS c \<longleftrightarrow> c = Infrastructure_error \<or> c = Human_intervention_required"

datatype sandbox_denial_code =
    Dn_backend_unavailable | Dn_backend_unconfined | Dn_policy_fingerprint_mismatch | Dn_idempotency_conflict
  | Dn_instance_not_found | Dn_invalid_state | Dn_invalid_policy | Dn_absolute_host_path
  | Dn_path_traversal | Dn_symlink_escape | Dn_sibling_workspace | Dn_home_credentials
  | Dn_control_socket | Dn_device | Dn_process_escape | Dn_git_commit_blocked
  | Dn_git_branch_blocked | Dn_git_remote_blocked | Dn_git_push_blocked | Dn_git_fetch_blocked
  | Dn_git_worktree_blocked | Dn_git_credential_blocked | Dn_network_private | Dn_network_loopback
  | Dn_network_link_local | Dn_network_metadata | Dn_network_host_denied | Dn_read_only_mount
  | Dn_mount_not_allowed | Dn_executable_not_allowed | Dn_output_limit | Dn_timeout_limit
  | Dn_resource_limit

fun SANDBOX_DENIAL_CLASS :: "sandbox_denial_code \<Rightarrow> failure_class" where
  "SANDBOX_DENIAL_CLASS Dn_backend_unavailable = Isolation_blocker"
| "SANDBOX_DENIAL_CLASS Dn_backend_unconfined = Isolation_blocker"
| "SANDBOX_DENIAL_CLASS Dn_policy_fingerprint_mismatch = Config_blocker"
| "SANDBOX_DENIAL_CLASS Dn_idempotency_conflict = Config_blocker"
| "SANDBOX_DENIAL_CLASS Dn_instance_not_found = Isolation_blocker"
| "SANDBOX_DENIAL_CLASS Dn_invalid_state = Isolation_blocker"
| "SANDBOX_DENIAL_CLASS Dn_invalid_policy = Config_blocker"
| "SANDBOX_DENIAL_CLASS Dn_absolute_host_path = Isolation_blocker"
| "SANDBOX_DENIAL_CLASS Dn_path_traversal = Isolation_blocker"
| "SANDBOX_DENIAL_CLASS Dn_symlink_escape = Isolation_blocker"
| "SANDBOX_DENIAL_CLASS Dn_sibling_workspace = Isolation_blocker"
| "SANDBOX_DENIAL_CLASS Dn_home_credentials = Auth_blocker"
| "SANDBOX_DENIAL_CLASS Dn_control_socket = Isolation_blocker"
| "SANDBOX_DENIAL_CLASS Dn_device = Isolation_blocker"
| "SANDBOX_DENIAL_CLASS Dn_process_escape = Isolation_blocker"
| "SANDBOX_DENIAL_CLASS Dn_git_commit_blocked = Config_blocker"
| "SANDBOX_DENIAL_CLASS Dn_git_branch_blocked = Config_blocker"
| "SANDBOX_DENIAL_CLASS Dn_git_remote_blocked = Config_blocker"
| "SANDBOX_DENIAL_CLASS Dn_git_push_blocked = Config_blocker"
| "SANDBOX_DENIAL_CLASS Dn_git_fetch_blocked = Config_blocker"
| "SANDBOX_DENIAL_CLASS Dn_git_worktree_blocked = Config_blocker"
| "SANDBOX_DENIAL_CLASS Dn_git_credential_blocked = Auth_blocker"
| "SANDBOX_DENIAL_CLASS Dn_network_private = Isolation_blocker"
| "SANDBOX_DENIAL_CLASS Dn_network_loopback = Isolation_blocker"
| "SANDBOX_DENIAL_CLASS Dn_network_link_local = Isolation_blocker"
| "SANDBOX_DENIAL_CLASS Dn_network_metadata = Isolation_blocker"
| "SANDBOX_DENIAL_CLASS Dn_network_host_denied = Isolation_blocker"
| "SANDBOX_DENIAL_CLASS Dn_read_only_mount = Isolation_blocker"
| "SANDBOX_DENIAL_CLASS Dn_mount_not_allowed = Isolation_blocker"
| "SANDBOX_DENIAL_CLASS Dn_executable_not_allowed = Isolation_blocker"
| "SANDBOX_DENIAL_CLASS Dn_output_limit = Config_blocker"
| "SANDBOX_DENIAL_CLASS Dn_timeout_limit = Config_blocker"
| "SANDBOX_DENIAL_CLASS Dn_resource_limit = Config_blocker"

datatype node_outcome_kind = Outcome_succeeded | Outcome_failed | Outcome_cancelled

record node_outcome =
  no_nodeId :: string
  no_attemptId :: string
  no_kind :: node_outcome_kind
  no_text :: string
  no_artifacts :: "(string \<times> string) list"
  no_revision :: "string option"
  no_usage :: "int \<times> int \<times> int"

fun classify_receipts :: "gate_receipt list \<Rightarrow> failure_class option" where
  "classify_receipts [] = None"
| "classify_receipts (r # rs) =
     (if gr_outcome r = Gate_missing_executable then Some Config_blocker
      else if gr_outcome r \<noteq> Gate_passed then Some Gate_failure_class
      else classify_receipts rs)"

definition classifyFailure ::
    "node_outcome \<Rightarrow> gate_receipt list \<Rightarrow> sandbox_denial_code option \<Rightarrow> failure_class" where
  "classifyFailure out receipts sandboxError = (case sandboxError of
     Some code \<Rightarrow> SANDBOX_DENIAL_CLASS code
   | None \<Rightarrow> (case classify_receipts receipts of
       Some c \<Rightarrow> c
     | None \<Rightarrow> (case no_kind out of
         Outcome_failed \<Rightarrow> Harness_failure
       | Outcome_cancelled \<Rightarrow> Infrastructure_error
       | Outcome_succeeded \<Rightarrow> Human_intervention_required)))"

section \<open>Signatures and budgets\<close>

record no_progress_signature =
  sg_failureClass :: failure_class
  sg_changedPathsDigest :: string
  sg_headCommit :: string
  sg_outputDigest :: string

definition signaturesEqual :: "no_progress_signature \<Rightarrow> no_progress_signature \<Rightarrow> bool" where
  "signaturesEqual l r \<longleftrightarrow> sg_failureClass l = sg_failureClass r \<and>
     sg_changedPathsDigest l = sg_changedPathsDigest r \<and> sg_headCommit l = sg_headCommit r \<and>
     sg_outputDigest l = sg_outputDigest r"

definition isNoProgress :: "no_progress_signature list \<Rightarrow> no_progress_signature \<Rightarrow> bool" where
  "isNoProgress previous s = list_ex (\<lambda>prior. signaturesEqual prior s) previous"

record retry_budget =
  bu_nodeBudget :: int
  bu_consumed :: int
  bu_ceiling :: int
  bu_remaining :: int

definition DEFAULT_REPAIR_CEILING :: int where
  "DEFAULT_REPAIR_CEILING = 3"

definition createRetryBudget :: "number \<Rightarrow> number \<Rightarrow> range_error + retry_budget" where
  "createRetryBudget cap consumed =
     bindE (guardE (isSafeInteger cap \<and> \<not> int_of_number cap < 0) Range_error) (\<lambda>_.
     bindE (guardE (isSafeInteger consumed \<and> \<not> int_of_number consumed < 0) Range_error) (\<lambda>_.
     let c = int_of_number cap; k = min (int_of_number consumed) c in
       Inr \<lparr>bu_nodeBudget = c, bu_consumed = k, bu_ceiling = c, bu_remaining = max 0 (c - k)\<rparr>))"

definition canRetry :: "retry_budget \<Rightarrow> bool" where
  "canRetry b \<longleftrightarrow> bu_remaining b > 0"

definition consume :: "retry_budget \<Rightarrow> range_error + retry_budget" where
  "consume b = createRetryBudget (number_of_int (bu_ceiling b)) (number_of_int (bu_consumed b + 1))"

section \<open>The decision\<close>

datatype repair_action = Retry | Escalate | Terminal

record repair_decision =
  rd_action :: repair_action
  rd_failureClass :: failure_class
  rd_budget :: retry_budget
  rd_noProgress :: bool

definition decideRepair ::
    "failure_class \<Rightarrow> retry_budget \<Rightarrow> no_progress_signature list \<Rightarrow> no_progress_signature \<Rightarrow> bool \<Rightarrow>
     repair_decision" where
  "decideRepair c b previous current humanChangedFiles =
     (let decision = (\<lambda>a np. \<lparr>rd_action = a, rd_failureClass = c, rd_budget = b, rd_noProgress = np\<rparr>) in
      if IS_BLOCKER_FAILURE_CLASS c then decision Escalate False
      else if IS_TERMINAL_FAILURE_CLASS c then decision Terminal False
      else if humanChangedFiles then decision Escalate False
      else if isNoProgress previous current then decision Escalate True
      else if \<not> canRetry b then decision Escalate False
      else decision Retry False)"

section \<open>The coordinator\<close>

datatype coordinator_error_code =
    Not_leased | Sandbox_unavailable | Harness_unavailable | Policy_violation
  | Checkpoint_failed | Transcript_failed | Outcome_failed_code | Interrupted

fun classifyCoordinatorError :: "coordinator_error_code \<Rightarrow> failure_class" where
  "classifyCoordinatorError Sandbox_unavailable = Isolation_blocker"
| "classifyCoordinatorError Policy_violation = Config_blocker"
| "classifyCoordinatorError _ = Infrastructure_error"

datatype thrown_error =
    Threw_sandbox sandbox_denial_code string
  | Threw_coordinator coordinator_error_code string
  | Threw_other string

record workspace_status =
  wst_headCommit :: string
  wst_porcelainV2 :: string
  wst_diff :: string

record working_copy_snapshot =
  ws_headCommit :: string
  ws_porcelainDigest :: string
  ws_diffDigest :: string

record attempt_evidence =
  ae_attemptId :: string
  ae_failureClass :: failure_class
  ae_outcome :: "node_outcome option"
  ae_gateReceipts :: "gate_receipt list"
  ae_signature :: no_progress_signature
  ae_errorMessage :: "string option"

datatype attention_kind = Att_blocked | Att_no_progress | Att_budget_exhausted | Att_human_change

record repair_attention =
  ra_nodeId :: string
  ra_treeId :: string
  ra_failureClass :: failure_class
  ra_attemptCount :: nat
  ra_evidenceRefs :: "(string \<times> string \<times> nat list) list"
  ra_attentionKind :: attention_kind

datatype repair_status = Repaired | Escalated

record repair_outcome =
  ro_nodeId :: string
  ro_treeId :: string
  ro_status :: repair_status
  ro_attempts :: "attempt_evidence list"
  ro_budget :: retry_budget
  ro_decision :: "repair_decision option"
  ro_attention :: "repair_attention option"

datatype repair_error = Repair_invalid_input | Repair_gate_run_failed | Repair_vcs_failed
  | Repair_port_failed | Repair_range_error

record repair_input =
  rin_nodeId :: string
  rin_treeId :: string
  rin_attemptId :: string
  rin_gates :: "gate_run_request option"
  rin_ceiling :: "number option"

datatype run_answer = Ran node_outcome | Threw thrown_error

text \<open>The ports: each answers by the number of the call.\<close>

record repair_env =
  re_run :: "nat \<Rightarrow> run_answer"
  re_status :: "nat \<Rightarrow> workspace_status option"
  re_gates :: "nat \<Rightarrow> gate_run_request \<Rightarrow> gate_receipt list option"
  re_record :: bool
  re_sink :: bool
  re_digest :: "string \<Rightarrow> string"

datatype repair_effect = Ran_node | Ran_gates string | Recorded_outcome node_outcome
  | Persisted_attention repair_attention

record repair_state =
  rp_budget :: retry_budget
  rp_signatures :: "no_progress_signature list"
  rp_attempts :: "attempt_evidence list"
  rp_lastAttempt :: "attempt_evidence option"
  rp_lastPostSnapshot :: "working_copy_snapshot option"
  rp_runs :: nat
  rp_statuses :: nat
  rp_gateRuns :: nat
  rp_log :: "repair_effect list"

definition toSnapshot :: "(string \<Rightarrow> string) \<Rightarrow> workspace_status \<Rightarrow> working_copy_snapshot" where
  "toSnapshot digest s = \<lparr>ws_headCommit = wst_headCommit s,
     ws_porcelainDigest = digest (wst_porcelainV2 s), ws_diffDigest = digest (wst_diff s)\<rparr>"

definition snapshotsEqual :: "working_copy_snapshot \<Rightarrow> working_copy_snapshot \<Rightarrow> bool" where
  "snapshotsEqual l r \<longleftrightarrow> ws_headCommit l = ws_headCommit r \<and>
     ws_porcelainDigest l = ws_porcelainDigest r \<and> ws_diffDigest l = ws_diffDigest r"

fun outcome_name :: "gate_outcome \<Rightarrow> string" where
  "outcome_name Gate_passed = ''passed''"
| "outcome_name Gate_failed = ''failed''"
| "outcome_name Gate_timeout = ''timeout''"
| "outcome_name Gate_cancelled = ''cancelled''"
| "outcome_name Gate_missing_executable = ''missing_executable''"
| "outcome_name Gate_error = ''error''"

definition buildSignature ::
    "failure_class \<Rightarrow> working_copy_snapshot \<Rightarrow> string \<Rightarrow> gate_receipt list \<Rightarrow> (string \<Rightarrow> string) \<Rightarrow>
     no_progress_signature" where
  "buildSignature c snap outcomeText receipts digest =
     (let gatePart = join ''|'' (map (\<lambda>r. gr_gateName r @ '':'' @ outcome_name (gr_outcome r) @ '':'' @
            gr_stdoutDigest r @ '':'' @ gr_stderrDigest r) receipts)
      in \<lparr>sg_failureClass = c, sg_changedPathsDigest = ws_porcelainDigest snap,
          sg_headCommit = ws_headCommit snap,
          sg_outputDigest = digest (outcomeText @ [CHR 0x0A] @ gatePart)\<rparr>)"

definition synthesizedFailedOutcome :: "string \<Rightarrow> string \<Rightarrow> string \<Rightarrow> node_outcome" where
  "synthesizedFailedOutcome nid aid message = \<lparr>no_nodeId = nid, no_attemptId = aid,
     no_kind = Outcome_failed, no_text = message, no_artifacts = [], no_revision = None,
     no_usage = (0, 0, 0)\<rparr>"

fun thrown_message :: "thrown_error \<Rightarrow> string" where
  "thrown_message (Threw_sandbox c m) = m"
| "thrown_message (Threw_coordinator c m) = m"
| "thrown_message (Threw_other m) = m"

fun captureThrown :: "thrown_error \<Rightarrow> sandbox_denial_code option \<times> failure_class option" where
  "captureThrown (Threw_sandbox c m) = (Some c, None)"
| "captureThrown (Threw_coordinator c m) = (None, Some (classifyCoordinatorError c))"
| "captureThrown (Threw_other m) = (None, None)"

definition evidenceRefsFromAttempts ::
    "attempt_evidence list \<Rightarrow> (string \<times> string \<times> nat list) list" where
  "evidenceRefsFromAttempts attempts = map (\<lambda>a. (ae_attemptId a,
     (case ae_outcome a of Some out \<Rightarrow> no_text out
      | None \<Rightarrow> (case ae_errorMessage a of Some m \<Rightarrow> m | None \<Rightarrow> '''')),
     map gr_sequence (ae_gateReceipts a))) attempts"

definition attentionKindForDecision :: "repair_decision \<Rightarrow> attention_kind" where
  "attentionKindForDecision d = (if rd_noProgress d then Att_no_progress else Att_blocked)"

text \<open>An iteration ends the run with a result, or goes on with a new state.\<close>

datatype iteration = Finished "repair_error + repair_outcome" "repair_effect list"
  | Continue repair_state

definition escalate ::
    "repair_env \<Rightarrow> repair_input \<Rightarrow> repair_state \<Rightarrow> repair_decision \<Rightarrow> attention_kind \<Rightarrow> iteration" where
  "escalate e i s d kind =
     (let attention = \<lparr>ra_nodeId = rin_nodeId i, ra_treeId = rin_treeId i,
            ra_failureClass = rd_failureClass d, ra_attemptCount = length (rp_attempts s),
            ra_evidenceRefs = evidenceRefsFromAttempts (rp_attempts s), ra_attentionKind = kind\<rparr>
      in Finished (Inr \<lparr>ro_nodeId = rin_nodeId i, ro_treeId = rin_treeId i, ro_status = Escalated,
           ro_attempts = rp_attempts s, ro_budget = rp_budget s, ro_decision = Some d,
           ro_attention = Some attention\<rparr>)
         (if re_sink e then rp_log s @ [Persisted_attention attention] else rp_log s))"

definition captureSnapshot ::
    "repair_env \<Rightarrow> repair_state \<Rightarrow> working_copy_snapshot option \<times> repair_state" where
  "captureSnapshot e s =
     (map_option (toSnapshot (re_digest e)) (re_status e (rp_statuses s)),
      s\<lparr>rp_statuses := Suc (rp_statuses s)\<rparr>)"

definition failure_of :: "run_answer \<Rightarrow> node_outcome \<Rightarrow> gate_receipt list \<Rightarrow> failure_class" where
  "failure_of answer out receipts = (case answer of
     Ran _ \<Rightarrow> classifyFailure out receipts None
   | Threw t \<Rightarrow> (case snd (captureThrown t) of
       Some c \<Rightarrow> c
     | None \<Rightarrow> classifyFailure out receipts (fst (captureThrown t))))"

definition outcome_of :: "repair_input \<Rightarrow> run_answer \<Rightarrow> node_outcome" where
  "outcome_of i answer = (case answer of
     Ran out \<Rightarrow> out
   | Threw t \<Rightarrow> synthesizedFailedOutcome (rin_nodeId i) (rin_attemptId i) (thrown_message t))"

text \<open>What the loop does with an attempt, after its post snapshot and its gates.\<close>

definition conclude_attempt ::
    "repair_env \<Rightarrow> repair_input \<Rightarrow> run_answer \<Rightarrow> working_copy_snapshot \<Rightarrow> gate_receipt list \<Rightarrow>
     repair_state \<Rightarrow> iteration" where
  "conclude_attempt e i answer post receipts s =
     (let out = outcome_of i answer;
          failureClass = failure_of answer out receipts;
          result = (case answer of Ran x \<Rightarrow> Some x | Threw _ \<Rightarrow> None)
      in if result \<noteq> None \<and> no_kind out = Outcome_succeeded \<and>
            list_all (\<lambda>r. gr_outcome r = Gate_passed) receipts
         then (if re_record e
           then Finished (Inr \<lparr>ro_nodeId = rin_nodeId i, ro_treeId = rin_treeId i,
                  ro_status = Repaired, ro_attempts = rp_attempts s, ro_budget = rp_budget s,
                  ro_decision = None, ro_attention = None\<rparr>) (rp_log s @ [Recorded_outcome out])
           else Finished (Inl Repair_port_failed) (rp_log s))
         else
           (let signature = buildSignature failureClass post (no_text out) receipts (re_digest e);
                decision = decideRepair failureClass (rp_budget s) (rp_signatures s) signature False;
                evidence = \<lparr>ae_attemptId = rin_attemptId i, ae_failureClass = failureClass,
                  ae_outcome = result, ae_gateReceipts = receipts, ae_signature = signature,
                  ae_errorMessage =
                    (case answer of Ran _ \<Rightarrow> None | Threw t \<Rightarrow> Some (thrown_message t))\<rparr>
            in case consume (rp_budget s) of
              Inl _ \<Rightarrow> Finished (Inl Repair_range_error) (rp_log s)
            | Inr b \<Rightarrow>
                (let s' = s\<lparr>rp_attempts := rp_attempts s @ [evidence],
                            rp_signatures := rp_signatures s @ [signature],
                            rp_lastAttempt := Some evidence, rp_budget := b\<rparr>
                 in if rd_action decision = Retry then Continue s'
                    else escalate e i s' decision (attentionKindForDecision decision))))"

definition run_attempt :: "repair_env \<Rightarrow> repair_input \<Rightarrow> repair_state \<Rightarrow> iteration" where
  "run_attempt e i s =
     (let answer = re_run e (rp_runs s);
          s1 = s\<lparr>rp_runs := Suc (rp_runs s), rp_log := rp_log s @ [Ran_node]\<rparr>;
          (snap, s2) = captureSnapshot e s1
      in case snap of
        None \<Rightarrow> Finished (Inl Repair_vcs_failed) (rp_log s2)
      | Some post \<Rightarrow>
          (let s3 = s2\<lparr>rp_lastPostSnapshot := Some post\<rparr> in
           case (answer, rin_gates i) of
             (Ran out, Some base) \<Rightarrow>
               (let rq = base\<lparr>grr_headCommit := ws_headCommit post,
                              grr_attemptId := Some (rin_attemptId i)\<rparr>;
                    s4 = s3\<lparr>rp_gateRuns := Suc (rp_gateRuns s3),
                            rp_log := rp_log s3 @ [Ran_gates (ws_headCommit post)]\<rparr>
                in case re_gates e (rp_gateRuns s3) rq of
                  None \<Rightarrow> Finished (Inl Repair_gate_run_failed) (rp_log s4)
                | Some receipts \<Rightarrow> conclude_attempt e i answer post receipts s4)
           | _ \<Rightarrow> conclude_attempt e i answer post [] s3))"

definition repair_iteration :: "repair_env \<Rightarrow> repair_input \<Rightarrow> repair_state \<Rightarrow> iteration" where
  "repair_iteration e i s = (case rp_lastAttempt s of
     None \<Rightarrow> run_attempt e i s
   | Some prev \<Rightarrow>
       if bu_remaining (rp_budget s) \<le> 0
       then escalate e i s \<lparr>rd_action = Escalate, rd_failureClass = ae_failureClass prev,
              rd_budget = rp_budget s, rd_noProgress = False\<rparr> Att_budget_exhausted
       else (case rp_lastPostSnapshot s of
         None \<Rightarrow> run_attempt e i s
       | Some post \<Rightarrow>
           (case captureSnapshot e s of
             (None, s1) \<Rightarrow> Finished (Inl Repair_vcs_failed) (rp_log s1)
           | (Some current, s1) \<Rightarrow>
               if \<not> snapshotsEqual current post
               then escalate e i s1 (decideRepair (ae_failureClass prev) (rp_budget s1)
                      (rp_signatures s1) (ae_signature prev) True) Att_human_change
               else run_attempt e i s1)))"

partial_function (option) repair_loop ::
    "repair_env \<Rightarrow> repair_input \<Rightarrow> repair_state \<Rightarrow>
     ((repair_error + repair_outcome) \<times> repair_effect list) option" where
  "repair_loop e i s = (case repair_iteration e i s of
     Finished r lg \<Rightarrow> Some (r, lg)
   | Continue s' \<Rightarrow> repair_loop e i s')"

declare repair_loop.simps [code]

definition attemptRepair ::
    "repair_env \<Rightarrow> repair_input \<Rightarrow> ((repair_error + repair_outcome) \<times> repair_effect list) option" where
  "attemptRepair e i =
     (let cap = (case rin_ceiling i of None \<Rightarrow> number_of_int DEFAULT_REPAIR_CEILING | Some c \<Rightarrow> c) in
      if \<not> isSafeInteger cap \<or> int_of_number cap < 0 then Some (Inl Repair_invalid_input, [])
      else case createRetryBudget cap (number_of_int 0) of
        Inl _ \<Rightarrow> Some (Inl Repair_range_error, [])
      | Inr b \<Rightarrow> repair_loop e i \<lparr>rp_budget = b, rp_signatures = [], rp_attempts = [],
          rp_lastAttempt = None, rp_lastPostSnapshot = None, rp_runs = 0, rp_statuses = 0,
          rp_gateRuns = 0, rp_log = []\<rparr>)"

section \<open>The loop\<close>

definition budget_ok :: "retry_budget \<Rightarrow> bool" where
  "budget_ok b \<longleftrightarrow> 0 \<le> bu_consumed b \<and> bu_consumed b \<le> bu_ceiling b \<and> safe_int (bu_ceiling b) \<and>
     bu_remaining b = bu_ceiling b - bu_consumed b"

lemma createRetryBudget_Inr:
  "createRetryBudget c k = Inr b \<Longrightarrow> budget_ok b \<and> bu_ceiling b = int_of_number c \<and>
     bu_consumed b = min (int_of_number k) (int_of_number c)"
  by (auto simp: createRetryBudget_def res_simps budget_ok_def Let_def isSafeInteger_iff safe_int_def)

lemma consume_Inr:
  "consume b = Inr b' \<Longrightarrow> budget_ok b' \<and> bu_ceiling b' = bu_ceiling b \<and>
     bu_consumed b' = min (bu_consumed b + 1) (bu_ceiling b)"
  by (auto simp: consume_def dest!: createRetryBudget_Inr)

lemma signaturesEqual_iff [simp]: "signaturesEqual l r \<longleftrightarrow> l = r"
  by (auto simp: signaturesEqual_def)

lemma isNoProgress_iff: "isNoProgress previous s \<longleftrightarrow> s \<in> set previous"
  by (auto simp: isNoProgress_def list_ex_iff)

definition retryable :: "failure_class \<Rightarrow> bool" where
  "retryable c \<longleftrightarrow> \<not> IS_BLOCKER_FAILURE_CLASS c \<and> \<not> IS_TERMINAL_FAILURE_CLASS c"

lemma decide_retry:
  "rd_action (decideRepair c b previous current human) = Retry \<longleftrightarrow>
     retryable c \<and> \<not> human \<and> current \<notin> set previous \<and> bu_remaining b > 0"
  by (simp add: decideRepair_def Let_def retryable_def isNoProgress_iff canRetry_def)

definition run_count :: "repair_effect list \<Rightarrow> nat" where
  "run_count lg = length (filter (\<lambda>x. x = Ran_node) lg)"

lemma run_count_simps [simp]:
  "run_count [] = 0" "run_count (xs @ ys) = run_count xs + run_count ys"
  "run_count [Ran_node] = 1" "run_count [Ran_gates h] = 0" "run_count [Recorded_outcome x] = 0"
  "run_count [Persisted_attention a] = 0"
  by (simp_all add: run_count_def)

definition running :: "repair_effect list \<Rightarrow> bool" where
  "running lg \<longleftrightarrow> (\<forall>x\<in>set lg. x = Ran_node \<or> (\<exists>h. x = Ran_gates h))"

text \<open>What holds whenever the loop comes round.\<close>

definition repair_inv :: "repair_state \<Rightarrow> bool" where
  "repair_inv s \<longleftrightarrow> budget_ok (rp_budget s) \<and> bu_consumed (rp_budget s) = int (length (rp_attempts s)) \<and>
     rp_signatures s = map ae_signature (rp_attempts s) \<and> distinct (map ae_signature (rp_attempts s)) \<and>
     (\<forall>a\<in>set (rp_attempts s). retryable (ae_failureClass a)) \<and>
     (rp_lastAttempt s = None \<longleftrightarrow> rp_attempts s = []) \<and>
     run_count (rp_log s) = length (rp_attempts s) \<and> running (rp_log s)"

text \<open>When the node has gates, the last effect ran them and they all passed.\<close>

definition gated :: "repair_env \<Rightarrow> repair_input \<Rightarrow> repair_effect list \<Rightarrow> bool" where
  "gated e i pre \<longleftrightarrow> (rin_gates i \<noteq> None \<longrightarrow> (\<exists>h n rq receipts. last pre = Ran_gates h \<and>
     grr_headCommit rq = h \<and> re_gates e n rq = Some receipts \<and>
     (\<forall>q\<in>set receipts. gr_outcome q = Gate_passed)))"

text \<open>How a run can end.\<close>

definition repair_end :: "repair_env \<Rightarrow> repair_input \<Rightarrow> int \<Rightarrow> repair_error + repair_outcome \<Rightarrow>
    repair_effect list \<Rightarrow> bool" where
  "repair_end e i limit r lg \<longleftrightarrow> int (run_count lg) \<le> max 1 limit \<and>
     (case r of Inl _ \<Rightarrow> running lg
      | Inr out \<Rightarrow> (case ro_status out of
          Escalated \<Rightarrow> (\<forall>x. Recorded_outcome x \<notin> set lg) \<and>
            (\<forall>a. Persisted_attention a \<in> set lg \<longrightarrow> ro_attention out = Some a) \<and>
            length (ro_attempts out) = run_count lg \<and>
            distinct (map ae_signature (butlast (ro_attempts out))) \<and>
            (\<forall>a\<in>set (butlast (ro_attempts out)). retryable (ae_failureClass a)) \<and>
            (\<exists>a. ro_attention out = Some a \<and> ra_attemptCount a = run_count lg)
        | Repaired \<Rightarrow> (\<exists>pre x. lg = pre @ [Recorded_outcome x] \<and> running pre \<and> gated e i pre \<and>
            no_kind x = Outcome_succeeded \<and> length (ro_attempts out) + 1 = run_count lg)))"

lemma escalate_end:
  assumes "running (rp_log s)" and "run_count (rp_log s) = length (rp_attempts s)"
    and "int (length (rp_attempts s)) \<le> max 1 limit"
    and "distinct (map ae_signature (butlast (rp_attempts s)))"
    and "\<forall>a\<in>set (butlast (rp_attempts s)). retryable (ae_failureClass a)"
    and "escalate e i s d k = Finished r lg"
  shows "repair_end e i limit r lg"
  using assms
  by (auto simp: escalate_def Let_def repair_end_def running_def split: if_splits)

lemma running_append [simp]: "running (xs @ ys) \<longleftrightarrow> running xs \<and> running ys"
  by (auto simp: running_def)

lemma running_simps [simp]: "running []" "running [Ran_node]" "running [Ran_gates h]"
  by (simp_all add: running_def)

text \<open>The state just before an attempt is concluded.\<close>

definition concluding :: "repair_state \<Rightarrow> bool" where
  "concluding s \<longleftrightarrow> budget_ok (rp_budget s) \<and> bu_consumed (rp_budget s) = int (length (rp_attempts s)) \<and>
     (rp_attempts s \<noteq> [] \<longrightarrow> bu_remaining (rp_budget s) > 0) \<and>
     rp_signatures s = map ae_signature (rp_attempts s) \<and> distinct (map ae_signature (rp_attempts s)) \<and>
     (\<forall>a\<in>set (rp_attempts s). retryable (ae_failureClass a)) \<and>
     run_count (rp_log s) = Suc (length (rp_attempts s)) \<and> running (rp_log s)"

lemma concluding_runs:
  "concluding s \<Longrightarrow> int (Suc (length (rp_attempts s))) \<le> max 1 (bu_ceiling (rp_budget s))"
  by (cases "rp_attempts s = []") (auto simp: concluding_def budget_ok_def)

lemma concluding_count: "concluding s \<Longrightarrow> run_count (rp_log s) = Suc (length (rp_attempts s))"
  by (simp add: concluding_def)

lemma concluding_running: "concluding s \<Longrightarrow> running (rp_log s)"
  by (simp add: concluding_def)

lemma conclude_continue:
  assumes s: "concluding s" and c: "conclude_attempt e i answer post receipts s = Continue s'"
  shows "repair_inv s' \<and> bu_ceiling (rp_budget s') = bu_ceiling (rp_budget s) \<and>
    bu_remaining (rp_budget s') + 1 = bu_remaining (rp_budget s)"
proof -
  from c obtain b where b: "consume (rp_budget s) = Inr b"
    and d: "retryable (failure_of answer (outcome_of i answer) receipts)"
      "bu_remaining (rp_budget s) > 0"
      "buildSignature (failure_of answer (outcome_of i answer) receipts) post
         (no_text (outcome_of i answer)) receipts (re_digest e) \<notin> set (rp_signatures s)"
    and s': "rp_budget s' = b" "rp_log s' = rp_log s"
      "\<exists>ev. rp_attempts s' = rp_attempts s @ [ev] \<and>
        rp_signatures s' = rp_signatures s @ [ae_signature ev] \<and> rp_lastAttempt s' = Some ev \<and>
        ae_failureClass ev = failure_of answer (outcome_of i answer) receipts \<and>
        ae_signature ev = buildSignature (failure_of answer (outcome_of i answer) receipts) post
         (no_text (outcome_of i answer)) receipts (re_digest e)"
    by (auto simp: conclude_attempt_def Let_def decide_retry escalate_def
        split: if_splits sum.splits)
  from consume_Inr [OF b] s d(2) have "budget_ok b" "bu_ceiling b = bu_ceiling (rp_budget s)"
    "bu_consumed b = bu_consumed (rp_budget s) + 1"
    by (auto simp: concluding_def budget_ok_def)
  with s s' d show ?thesis by (auto simp: repair_inv_def concluding_def budget_ok_def)
qed

lemma conclude_finished:
  assumes s: "concluding s" and c: "conclude_attempt e i answer post receipts s = Finished r lg"
    and gates: "rin_gates i \<noteq> None \<Longrightarrow> (\<exists>out. answer = Ran out) \<Longrightarrow>
      \<exists>n h rq. last (rp_log s) = Ran_gates h \<and> grr_headCommit rq = h \<and>
        re_gates e n rq = Some receipts"
  shows "repair_end e i (bu_ceiling (rp_budget s)) r lg"
proof (cases "\<exists>out. answer = Ran out \<and> no_kind out = Outcome_succeeded \<and>
    list_all (\<lambda>r. gr_outcome r = Gate_passed) receipts")
  case True
  then obtain out where out: "answer = Ran out" "no_kind out = Outcome_succeeded"
    "\<forall>q\<in>set receipts. gr_outcome q = Gate_passed" by (auto simp: list_all_iff)
  show ?thesis
  proof (cases "re_record e")
    case True
    have "gated e i (rp_log s)" using gates out(1,3) unfolding gated_def by blast
    with True out c s concluding_runs [OF s] show ?thesis
      by (auto simp: conclude_attempt_def Let_def outcome_of_def list_all_iff repair_end_def
          concluding_def)
  next
    case False
    with out c s concluding_runs [OF s] show ?thesis
      by (auto simp: conclude_attempt_def Let_def outcome_of_def list_all_iff repair_end_def
          concluding_def)
  qed
next
  case False
  show ?thesis
  proof (cases "consume (rp_budget s)")
    case (Inl x)
    with False c s concluding_runs [OF s] show ?thesis
      by (cases answer) (auto simp: conclude_attempt_def Let_def outcome_of_def repair_end_def
          concluding_def synthesizedFailedOutcome_def)
  next
    case (Inr b)
    with False c obtain ev sg d k where esc: "escalate e i (s\<lparr>rp_attempts := rp_attempts s @ [ev],
        rp_signatures := sg, rp_lastAttempt := Some ev, rp_budget := b\<rparr>) d k = Finished r lg"
      by (cases answer) (auto simp: conclude_attempt_def Let_def outcome_of_def
          synthesizedFailedOutcome_def split: if_splits)
    show ?thesis
      by (rule escalate_end [OF _ _ _ _ _ esc])
        (use s concluding_runs [OF s] in \<open>auto simp: concluding_def\<close>)
  qed
qed

lemma run_attempt_cases:
  assumes inv: "repair_inv s" and pos: "rp_attempts s \<noteq> [] \<longrightarrow> bu_remaining (rp_budget s) > 0"
  shows "(\<exists>r lg. run_attempt e i s = Finished r lg \<and>
      repair_end e i (bu_ceiling (rp_budget s)) r lg) \<or>
    (\<exists>s'. run_attempt e i s = Continue s' \<and> repair_inv s' \<and>
      bu_ceiling (rp_budget s') = bu_ceiling (rp_budget s) \<and>
      bu_remaining (rp_budget s') + 1 = bu_remaining (rp_budget s))"
proof -
  define s2 where "s2 = s\<lparr>rp_runs := Suc (rp_runs s), rp_log := rp_log s @ [Ran_node],
    rp_statuses := Suc (rp_statuses s)\<rparr>"
  have c2: "concluding s2" using inv pos by (auto simp: s2_def repair_inv_def concluding_def)
  have lim: "bu_ceiling (rp_budget s2) = bu_ceiling (rp_budget s)"
    "bu_remaining (rp_budget s2) = bu_remaining (rp_budget s)"
    by (simp_all add: s2_def)
  have runs: "int (run_count (rp_log s2)) \<le> max 1 (bu_ceiling (rp_budget s))"
    using concluding_runs [OF c2] concluding_count [OF c2] lim by simp
  show ?thesis
  proof (cases "re_status e (rp_statuses s)")
    case None
    then have "run_attempt e i s = Finished (Inl Repair_vcs_failed) (rp_log s2)"
      by (simp add: run_attempt_def Let_def captureSnapshot_def s2_def)
    with runs concluding_running [OF c2] show ?thesis by (simp add: repair_end_def)
  next
    case (Some st)
    let ?post = "toSnapshot (re_digest e) st"
    define s3 where "s3 = s2\<lparr>rp_lastPostSnapshot := Some ?post\<rparr>"
    define s4 where "s4 = s3\<lparr>rp_gateRuns := Suc (rp_gateRuns s3),
                            rp_log := rp_log s3 @ [Ran_gates (ws_headCommit ?post)]\<rparr>"
    have c3: "concluding s3" using c2 unfolding s3_def concluding_def by simp
    have c4: "concluding s4" using c3 unfolding s4_def concluding_def by simp
    have lim34: "bu_ceiling (rp_budget s3) = bu_ceiling (rp_budget s)"
      "bu_remaining (rp_budget s3) = bu_remaining (rp_budget s)"
      "bu_ceiling (rp_budget s4) = bu_ceiling (rp_budget s)"
      "bu_remaining (rp_budget s4) = bu_remaining (rp_budget s)"
      by (simp_all add: s3_def s4_def lim)
    let ?answer = "re_run e (rp_runs s)"
    have conc: "(\<exists>r lg. conclude_attempt e i ?answer ?post receipts t = Finished r lg \<and>
        repair_end e i (bu_ceiling (rp_budget s)) r lg) \<or>
      (\<exists>s'. conclude_attempt e i ?answer ?post receipts t = Continue s' \<and> repair_inv s' \<and>
        bu_ceiling (rp_budget s') = bu_ceiling (rp_budget s) \<and>
        bu_remaining (rp_budget s') + 1 = bu_remaining (rp_budget s))"
      if t: "concluding t" "bu_ceiling (rp_budget t) = bu_ceiling (rp_budget s)"
        "bu_remaining (rp_budget t) = bu_remaining (rp_budget s)"
        and g: "rin_gates i \<noteq> None \<Longrightarrow> (\<exists>out. ?answer = Ran out) \<Longrightarrow>
          \<exists>n h rq. last (rp_log t) = Ran_gates h \<and> grr_headCommit rq = h \<and>
            re_gates e n rq = Some receipts" for t receipts
      using conclude_finished [OF t(1) _ g] conclude_continue [OF t(1)] t(2,3)
      by (cases "conclude_attempt e i ?answer ?post receipts t") auto
    show ?thesis
    proof (cases "\<exists>out base. ?answer = Ran out \<and> rin_gates i = Some base")
      case True
      then obtain out base where ob: "?answer = Ran out" "rin_gates i = Some base" by blast
      let ?rq = "base\<lparr>grr_headCommit := ws_headCommit ?post, grr_attemptId := Some (rin_attemptId i)\<rparr>"
      show ?thesis
      proof (cases "re_gates e (rp_gateRuns s3) ?rq")
        case None
        then have "run_attempt e i s = Finished (Inl Repair_gate_run_failed) (rp_log s4)"
          using Some ob by (simp add: run_attempt_def Let_def captureSnapshot_def s2_def s3_def s4_def)
        moreover have "run_count (rp_log s4) = run_count (rp_log s2)" by (simp add: s4_def s3_def)
        ultimately show ?thesis using runs concluding_running [OF c4] by (simp add: repair_end_def)
      next
        case (Some receipts)
        then have "run_attempt e i s = conclude_attempt e i ?answer ?post receipts s4"
          using \<open>re_status e (rp_statuses s) = Some st\<close> ob
          by (simp add: run_attempt_def Let_def captureSnapshot_def s2_def s3_def s4_def)
        moreover have "\<exists>n h rq. last (rp_log s4) = Ran_gates h \<and> grr_headCommit rq = h \<and>
            re_gates e n rq = Some receipts"
          using Some by (intro exI [of _ "rp_gateRuns s3"] exI [of _ "ws_headCommit ?post"]
              exI [of _ ?rq]) (simp add: s4_def)
        ultimately show ?thesis using conc [OF c4 lim34(3,4)] by simp
      qed
    next
      case False
      then have "run_attempt e i s = conclude_attempt e i ?answer ?post [] s3"
        using Some by (cases ?answer; cases "rin_gates i")
          (auto simp: run_attempt_def Let_def captureSnapshot_def s2_def s3_def)
      moreover have "rin_gates i \<noteq> None \<Longrightarrow> \<exists>out. ?answer = Ran out \<Longrightarrow>
          \<exists>n h rq. last (rp_log s3) = Ran_gates h \<and> grr_headCommit rq = h \<and>
            re_gates e n rq = Some []"
        using False by blast
      note conc [OF c3 lim34(1,2) this]
      ultimately show ?thesis by simp
    qed
  qed
qed

lemma repair_iteration_cases:
  assumes inv: "repair_inv s"
  shows "(\<exists>r lg. repair_iteration e i s = Finished r lg \<and>
      repair_end e i (bu_ceiling (rp_budget s)) r lg) \<or>
    (\<exists>s'. repair_iteration e i s = Continue s' \<and> repair_inv s' \<and>
      bu_ceiling (rp_budget s') = bu_ceiling (rp_budget s) \<and>
      bu_remaining (rp_budget s') + 1 = bu_remaining (rp_budget s) \<and>
      (rp_attempts s \<noteq> [] \<longrightarrow> bu_remaining (rp_budget s) > 0))"
proof (cases "rp_lastAttempt s")
  case None
  with inv have "rp_attempts s = []" by (simp add: repair_inv_def)
  with None run_attempt_cases [OF inv, of e i] show ?thesis by (simp add: repair_iteration_def)
next
  case (Some prev)
  have runs: "int (length (rp_attempts s)) \<le> max 1 (bu_ceiling (rp_budget s))"
    using inv by (auto simp: repair_inv_def budget_ok_def)
  have bl: "distinct (map ae_signature (butlast (rp_attempts s)))"
    "\<forall>a\<in>set (butlast (rp_attempts s)). retryable (ae_failureClass a)"
    using inv by (auto simp: repair_inv_def map_butlast distinct_butlast dest: in_set_butlastD)
  have esc: "\<exists>r lg. escalate e i t d k = Finished r lg \<and>
      repair_end e i (bu_ceiling (rp_budget s)) r lg"
    if "t = s \<or> t = s\<lparr>rp_statuses := Suc (rp_statuses s)\<rparr>" for t d k
  proof -
    obtain r lg where f: "escalate e i t d k = Finished r lg" by (simp add: escalate_def Let_def)
    have "repair_end e i (bu_ceiling (rp_budget s)) r lg"
      by (rule escalate_end [OF _ _ _ _ _ f]) (use that inv runs bl in \<open>auto simp: repair_inv_def\<close>)
    with f show ?thesis by blast
  qed
  show ?thesis
  proof (cases "bu_remaining (rp_budget s) \<le> 0")
    case True
    with Some esc [of s] show ?thesis by (simp add: repair_iteration_def)
  next
    case pos: False
    show ?thesis
    proof (cases "rp_lastPostSnapshot s")
      case None
      with Some pos run_attempt_cases [OF inv, of e i] show ?thesis
        by (simp add: repair_iteration_def)
    next
      case post: (Some post)
      let ?s1 = "s\<lparr>rp_statuses := Suc (rp_statuses s)\<rparr>"
      have inv1: "repair_inv ?s1" using inv by (simp add: repair_inv_def)
      show ?thesis
      proof (cases "re_status e (rp_statuses s)")
        case None
        then have "repair_iteration e i s = Finished (Inl Repair_vcs_failed) (rp_log s)"
          using Some post pos by (simp add: repair_iteration_def captureSnapshot_def)
        with inv runs show ?thesis by (auto simp: repair_end_def repair_inv_def)
      next
        case st: (Some st)
        show ?thesis
        proof (cases "snapshotsEqual (toSnapshot (re_digest e) st) post")
          case True
          then have "repair_iteration e i s = run_attempt e i ?s1"
            using Some post pos st by (simp add: repair_iteration_def captureSnapshot_def)
          with run_attempt_cases [OF inv1, of e i] pos show ?thesis by simp
        next
          case False
          with Some post pos st esc [of ?s1] show ?thesis
            by (simp add: repair_iteration_def captureSnapshot_def)
        qed
      qed
    qed
  qed
qed

lemma repair_loop_returns:
  assumes "repair_inv s" and "rp_attempts s = [] \<or> 0 \<le> bu_remaining (rp_budget s)"
  shows "\<exists>r lg. repair_loop e i s = Some (r, lg) \<and> repair_end e i (bu_ceiling (rp_budget s)) r lg"
  using assms
proof (induction "nat (bu_remaining (rp_budget s))" arbitrary: s rule: less_induct)
  case less
  from repair_iteration_cases [OF less.prems(1), of e i] show ?case
  proof (elim disjE exE conjE)
    fix r lg assume "repair_iteration e i s = Finished r lg"
      "repair_end e i (bu_ceiling (rp_budget s)) r lg"
    then show ?thesis by (simp add: repair_loop.simps [of e i s])
  next
    fix s' assume s': "repair_iteration e i s = Continue s'" "repair_inv s'"
      "bu_ceiling (rp_budget s') = bu_ceiling (rp_budget s)"
      "bu_remaining (rp_budget s') + 1 = bu_remaining (rp_budget s)"
    from s'(2) have "0 \<le> bu_remaining (rp_budget s')" by (simp add: repair_inv_def budget_ok_def)
    with less.hyps [of s'] s' show ?thesis by (simp add: repair_loop.simps [of e i s])
  qed
qed

definition effective_ceiling :: "repair_input \<Rightarrow> number" where
  "effective_ceiling i = (case rin_ceiling i of None \<Rightarrow> number_of_int 3 | Some c \<Rightarrow> c)"

lemma attemptRepair_result:
  assumes "effective_ceiling i = number_of_int c" and "0 \<le> c" and "safe_int c"
  shows "\<exists>r lg. attemptRepair e i = Some (r, lg) \<and> repair_end e i c r lg"
proof -
  let ?cap = "case rin_ceiling i of None \<Rightarrow> number_of_int DEFAULT_REPAIR_CEILING | Some c \<Rightarrow> c"
  have cap: "?cap = number_of_int c"
    using assms(1) by (auto simp: effective_ceiling_def DEFAULT_REPAIR_CEILING_def split: option.splits)
  let ?b = "\<lparr>bu_nodeBudget = c, bu_consumed = 0, bu_ceiling = c, bu_remaining = c\<rparr>"
  have b: "createRetryBudget (number_of_int c) (number_of_int 0) = Inr ?b"
    using assms by (simp add: createRetryBudget_def Let_def safe_int_def max_safe_integer_def)
  let ?s = "\<lparr>rp_budget = ?b, rp_signatures = [], rp_attempts = [],
          rp_lastAttempt = None, rp_lastPostSnapshot = None, rp_runs = 0, rp_statuses = 0,
          rp_gateRuns = 0, rp_log = []\<rparr>"
  have "repair_inv ?s" using assms by (simp add: repair_inv_def budget_ok_def)
  from repair_loop_returns [OF this, of e i]
  obtain r lg where "repair_loop e i ?s = Some (r, lg)" "repair_end e i c r lg" by auto
  moreover have "attemptRepair e i = repair_loop e i ?s"
    using assms(2,3) by (simp only: attemptRepair_def Let_def cap b) simp
  ultimately show ?thesis by auto
qed

section \<open>A concrete run\<close>

definition sampleOutcome :: "node_outcome_kind \<Rightarrow> string \<Rightarrow> node_outcome" where
  "sampleOutcome k t = \<lparr>no_nodeId = ''n'', no_attemptId = ''a'', no_kind = k, no_text = t,
     no_artifacts = [], no_revision = None, no_usage = (0, 0, 0)\<rparr>"

definition sampleRepairInput :: repair_input where
  "sampleRepairInput = \<lparr>rin_nodeId = ''n'', rin_treeId = ''t'', rin_attemptId = ''a'',
     rin_gates = None, rin_ceiling = None\<rparr>"

text \<open>The harness fails once and succeeds the second time.\<close>

definition sampleRepairEnv :: repair_env where
  "sampleRepairEnv = \<lparr>re_run = (\<lambda>k. Ran (if k = 0 then sampleOutcome Outcome_failed ''boom''
       else sampleOutcome Outcome_succeeded ''done'')),
     re_status = (\<lambda>k. Some \<lparr>wst_headCommit = ''c'', wst_porcelainV2 = ''p'', wst_diff = ''d''\<rparr>),
     re_gates = (\<lambda>k rq. None), re_record = True, re_sink = True, re_digest = (\<lambda>x. x)\<rparr>"



section \<open>Properties\<close>

text \<open>C23: A repair run always ends: for every valid ceiling and whatever the ports answer, the loop
  returns, after at most as many attempts as the ceiling allows, or one attempt when the ceiling
  is zero.\<close>

theorem repair_terminates:
  assumes "effective_ceiling i = number_of_int c" and "0 \<le> c" and "safe_int c"
  shows "\<exists>r lg. attemptRepair e i = Some (r, lg) \<and> int (run_count lg) \<le> max 1 c"
  using attemptRepair_result [OF assms, of e] by (auto simp: repair_end_def)

theorem repair_terminates_witness:
  "\<exists>r lg. attemptRepair sampleRepairEnv sampleRepairInput = Some (r, lg) \<and> int (run_count lg) \<le> max 1 3"
  by (rule repair_terminates)
     (simp_all add: effective_ceiling_def sampleRepairInput_def safe_int_def max_safe_integer_def)



text \<open>The loop never spins: every attempt of an escalated run except the last failed in a
  retryable way (a gate, sandbox or harness failure, never a blocker or a terminal class) and left
  a signature no earlier attempt had; the escalation reports every attempt that was run.\<close>

theorem escalation_preserves_evidence:
  assumes "attemptRepair e i = Some (Inr out, lg)" and "ro_status out = Escalated"
  shows "length (ro_attempts out) = run_count lg \<and>
    distinct (map ae_signature (butlast (ro_attempts out))) \<and>
    (\<forall>a\<in>set (butlast (ro_attempts out)).
       ae_failureClass a \<in> {Gate_failure_class, Sandbox_failure, Harness_failure}) \<and>
    (\<exists>a. ro_attention out = Some a \<and> ra_attemptCount a = run_count lg)"
proof -
  from assms(1) have "isSafeInteger (effective_ceiling i)" "\<not> int_of_number (effective_ceiling i) < 0"
    by (auto simp: attemptRepair_def Let_def effective_ceiling_def DEFAULT_REPAIR_CEILING_def
        split: if_splits option.splits)
  then obtain c where c: "effective_ceiling i = number_of_int c" "0 \<le> c" "safe_int c"
    by (auto simp: isSafeInteger_iff)
  have "retryable k \<Longrightarrow> k \<in> {Gate_failure_class, Sandbox_failure, Harness_failure}" for k
    by (cases k) (auto simp: retryable_def IS_BLOCKER_FAILURE_CLASS_def IS_TERMINAL_FAILURE_CLASS_def)
  with attemptRepair_result [OF c, of e] assms show ?thesis by (auto simp: repair_end_def)
qed

definition sampleFailingEnv :: repair_env where
  "sampleFailingEnv = sampleRepairEnv\<lparr>re_run := (\<lambda>k. Ran (sampleOutcome Outcome_failed ''boom''))\<rparr>"

theorem escalation_preserves_evidence_witness:
  "\<exists>out lg. attemptRepair sampleFailingEnv sampleRepairInput = Some (Inr out, lg) \<and>
     length (ro_attempts out) = run_count lg"
proof -
  have "(case attemptRepair sampleFailingEnv sampleRepairInput of
      Some (Inr out, lg) \<Rightarrow> ro_status out = Escalated | _ \<Rightarrow> False)" by code_simp
  then obtain out lg where "attemptRepair sampleFailingEnv sampleRepairInput = Some (Inr out, lg)"
    "ro_status out = Escalated" by (auto split: option.splits prod.splits sum.splits)
  with escalation_preserves_evidence [OF this] show ?thesis by blast
qed

text \<open>
  The comment on the loop says that the budget bounds the attempts to the ceiling. A ceiling of
  zero is accepted and still runs one attempt.
\<close>

lemma zero_ceiling_runs_once:
  "(case attemptRepair sampleFailingEnv (sampleRepairInput\<lparr>rin_ceiling := Some (number_of_int 0)\<rparr>) of
      Some (_, lg) \<Rightarrow> run_count lg = 1 | None \<Rightarrow> False)"
  by code_simp

end
