(* ===== verification/Restack.thy ===== *)
theory Restack
  imports Vcs_Binding Repair "HOL-Library.Product_Lexorder" "HOL-Library.Multiset"
begin

text \<open>
  \<^verbatim>\<open>packages/core/src/restack.ts\<close> and \<^verbatim>\<open>packages/adapters/src/restack-coordinator.ts\<close>: moving the
  descendants of a rewritten node onto their new parents, parent first, with bounded repair of conflicts.
  The bindings are the table of \<open>Vcs_Binding\<close>. The working copy, the harness, the sinks, the clock and the
  ids are a \<open>restack_env\<close>: the n-th call of a port gets its n-th answer. The log has the calls that change
  something outside. Logger lines, the texts of errors and reasons are left out.
\<close>

section \<open>Descendants and their order\<close>

record descendant =
  dn_nodeId :: string
  dn_parentNodeId :: string
  dn_workingCopyId :: string
  dn_jjChangeId :: string
  dn_currentCommitId :: string

datatype restack_error =
    Conflict_not_resolved | Multi_parent_detected | Ancestry_invalid | Restack_repair_exhausted
  | Restack_failed | Binding_update_failed | Export_blocked | Restack_domain domain_error_code
  | Restack_range | Restack_port | Restack_store binding_store_error

fun index_descendants :: "string list \<Rightarrow> descendant list \<Rightarrow> restack_error + unit" where
  "index_descendants seen [] = Inr ()"
| "index_descendants seen (d # ds) =
     bindE (case taskNodeId (dn_nodeId d) of Inl e \<Rightarrow> Inl (Restack_domain e) | Inr _ \<Rightarrow> Inr ()) (\<lambda>_.
     bindE (case taskNodeId (dn_parentNodeId d) of Inl e \<Rightarrow> Inl (Restack_domain e) | Inr _ \<Rightarrow> Inr ()) (\<lambda>_.
     bindE (guardE (dn_nodeId d \<notin> set seen) Restack_range) (\<lambda>_. index_descendants (dn_nodeId d # seen) ds)))"

text \<open>The \<open>while\<close> loop of \<open>depthOf\<close>.\<close>

function depth_loop :: "descendant list \<Rightarrow> string \<Rightarrow> string list \<Rightarrow> nat \<Rightarrow> restack_error + nat" where
  "depth_loop ds parentId visited depth = (case js_map dn_nodeId ds parentId of
      None \<Rightarrow> Inr depth
    | Some parent \<Rightarrow>
        if dn_nodeId parent \<in> set visited then Inl Restack_range
        else depth_loop ds (dn_parentNodeId parent) (dn_nodeId parent # visited) (depth + 1))"
  by pat_completeness auto

termination
proof (relation "measure (\<lambda>(ds, _, visited, _). length (filter (\<lambda>n. dn_nodeId n \<notin> set visited) ds))", goal_cases)
  case (2 ds parentId visited depth parent)
  then show ?case
    using unvisited_shrinks [of dn_nodeId ds parentId parent visited] js_map_Some [OF 2(1)] by simp
qed simp

declare depth_loop.simps [simp del]

definition depthOf :: "descendant list \<Rightarrow> descendant \<Rightarrow> restack_error + nat" where
  "depthOf ds d = depth_loop ds (dn_parentNodeId d) [dn_nodeId d] 0"

text \<open>
  The comparator is what computes the depths, so a list of one is not looked at; in a longer one every
  element is compared at least once.
\<close>

definition subtreeOrder :: "descendant list \<Rightarrow> restack_error + descendant list" where
  "subtreeOrder ds =
     bindE (index_descendants [] ds) (\<lambda>_.
     if length ds \<le> 1 then Inr ds
     else bindE (mapE (depthOf ds) ds) (\<lambda>depths.
       Inr (map snd (sort_key (\<lambda>(k, d). (k, dn_nodeId d)) (zip depths ds)))))"

section \<open>Conflicts\<close>

datatype conflict_kind = Textual | Semantic

definition CONFLICT_MARKER_OURS :: string where
  "CONFLICT_MARKER_OURS = ''<<<<<<<''"

fun split_on :: "char \<Rightarrow> string \<Rightarrow> string list" where
  "split_on sep [] = [[]]"
| "split_on sep (c # cs) = (if c = sep then [] # split_on sep cs
     else case split_on sep cs of [] \<Rightarrow> [[c]] | l # ls \<Rightarrow> (c # l) # ls)"

definition stripPrefix :: "string \<Rightarrow> string" where
  "stripPrefix value =
     (let trimmed = js_trim value in
      if starts_with [CHR 0x22] trimmed \<and> starts_with [CHR 0x22] (rev trimmed)
      then take (length trimmed - 2) (drop 1 trimmed)
      else if starts_with ''a/'' trimmed \<or> starts_with ''b/'' trimmed then drop 2 trimmed
      else trimmed)"

definition parseDiffGitPath :: "string \<Rightarrow> string option" where
  "parseDiffGitPath line = map_option (\<lambda>i. js_trim (drop (i + 3) line)) (index_of '' b/'' line)"

text \<open>A marker is the path of its file.\<close>

fun marker_loop :: "string \<Rightarrow> string list \<Rightarrow> string list" where
  "marker_loop path [] = []"
| "marker_loop path (line # rest) =
     (if starts_with ''diff --git '' line
      then marker_loop (case parseDiffGitPath line of None \<Rightarrow> path | Some p \<Rightarrow> p) rest
      else if starts_with ''+++ '' line then marker_loop (stripPrefix (drop 4 line)) rest
      else if starts_with ''--- '' line
      then marker_loop (if length path = 0 then stripPrefix (drop 4 line) else path) rest
      else if starts_with CONFLICT_MARKER_OURS line
      then (if length path > 0 then path else ''(unknown)'') # marker_loop path rest
      else marker_loop path rest)"

definition detectConflictMarkers :: "string \<Rightarrow> string list" where
  "detectConflictMarkers diff =
     (if length diff = 0 then [] else marker_loop [] (split_on (CHR 0x0A) diff))"

record conflict_bundle =
  cb_nodeId :: string
  cb_kind :: conflict_kind
  cb_conflictingPaths :: "string list"
  cb_conflictMarkers :: "string list"
  cb_ancestryValid :: bool
  cb_contentDelta :: string
  cb_ancestorDelta :: string

text \<open>\<open>valid\<close> of the verdict on a number of parents.\<close>

definition validateAncestry :: "int \<Rightarrow> bool" where
  "validateAncestry parentCount =
     (if parentCount < 0 then False else if parentCount = 0 then False else if parentCount > 1 then False else True)"

section \<open>Requests, results and receipts\<close>

record restack_request =
  rr_treeId :: string
  rr_parentNodeId :: string
  rr_newParentCommit :: string
  rr_descendants :: "descendant list"

datatype restack_outcome = O_clean | O_conflict | O_repaired | O_aborted | O_exhausted

record restack_result =
  rn_nodeId :: string
  rn_outcome :: restack_outcome
  rn_conflict :: "conflict_bundle option"
  rn_newCommitId :: "string option"
  rn_newChangeId :: "string option"
  rn_rewriteGeneration :: "int option"

record restack_receipt =
  rx_receiptId :: string
  rx_treeId :: string
  rx_parentNodeId :: string
  rx_restackedNodes :: "restack_result list"
  rx_conflictNodes :: "restack_result list"
  rx_cleanNodes :: "restack_result list"
  rx_abortedNodes :: "restack_result list"
  rx_completedAt :: int

definition cleanResult :: "string \<Rightarrow> string \<Rightarrow> string \<Rightarrow> int \<Rightarrow> restack_result" where
  "cleanResult node commit change generation = \<lparr>rn_nodeId = node, rn_outcome = O_clean, rn_conflict = None,
     rn_newCommitId = Some commit, rn_newChangeId = Some change, rn_rewriteGeneration = Some generation\<rparr>"

definition repairedResult :: "string \<Rightarrow> string \<Rightarrow> string \<Rightarrow> int \<Rightarrow> conflict_bundle \<Rightarrow> restack_result" where
  "repairedResult node commit change generation conflict = \<lparr>rn_nodeId = node, rn_outcome = O_repaired,
     rn_conflict = Some conflict, rn_newCommitId = Some commit, rn_newChangeId = Some change,
     rn_rewriteGeneration = Some generation\<rparr>"

definition conflictResult :: "string \<Rightarrow> conflict_bundle \<Rightarrow> restack_result" where
  "conflictResult node conflict = \<lparr>rn_nodeId = node, rn_outcome = O_conflict, rn_conflict = Some conflict,
     rn_newCommitId = None, rn_newChangeId = None, rn_rewriteGeneration = None\<rparr>"

definition exhaustedResult :: "string \<Rightarrow> conflict_bundle \<Rightarrow> restack_result" where
  "exhaustedResult node conflict = \<lparr>rn_nodeId = node, rn_outcome = O_exhausted, rn_conflict = Some conflict,
     rn_newCommitId = None, rn_newChangeId = None, rn_rewriteGeneration = None\<rparr>"

definition abortedResult :: "string \<Rightarrow> restack_result" where
  "abortedResult node = \<lparr>rn_nodeId = node, rn_outcome = O_aborted, rn_conflict = None,
     rn_newCommitId = None, rn_newChangeId = None, rn_rewriteGeneration = None\<rparr>"

definition invalidateStaleGates :: "restack_result list \<Rightarrow> string list" where
  "invalidateStaleGates results = map rn_nodeId (filter (\<lambda>r. rn_outcome r \<noteq> O_aborted) results)"

definition buildReceipt :: "restack_request \<Rightarrow> restack_result list \<Rightarrow> string \<Rightarrow> int \<Rightarrow> restack_receipt" where
  "buildReceipt rq results receiptId completedAt =
     \<lparr>rx_receiptId = receiptId, rx_treeId = rr_treeId rq, rx_parentNodeId = rr_parentNodeId rq,
      rx_restackedNodes = results,
      rx_conflictNodes = filter (\<lambda>r. rn_outcome r = O_conflict \<or> rn_outcome r = O_exhausted) results,
      rx_cleanNodes = filter (\<lambda>r. rn_outcome r = O_clean \<or> rn_outcome r = O_repaired) results,
      rx_abortedNodes = filter (\<lambda>r. rn_outcome r = O_aborted) results, rx_completedAt = completedAt\<rparr>"

fun check_duplicates :: "string list \<Rightarrow> descendant list \<Rightarrow> restack_error + unit" where
  "check_duplicates seen [] = Inr ()"
| "check_duplicates seen (d # ds) =
     (if dn_nodeId d \<in> set seen then Inl Restack_failed else check_duplicates (dn_nodeId d # seen) ds)"

definition validateRestackRequest :: "restack_request \<Rightarrow> restack_error + unit" where
  "validateRestackRequest rq =
     bindE (guardE (length (rr_descendants rq) \<noteq> 0) Restack_failed) (\<lambda>_.
     check_duplicates [] (rr_descendants rq))"

section \<open>The coordinator\<close>

record rebase_outcome =
  ro_clean :: bool
  ro_conflictingPaths :: "string list"
  ro_semanticConflictPaths :: "string list"
  ro_newCommitId :: string
  ro_newChangeId :: string
  ro_parentCount :: int
  ro_operationLogId :: string

record squash_receipt =
  sq_commitSha :: string
  sq_operationLogId :: string
  sq_parentCount :: int

datatype restack_attention_kind = Ra_repair_exhausted | Ra_no_harness | Ra_multi_parent

text \<open>
  \<open>None\<close> is a call that throws; for the harness, \<open>Some True\<close> is a resolved attempt. \<open>rk_harness\<close> and
  \<open>rk_staleSink\<close> are \<open>None\<close> when the coordinator has none; an attention sink that throws is only logged, so
  whether there is one changes nothing but the log.
\<close>

record restack_env =
  rk_rebase :: "nat \<Rightarrow> string \<Rightarrow> string \<Rightarrow> string \<Rightarrow> rebase_outcome option"
  rk_diff :: "nat \<Rightarrow> string \<Rightarrow> string option"
  rk_squash :: "nat \<Rightarrow> string \<Rightarrow> squash_receipt option"
  rk_harness :: "(nat \<Rightarrow> conflict_bundle \<Rightarrow> bool option) option"
  rk_staleSink :: bool
  rk_attentionSink :: bool
  rk_ceiling :: int
  rk_writes :: "nat \<Rightarrow> bool"
  rk_now :: "nat \<Rightarrow> int"
  rk_id :: string
  rk_digest :: "string \<Rightarrow> string"

datatype restack_effect =
    Rebased string string | Squashed string | Recorded_binding vcs_binding
  | Attention string restack_attention_kind nat | Stale_gates "string list"

record restack_state =
  rw_table :: "sql_row list"
  rw_rebases :: nat
  rw_diffs :: nat
  rw_squashes :: nat
  rw_repairs :: nat
  rw_writes :: nat
  rw_clock :: nat
  rw_log :: "restack_effect list"

type_synonym 'a restacking = "restack_state \<Rightarrow> (restack_error + 'a) \<times> restack_state"

definition logS :: "restack_effect \<Rightarrow> unit restacking" where
  "logS ef s = (Inr (), s\<lparr>rw_log := rw_log s @ [ef]\<rparr>)"

definition rs_readBinding :: "string \<Rightarrow> string \<Rightarrow> vcs_binding option restacking" where
  "rs_readBinding tree node s = (case getBinding tree node (rw_table s) of
      Inl _ \<Rightarrow> (Inl Binding_update_failed, s)
    | Inr b \<Rightarrow> (Inr b, s))"

definition clock_nowS :: "restack_env \<Rightarrow> int restacking" where
  "clock_nowS e s = (Inr (rk_now e (rw_clock s)), s\<lparr>rw_clock := Suc (rw_clock s)\<rparr>)"

definition rs_upsert :: "restack_env \<Rightarrow> vcs_binding \<Rightarrow> unit restacking" where
  "rs_upsert e b s =
     (let s1 = s\<lparr>rw_writes := Suc (rw_writes s)\<rparr> in
      case upsertBinding (rk_writes e (rw_writes s)) b (rw_table s) of
        Inl _ \<Rightarrow> (Inl Binding_update_failed, s1)
      | Inr table \<Rightarrow> (Inr (), s1\<lparr>rw_table := table, rw_log := rw_log s @ [Recorded_binding b]\<rparr>))"

definition binding_with ::
    "vcs_binding option \<Rightarrow> restack_request \<Rightarrow> descendant \<Rightarrow> string \<Rightarrow> string \<Rightarrow> string \<Rightarrow> conflict_state \<Rightarrow> int \<Rightarrow>
     vcs_binding" where
  "binding_with current rq d commit change operation nextState now =
     \<lparr>vb_treeId = rr_treeId rq, vb_nodeId = dn_nodeId d, vb_jjChangeId = change, vb_currentCommitId = commit,
      vb_parentChangeId = (case Option.bind current vb_parentChangeId of
        None \<Rightarrow> Some (dn_jjChangeId d) | Some p \<Rightarrow> Some p),
      vb_bookmark = Option.bind current vb_bookmark,
      vb_rewriteGeneration = (case current of None \<Rightarrow> 0 | Some b \<Rightarrow> vb_rewriteGeneration b) + 1,
      vb_lastJjOperationId = operation,
      vb_lastPushedCommitId = Option.bind current vb_lastPushedCommitId,
      vb_lastReviewedCommitId = Option.bind current vb_lastReviewedCommitId,
      vb_conflictState = nextState, vb_recordedAt = now\<rparr>"

definition updateBinding ::
    "restack_env \<Rightarrow> restack_request \<Rightarrow> descendant \<Rightarrow> string \<Rightarrow> string \<Rightarrow> string \<Rightarrow> conflict_state \<Rightarrow>
     int restacking" where
  "updateBinding e rq d commit change operation nextState =
     bindS (rs_readBinding (rr_treeId rq) (dn_nodeId d)) (\<lambda>current.
     let from = (case current of None \<Rightarrow> Clean | Some b \<Rightarrow> vb_conflictState b) in
     if \<not> isValidConflictTransition from nextState then throwS Binding_update_failed
     else bindS (clock_nowS e) (\<lambda>now.
       let b = binding_with current rq d commit change operation nextState now in
       bindS (rs_upsert e b) (\<lambda>_. returnS (vb_rewriteGeneration b))))"

definition recordDurableConflict ::
    "restack_env \<Rightarrow> restack_request \<Rightarrow> descendant \<Rightarrow> rebase_outcome \<Rightarrow> unit restacking" where
  "recordDurableConflict e rq d out =
     bindS (updateBinding e rq d (ro_newCommitId out) (ro_newChangeId out) (ro_operationLogId out) Conflict)
       (\<lambda>_. returnS ())"

definition emitAttention :: "restack_env \<Rightarrow> string \<Rightarrow> restack_attention_kind \<Rightarrow> nat \<Rightarrow> unit restacking" where
  "emitAttention e node kind attempts =
     (if \<not> rk_attentionSink e then returnS () else logS (Attention node kind attempts))"

definition readDiff :: "restack_env \<Rightarrow> string \<Rightarrow> string restacking" where
  "readDiff e workingCopyId s = (case rk_diff e (rw_diffs s) workingCopyId of
      None \<Rightarrow> (Inl Restack_failed, s\<lparr>rw_diffs := Suc (rw_diffs s)\<rparr>)
    | Some diff \<Rightarrow> (Inr diff, s\<lparr>rw_diffs := Suc (rw_diffs s)\<rparr>))"

definition buildConflictBundle ::
    "restack_env \<Rightarrow> restack_request \<Rightarrow> descendant \<Rightarrow> rebase_outcome \<Rightarrow> conflict_kind \<Rightarrow> bool \<Rightarrow> string option \<Rightarrow>
     conflict_bundle restacking" where
  "buildConflictBundle e rq d out kind ancestryValid diffText =
     bindS (case diffText of None \<Rightarrow> readDiff e (dn_workingCopyId d) | Some t \<Rightarrow> returnS t) (\<lambda>text.
     returnS \<lparr>cb_nodeId = dn_nodeId d, cb_kind = kind,
       cb_conflictingPaths = ro_conflictingPaths out @ ro_semanticConflictPaths out,
       cb_conflictMarkers = detectConflictMarkers text, cb_ancestryValid = ancestryValid,
       cb_contentDelta = rk_digest e text,
       cb_ancestorDelta = rk_digest e (rr_newParentCommit rq @ [CHR 0x0A] @
         join [CHR 0x0A] (ro_conflictingPaths out) @ [CHR 0x0A] @ join [CHR 0x0A] (ro_semanticConflictPaths out))\<rparr>)"

definition recordClean ::
    "restack_env \<Rightarrow> restack_request \<Rightarrow> descendant \<Rightarrow> rebase_outcome \<Rightarrow> vcs_binding option \<Rightarrow> restack_result restacking" where
  "recordClean e rq d out existing =
     (let nextState = (if map_option vb_conflictState existing = Some Conflict then Resolved else Clean) in
      bindS (updateBinding e rq d (ro_newCommitId out) (ro_newChangeId out) (ro_operationLogId out) nextState)
        (\<lambda>generation. returnS (cleanResult (dn_nodeId d) (ro_newCommitId out) (ro_newChangeId out) generation)))"

text \<open>The squash after a resolved attempt.\<close>

definition squashResolution ::
    "restack_env \<Rightarrow> restack_request \<Rightarrow> descendant \<Rightarrow> conflict_bundle \<Rightarrow> restack_result restacking" where
  "squashResolution e rq d conflict s =
     (let s1 = s\<lparr>rw_squashes := Suc (rw_squashes s)\<rparr> in
      case rk_squash e (rw_squashes s) (dn_workingCopyId d) of
        None \<Rightarrow> (Inl Restack_port, s1)
      | Some sq \<Rightarrow>
          bindS (logS (Squashed (dn_nodeId d))) (\<lambda>_.
          if \<not> validateAncestry (sq_parentCount sq) then throwS Multi_parent_detected
          else bindS (updateBinding e rq d (sq_commitSha sq) (dn_jjChangeId d) (sq_operationLogId sq) Resolved)
            (\<lambda>generation. returnS (repairedResult (dn_nodeId d) (sq_commitSha sq) (dn_jjChangeId d) generation conflict))) s1)"

text \<open>
  The \<open>while\<close> loop of \<open>attemptBoundedRepair\<close>. It stops: once consumed, a budget has what its ceiling leaves.
\<close>

definition budget_left :: "retry_budget \<Rightarrow> nat" where
  "budget_left b = (if bu_remaining b \<le> 0 then 0 else Suc (nat (bu_ceiling b - bu_consumed b)))"

lemma consume_left: "canRetry b \<Longrightarrow> consume b = Inr b' \<Longrightarrow> budget_left b' < budget_left b"
  using consume_Inr [of b b'] by (auto simp: canRetry_def budget_left_def budget_ok_def min_def split: if_splits)

function repair_loopR ::
    "restack_env \<Rightarrow> (nat \<Rightarrow> conflict_bundle \<Rightarrow> bool option) \<Rightarrow> restack_request \<Rightarrow> descendant \<Rightarrow> conflict_bundle \<Rightarrow>
     retry_budget \<Rightarrow> nat \<Rightarrow> restack_state \<Rightarrow> (restack_error + restack_result) \<times> restack_state" where
  "repair_loopR e harness rq d conflict b attempts s =
     (if \<not> canRetry b
      then bindS (emitAttention e (dn_nodeId d) Ra_repair_exhausted attempts)
        (\<lambda>_. returnS (exhaustedResult (dn_nodeId d) conflict)) s
      else let s1 = s\<lparr>rw_repairs := Suc (rw_repairs s)\<rparr> in
        if harness (rw_repairs s) conflict = Some True then squashResolution e rq d conflict s1
        else case consume b of
          Inl _ \<Rightarrow> (Inl Restack_range, s1)
        | Inr b' \<Rightarrow> repair_loopR e harness rq d conflict b' (attempts + 1) s1)"
  by pat_completeness auto

termination
  by (relation "measure (\<lambda>(e, h, rq, d, c, b, n, s). budget_left b)") (auto dest: consume_left)

declare repair_loopR.simps [simp del]

definition attemptBoundedRepair ::
    "restack_env \<Rightarrow> (nat \<Rightarrow> conflict_bundle \<Rightarrow> bool option) \<Rightarrow> restack_request \<Rightarrow> descendant \<Rightarrow> conflict_bundle \<Rightarrow>
     restack_result restacking" where
  "attemptBoundedRepair e harness rq d conflict s =
     (case createRetryBudget (number_of_int (rk_ceiling e)) (number_of_int 0) of
        Inl _ \<Rightarrow> (Inl Restack_range, s)
      | Inr b \<Rightarrow> repair_loopR e harness rq d conflict b 0 s)"

definition processRebaseOutcome ::
    "restack_env \<Rightarrow> restack_request \<Rightarrow> descendant \<Rightarrow> rebase_outcome \<Rightarrow> vcs_binding option \<Rightarrow> restack_result restacking" where
  "processRebaseOutcome e rq d out existing =
     (if \<not> validateAncestry (ro_parentCount out) then
        bindS (buildConflictBundle e rq d out Semantic False None) (\<lambda>_.
        bindS (recordDurableConflict e rq d out) (\<lambda>_.
        bindS (emitAttention e (dn_nodeId d) Ra_multi_parent 0) (\<lambda>_.
        throwS (if ro_parentCount out > 1 then Multi_parent_detected else Ancestry_invalid))))
      else if ro_clean out then recordClean e rq d out existing
      else
        bindS (readDiff e (dn_workingCopyId d)) (\<lambda>diff.
        let kind = (if length (detectConflictMarkers diff) > 0 \<or> length (ro_semanticConflictPaths out) = 0
          then Textual else Semantic) in
        bindS (buildConflictBundle e rq d out kind True (Some diff)) (\<lambda>conflict.
        bindS (recordDurableConflict e rq d out) (\<lambda>_.
        case rk_harness e of
          None \<Rightarrow> bindS (emitAttention e (dn_nodeId d) Ra_no_harness 0)
            (\<lambda>_. returnS (conflictResult (dn_nodeId d) conflict))
        | Some harness \<Rightarrow> attemptBoundedRepair e harness rq d conflict))))"

definition isAlreadyRestacked :: "vcs_binding \<Rightarrow> descendant \<Rightarrow> bool" where
  "isAlreadyRestacked b d =
     (if vb_currentCommitId b = dn_currentCommitId d then False
      else vb_conflictState b = Clean \<or> vb_conflictState b = Resolved)"

definition rebase_one ::
    "restack_env \<Rightarrow> restack_request \<Rightarrow> string \<Rightarrow> descendant \<Rightarrow> vcs_binding option \<Rightarrow> (restack_result \<times> bool) restacking" where
  "rebase_one e rq newParent d existing s =
     (let s1 = s\<lparr>rw_rebases := Suc (rw_rebases s)\<rparr> in
      case rk_rebase e (rw_rebases s) (dn_workingCopyId d) (dn_jjChangeId d) newParent of
        None \<Rightarrow> (Inr (abortedResult (dn_nodeId d), True), s1)
      | Some out \<Rightarrow>
          bindS (logS (Rebased (dn_nodeId d) newParent)) (\<lambda>_.
          bindS (processRebaseOutcome e rq d out existing) (\<lambda>r.
          returnS (r, \<not> (rn_outcome r = O_clean \<or> rn_outcome r = O_repaired)))) s1)"

text \<open>One turn of the loop over the order: the result and whether the rest is aborted.\<close>

definition restack_one ::
    "restack_env \<Rightarrow> restack_request \<Rightarrow> (string \<Rightarrow> string option) \<Rightarrow> descendant \<Rightarrow> (restack_result \<times> bool) restacking" where
  "restack_one e rq resolved d = (case resolved (dn_parentNodeId d) of
      None \<Rightarrow> returnS (abortedResult (dn_nodeId d), True)
    | Some newParent \<Rightarrow>
        bindS (rs_readBinding (rr_treeId rq) (dn_nodeId d)) (\<lambda>existing.
        case existing of
          Some b \<Rightarrow> if isAlreadyRestacked b d
            then returnS (cleanResult (dn_nodeId d) (vb_currentCommitId b) (dn_jjChangeId d) (vb_rewriteGeneration b), False)
            else rebase_one e rq newParent d existing
        | None \<Rightarrow> rebase_one e rq newParent d existing))"

text \<open>
  The loop. The map of resolved commits grows with every clean or repaired node, also one that an earlier
  run has already moved.
\<close>

fun restack_nodes ::
    "restack_env \<Rightarrow> restack_request \<Rightarrow> (string \<Rightarrow> string option) \<Rightarrow> bool \<Rightarrow> descendant list \<Rightarrow>
     restack_result list restacking" where
  "restack_nodes e rq resolved aborted [] = returnS []"
| "restack_nodes e rq resolved aborted (d # ds) =
     (if aborted then
        bindS (restack_nodes e rq resolved True ds) (\<lambda>rs. returnS (abortedResult (dn_nodeId d) # rs))
      else bindS (restack_one e rq resolved d) (\<lambda>(r, stop).
        let resolved' = (case rn_newCommitId r of
            Some commit \<Rightarrow> if rn_outcome r = O_clean \<or> rn_outcome r = O_repaired
              then resolved(dn_nodeId d \<mapsto> commit) else resolved
          | None \<Rightarrow> resolved) in
        bindS (restack_nodes e rq resolved' stop ds) (\<lambda>rs. returnS (r # rs))))"

definition invalidateStale :: "restack_env \<Rightarrow> restack_result list \<Rightarrow> unit restacking" where
  "invalidateStale e results =
     (if \<not> rk_staleSink e then returnS ()
      else let stale = invalidateStaleGates results in
        if length stale = 0 then returnS () else logS (Stale_gates stale))"

definition restack :: "restack_env \<Rightarrow> restack_request \<Rightarrow> restack_receipt restacking" where
  "restack e rq s = (case bindE (validateRestackRequest rq) (\<lambda>_. subtreeOrder (rr_descendants rq)) of
      Inl err \<Rightarrow> (Inl err, s)
    | Inr order \<Rightarrow>
        bindS (restack_nodes e rq [rr_parentNodeId rq \<mapsto> rr_newParentCommit rq] False order) (\<lambda>results.
        bindS (invalidateStale e results) (\<lambda>_.
        bindS (clock_nowS e) (\<lambda>now.
        returnS (buildReceipt rq results (rk_id e) now)))) s)"

text \<open>\<open>createRestackCoordinator\<close> refuses a bad ceiling.\<close>

definition ceiling_ok :: "number \<Rightarrow> bool" where
  "ceiling_ok c \<longleftrightarrow> \<not> (\<not> isSafeInteger c \<or> int_of_number c < 0)"

fun assertExportReady :: "string \<Rightarrow> string list \<Rightarrow> sql_row list \<Rightarrow> restack_error + unit" where
  "assertExportReady tree [] table = Inr ()"
| "assertExportReady tree (node # nodes) table = (case getBinding tree node table of
      Inl err \<Rightarrow> Inl (Restack_store err)
    | Inr None \<Rightarrow> assertExportReady tree nodes table
    | Inr (Some b) \<Rightarrow> if vb_conflictState b = Conflict then Inl Export_blocked
        else assertExportReady tree nodes table)"
section \<open>What the steps keep\<close>

definition binding_at :: "restack_request \<Rightarrow> string \<Rightarrow> restack_state \<Rightarrow> vcs_binding option" where
  "binding_at rq node s = projr (getBinding (rr_treeId rq) node (rw_table s))"

text \<open>Steps for one node leave the bindings of the others alone and do not rebase.\<close>

definition quiet :: "restack_request \<Rightarrow> string \<Rightarrow> restack_state \<Rightarrow> restack_state \<Rightarrow> bool" where
  "quiet rq node s s' \<longleftrightarrow> table_ok (rw_table s') \<and>
     (\<forall>n. n \<noteq> node \<longrightarrow> binding_at rq n s' = binding_at rq n s) \<and>
     (\<exists>new. rw_log s' = rw_log s @ new \<and> (\<forall>n c. Rebased n c \<notin> set new))"

lemma quiet_refl: "table_ok (rw_table s) \<Longrightarrow> quiet rq node s s"
  by (simp add: quiet_def)

lemma quiet_trans: "quiet rq node s s' \<Longrightarrow> quiet rq node s' s'' \<Longrightarrow> quiet rq node s s''"
  unfolding quiet_def by (metis (no_types, lifting) UnE append_assoc set_append)

lemma quiet_same:
  "table_ok (rw_table s) \<Longrightarrow> rw_table s' = rw_table s \<Longrightarrow> rw_log s' = rw_log s @ new \<Longrightarrow>
     (\<forall>n c. Rebased n c \<notin> set new) \<Longrightarrow> quiet rq node s s' \<and> binding_at rq n s' = binding_at rq n s"
  by (auto simp: quiet_def binding_at_def)

lemma rs_read:
  "table_ok (rw_table s) \<Longrightarrow> rs_readBinding (rr_treeId rq) node s = (Inr (binding_at rq node s), s)"
  using sqlite_bindings.get_total [of "rw_table s" "rr_treeId rq" node]
  by (auto simp: rs_readBinding_def binding_at_def is_ok_iff)

lemma updateBinding_Inr:
  assumes ok: "table_ok (rw_table s)"
    and up: "updateBinding e rq d commit change operation st s = (Inr generation, s')"
  shows "quiet rq (dn_nodeId d) s s' \<and> (\<exists>b. binding_at rq (dn_nodeId d) s' = Some b \<and>
    vb_conflictState b = st \<and> vb_currentCommitId b = commit \<and> vb_rewriteGeneration b = generation \<and>
    isValidConflictTransition (case binding_at rq (dn_nodeId d) s of None \<Rightarrow> Clean | Some b \<Rightarrow> vb_conflictState b) st)"
proof -
  let ?current = "binding_at rq (dn_nodeId d) s"
  let ?from = "case ?current of None \<Rightarrow> Clean | Some b \<Rightarrow> vb_conflictState b"
  have tr: "isValidConflictTransition ?from st"
    using up by (auto simp: updateBinding_def res_simps rs_read [OF ok] Let_def split: if_splits)
  obtain b s1 where b: "b = binding_with ?current rq d commit change operation st (rk_now e (rw_clock s))"
    and s1: "s1 = s\<lparr>rw_clock := Suc (rw_clock s)\<rparr>" and w: "rs_upsert e b s1 = (Inr (), s')"
    and g: "generation = vb_rewriteGeneration b"
    using up tr by (auto simp: updateBinding_def res_simps rs_read [OF ok] Let_def clock_nowS_def)
  obtain table where t: "upsertBinding True b (rw_table s) = Inr table" "rw_table s' = table"
    "rw_log s' = rw_log s @ [Recorded_binding b]"
    using w s1 by (auto simp: rs_upsert_def Let_def upsertBinding_Inr split: sum.splits)
  have key: "vb_treeId b = rr_treeId rq" "vb_nodeId b = dn_nodeId d" "vb_conflictState b = st"
    "vb_currentCommitId b = commit" by (simp_all add: b binding_with_def)
  have "table_ok table" using sqlite_bindings.upsert_inv [OF ok t(1)] .
  moreover have "binding_at rq (dn_nodeId d) s' = Some b"
    using sqlite_bindings.get_upsert [OF ok t(1)] t(2) key by (simp add: binding_at_def)
  moreover have "binding_at rq n s' = binding_at rq n s" if "n \<noteq> dn_nodeId d" for n
    using sqlite_bindings.get_upsert [OF ok t(1)] t(2) key that by (simp add: binding_at_def)
  ultimately show ?thesis using t key g tr by (auto simp: quiet_def)
qed

lemma emitAttention_Inr:
  "emitAttention e node kind k s = (r, s') \<Longrightarrow> r = Inr () \<and> rw_table s' = rw_table s \<and>
     (\<exists>new. rw_log s' = rw_log s @ new \<and> (\<forall>n c. Rebased n c \<notin> set new))"
  by (auto simp: emitAttention_def logS_def returnS_def split: if_splits)

lemma emitAttention_quiet:
  "table_ok (rw_table s) \<Longrightarrow> emitAttention e node kind k s = (r, s') \<Longrightarrow>
     r = Inr () \<and> quiet rq n s s' \<and> binding_at rq m s' = binding_at rq m s"
  using emitAttention_Inr [of e node kind k s r s'] quiet_same [of s s' _ rq n m] by blast

lemma readDiff_state: "readDiff e w s = (r, s') \<Longrightarrow> rw_table s' = rw_table s \<and> rw_log s' = rw_log s"
  by (auto simp: readDiff_def split: option.splits)

lemma bundle_state:
  "buildConflictBundle e rq d out kind v t s = (r, s') \<Longrightarrow> rw_table s' = rw_table s \<and> rw_log s' = rw_log s"
  by (cases t) (auto simp: buildConflictBundle_def bindS_def returnS_def dest: readDiff_state split: prod.splits sum.splits)

lemma silent_quiet:
  "table_ok (rw_table s) \<Longrightarrow> rw_table s' = rw_table s \<Longrightarrow> rw_log s' = rw_log s \<Longrightarrow>
     quiet rq node s s' \<and> binding_at rq n s' = binding_at rq n s"
  by (rule quiet_same [of _ _ "[]"]) auto

section \<open>What a result says of the binding\<close>

definition agrees :: "restack_request \<Rightarrow> restack_result \<Rightarrow> restack_state \<Rightarrow> bool" where
  "agrees rq r s \<longleftrightarrow>
     (rn_outcome r \<in> {O_conflict, O_exhausted} \<longrightarrow>
        (\<exists>b. binding_at rq (rn_nodeId r) s = Some b \<and> vb_conflictState b = Conflict)) \<and>
     (rn_outcome r \<in> {O_clean, O_repaired} \<longrightarrow>
        (\<exists>b. binding_at rq (rn_nodeId r) s = Some b \<and> vb_conflictState b \<noteq> Conflict \<and>
           rn_newCommitId r = Some (vb_currentCommitId b) \<and> rn_rewriteGeneration r = Some (vb_rewriteGeneration b)))"

lemma quiet_ok: "quiet rq n s s' \<Longrightarrow> table_ok (rw_table s')"
  by (simp add: quiet_def)

lemma squash_agrees:
  assumes "table_ok (rw_table s)" and "squashResolution e rq d conflict s = (Inr r, s')"
  shows "quiet rq (dn_nodeId d) s s' \<and> rn_nodeId r = dn_nodeId d \<and> rn_outcome r = O_repaired \<and> agrees rq r s'"
proof -
  define s2 where q: "s2 = s\<lparr>rw_squashes := Suc (rw_squashes s), rw_log := rw_log s @ [Squashed (dn_nodeId d)]\<rparr>"
  obtain sq where sq: "rk_squash e (rw_squashes s) (dn_workingCopyId d) = Some sq"
    using assms(2) by (auto simp: squashResolution_def Let_def split: option.splits)
  obtain g where u: "updateBinding e rq d (sq_commitSha sq) (dn_jjChangeId d) (sq_operationLogId sq) Resolved s2 = (Inr g, s')"
    and r: "r = repairedResult (dn_nodeId d) (sq_commitSha sq) (dn_jjChangeId d) g conflict"
    using assms(2) sq by (auto simp: q squashResolution_def Let_def res_simps logS_def split: if_splits)
  have "quiet rq (dn_nodeId d) s s2"
    using quiet_same [of s s2 "[Squashed (dn_nodeId d)]"] assms(1) q by auto
  moreover have "table_ok (rw_table s2)" using assms(1) q by simp
  ultimately show ?thesis
    using updateBinding_Inr [OF _ u] r quiet_trans by (fastforce simp: agrees_def repairedResult_def)
qed

lemma repair_loop_agrees:
  assumes "table_ok (rw_table s)" and "binding_at rq (dn_nodeId d) s = Some b0" and "vb_conflictState b0 = Conflict"
    and "repair_loopR e harness rq d conflict b attempts s = (Inr r, s')"
  shows "quiet rq (dn_nodeId d) s s' \<and> rn_nodeId r = dn_nodeId d \<and> rn_outcome r \<in> {O_repaired, O_exhausted} \<and> agrees rq r s'"
  using assms
proof (induction e harness rq d conflict b attempts s rule: repair_loopR.induct)
  case (1 e harness rq d conflict b attempts s)
  note unfold = repair_loopR.simps [of e harness rq d conflict b attempts s]
  let ?s1 = "s\<lparr>rw_repairs := Suc (rw_repairs s)\<rparr>"
  have s1: "quiet rq (dn_nodeId d) s ?s1 \<and> binding_at rq (dn_nodeId d) ?s1 = binding_at rq (dn_nodeId d) s"
    using silent_quiet [OF 1(2), of ?s1] by simp
  consider (out) "\<not> canRetry b" | (fixed) "canRetry b" "harness (rw_repairs s) conflict = Some True"
    | (again) "canRetry b" "harness (rw_repairs s) conflict \<noteq> Some True" by blast
  then show ?case
  proof cases
    case out
    then have "r = exhaustedResult (dn_nodeId d) conflict"
      and em: "emitAttention e (dn_nodeId d) Ra_repair_exhausted attempts s = (Inr (), s')"
      using 1(5) by (auto simp: unfold res_simps)
    then show ?thesis
      using emitAttention_quiet [OF 1(2) em, of rq "dn_nodeId d" "dn_nodeId d"] 1(3,4)
      by (simp add: agrees_def exhaustedResult_def)
  next
    case fixed
    then have "squashResolution e rq d conflict ?s1 = (Inr r, s')" using 1(5) by (simp add: unfold)
    with squash_agrees [of ?s1] 1(2) s1 quiet_trans show ?thesis by (metis insertI1 quiet_ok)
  next
    case again
    then obtain b' where c: "consume b = Inr b'" and
      rest: "repair_loopR e harness rq d conflict b' (attempts + 1) ?s1 = (Inr r, s')"
      using 1(5) by (auto simp: unfold Let_def split: sum.splits)
    have "quiet rq (dn_nodeId d) ?s1 s' \<and> rn_nodeId r = dn_nodeId d \<and> rn_outcome r \<in> {O_repaired, O_exhausted} \<and> agrees rq r s'"
      using 1(1) [OF _ refl again(2) c] again(1) 1(2-4) s1 rest quiet_ok by auto
    then show ?thesis using s1 quiet_trans by blast
  qed
qed

lemma process_agrees:
  assumes ok: "table_ok (rw_table s)" and existing: "existing = binding_at rq (dn_nodeId d) s"
    and run: "processRebaseOutcome e rq d out existing s = (Inr r, s')"
  shows "quiet rq (dn_nodeId d) s s' \<and> rn_nodeId r = dn_nodeId d \<and> rn_outcome r \<noteq> O_aborted \<and> agrees rq r s'"
proof -
  have valid: "validateAncestry (ro_parentCount out)"
    using run by (auto simp: processRebaseOutcome_def res_simps split: if_splits)
  show ?thesis
  proof (cases "ro_clean out")
    case True
    then obtain st g where st: "st \<in> {Clean, Resolved}"
      and u: "updateBinding e rq d (ro_newCommitId out) (ro_newChangeId out) (ro_operationLogId out) st s = (Inr g, s')"
      and r: "r = cleanResult (dn_nodeId d) (ro_newCommitId out) (ro_newChangeId out) g"
      using run valid by (auto simp: processRebaseOutcome_def recordClean_def Let_def res_simps split: if_splits)
    then show ?thesis using updateBinding_Inr [OF ok u] by (fastforce simp: agrees_def cleanResult_def)
  next
    case False
    obtain diff s1 conflict s2 g s3 where rd: "readDiff e (dn_workingCopyId d) s = (Inr diff, s1)"
      and bb: "buildConflictBundle e rq d out (if length (detectConflictMarkers diff) > 0 \<or>
          length (ro_semanticConflictPaths out) = 0 then Textual else Semantic) True (Some diff) s1 = (Inr conflict, s2)"
      and u: "updateBinding e rq d (ro_newCommitId out) (ro_newChangeId out) (ro_operationLogId out) Conflict s2 = (Inr g, s3)"
      and fin: "(case rk_harness e of None \<Rightarrow> bindS (emitAttention e (dn_nodeId d) Ra_no_harness 0)
            (\<lambda>_. returnS (conflictResult (dn_nodeId d) conflict))
        | Some harness \<Rightarrow> attemptBoundedRepair e harness rq d conflict) s3 = (Inr r, s')"
      using run valid False by (auto simp: processRebaseOutcome_def recordDurableConflict_def res_simps Let_def)
    have s2: "rw_table s2 = rw_table s" "rw_log s2 = rw_log s"
      using readDiff_state [OF rd] bundle_state [OF bb] by auto
    then have q2: "quiet rq (dn_nodeId d) s s2" and ok2: "table_ok (rw_table s2)"
      using silent_quiet [OF ok] ok by auto
    obtain b where q3: "quiet rq (dn_nodeId d) s2 s3" and b: "binding_at rq (dn_nodeId d) s3 = Some b" "vb_conflictState b = Conflict"
      using updateBinding_Inr [OF ok2 u] by blast
    have ok3: "table_ok (rw_table s3)" using quiet_ok [OF q3] .
    have "quiet rq (dn_nodeId d) s3 s' \<and> rn_nodeId r = dn_nodeId d \<and> rn_outcome r \<noteq> O_aborted \<and> agrees rq r s'"
    proof (cases "rk_harness e")
      case None
      then have em: "emitAttention e (dn_nodeId d) Ra_no_harness 0 s3 = (Inr (), s')"
        and r: "r = conflictResult (dn_nodeId d) conflict" using fin by (auto simp: res_simps)
      then show ?thesis using emitAttention_quiet [OF ok3 em, of rq "dn_nodeId d" "dn_nodeId d"] b
        by (simp add: agrees_def conflictResult_def)
    next
      case (Some harness)
      then obtain bu where "repair_loopR e harness rq d conflict bu 0 s3 = (Inr r, s')"
        using fin by (auto simp: attemptBoundedRepair_def split: sum.splits)
      from repair_loop_agrees [OF ok3 b this] show ?thesis by auto
    qed
    then show ?thesis using q2 q3 quiet_trans by blast
  qed
qed
section \<open>The loop over the descendants\<close>

definition moved :: "restack_result \<Rightarrow> bool" where
  "moved r \<longleftrightarrow> rn_outcome r = O_clean \<or> rn_outcome r = O_repaired"

text \<open>Clean or repaired results, then at most one that is not, then only aborted ones.\<close>

fun orderly :: "restack_result list \<Rightarrow> bool" where
  "orderly [] = True"
| "orderly (r # rs) = (if moved r then orderly rs else list_all (\<lambda>x. rn_outcome x = O_aborted) rs)"

lemma restack_one_agrees:
  assumes ok: "table_ok (rw_table s)" and run: "restack_one e rq resolved d s = (Inr (r, stop), s')"
  shows "table_ok (rw_table s') \<and> (\<forall>n. n \<noteq> dn_nodeId d \<longrightarrow> binding_at rq n s' = binding_at rq n s) \<and>
    rn_nodeId r = dn_nodeId d \<and> agrees rq r s' \<and> stop = (\<not> moved r) \<and>
    (\<exists>new. rw_log s' = rw_log s @ new \<and>
       (\<forall>n c. Rebased n c \<in> set new \<longrightarrow> n = dn_nodeId d \<and> resolved (dn_parentNodeId d) = Some c))"
proof (cases "resolved (dn_parentNodeId d)")
  case None
  then show ?thesis using run ok by (auto simp: restack_one_def res_simps agrees_def abortedResult_def moved_def)
next
  case (Some parent)
  let ?b = "binding_at rq (dn_nodeId d) s"
  consider (kept) b where "?b = Some b" "isAlreadyRestacked b d"
    | (tried) "rebase_one e rq parent d ?b s = (Inr (r, stop), s')"
    using run Some by (auto simp: restack_one_def res_simps rs_read [OF ok] split: option.splits if_splits)
  then show ?thesis
  proof cases
    case kept
    then have "r = cleanResult (dn_nodeId d) (vb_currentCommitId b) (dn_jjChangeId d) (vb_rewriteGeneration b)"
      "stop = False" "s' = s" using run Some by (auto simp: restack_one_def res_simps rs_read [OF ok])
    moreover have "vb_conflictState b \<noteq> Conflict" using kept(2) by (auto simp: isAlreadyRestacked_def split: if_splits)
    ultimately show ?thesis using kept(1) ok by (simp add: agrees_def cleanResult_def moved_def)
  next
    case tried
    let ?s1 = "s\<lparr>rw_rebases := Suc (rw_rebases s)\<rparr>"
    show ?thesis
    proof (cases "rk_rebase e (rw_rebases s) (dn_workingCopyId d) (dn_jjChangeId d) parent")
      case None
      then have "r = abortedResult (dn_nodeId d)" "stop" "s' = ?s1" using tried by (auto simp: rebase_one_def)
      then show ?thesis using ok by (simp add: agrees_def abortedResult_def moved_def binding_at_def)
    next
      case (Some out)
      define s2 where "s2 = ?s1\<lparr>rw_log := rw_log s @ [Rebased (dn_nodeId d) parent]\<rparr>"
      have p: "processRebaseOutcome e rq d out ?b s2 = (Inr r, s')" and st: "stop = (\<not> moved r)"
        using tried Some by (auto simp: rebase_one_def Let_def res_simps logS_def s2_def moved_def)
      have s2: "rw_table s2 = rw_table s" by (simp add: s2_def)
      then have b2: "binding_at rq n s2 = binding_at rq n s" for n by (simp add: binding_at_def)
      from process_agrees [of s2 ?b rq d e out r s'] ok s2 b2 p
      have q: "quiet rq (dn_nodeId d) s2 s'" "rn_nodeId r = dn_nodeId d" "agrees rq r s'" by auto
      then obtain new where "rw_log s' = rw_log s2 @ new" "\<forall>n c. Rebased n c \<notin> set new" by (auto simp: quiet_def)
      then have "rw_log s' = rw_log s @ Rebased (dn_nodeId d) parent # new" "\<forall>n c. Rebased n c \<notin> set new"
        by (simp_all add: s2_def)
      then show ?thesis using q st b2 \<open>resolved (dn_parentNodeId d) = Some parent\<close> by (auto simp: quiet_def)
    qed
  qed
qed

lemma aborted_rest:
  "restack_nodes e rq resolved True ds s = (Inr rs, s') \<Longrightarrow> s' = s \<and> rs = map (\<lambda>d. abortedResult (dn_nodeId d)) ds"
  by (induction ds arbitrary: rs s') (auto simp: res_simps)

lemma agrees_frame:
  "agrees rq r s \<Longrightarrow> binding_at rq (rn_nodeId r) s' = binding_at rq (rn_nodeId r) s \<Longrightarrow> agrees rq r s'"
  by (simp add: agrees_def)

definition ran :: "restack_request \<Rightarrow> (string \<Rightarrow> string option) \<Rightarrow> descendant list \<Rightarrow> restack_result list \<Rightarrow>
    restack_state \<Rightarrow> restack_state \<Rightarrow> bool" where
  "ran rq resolved ds rs s s' \<longleftrightarrow> map rn_nodeId rs = map dn_nodeId ds \<and> orderly rs \<and> (\<forall>r\<in>set rs. agrees rq r s') \<and>
     (\<forall>n. n \<notin> dn_nodeId ` set ds \<longrightarrow> binding_at rq n s' = binding_at rq n s) \<and>
     (\<exists>new. rw_log s' = rw_log s @ new \<and> (\<forall>n c. Rebased n c \<in> set new \<longrightarrow>
        (\<exists>d\<in>set ds. dn_nodeId d = n \<and> (resolved (dn_parentNodeId d) = Some c \<or>
           (\<exists>r\<in>set rs. rn_nodeId r = dn_parentNodeId d \<and> rn_newCommitId r = Some c \<and> moved r)))))"

lemma restack_nodes_ran:
  "table_ok (rw_table s) \<Longrightarrow> distinct (map dn_nodeId ds) \<Longrightarrow>
     restack_nodes e rq resolved False ds s = (Inr rs, s') \<Longrightarrow> ran rq resolved ds rs s s'"
proof (induction ds arbitrary: resolved s rs)
  case Nil
  then show ?case by (auto simp: res_simps ran_def)
next
  case (Cons d ds)
  define res where "res = (\<lambda>r :: restack_result. case rn_newCommitId r of Some commit \<Rightarrow> if rn_outcome r = O_clean \<or> rn_outcome r = O_repaired
       then resolved(dn_nodeId d \<mapsto> commit) else resolved | None \<Rightarrow> resolved)"
  obtain r stop s1 rest where one: "restack_one e rq resolved d s = (Inr (r, stop), s1)"
    and more: "restack_nodes e rq (res r) stop ds s1 = (Inr rest, s')" and rs: "rs = r # rest"
    using Cons.prems(3) by (auto simp: res_simps res_def Let_def split: prod.splits)
  from restack_one_agrees [OF Cons.prems(1) one] obtain new where ok1: "table_ok (rw_table s1)"
    and fr: "\<And>n. n \<noteq> dn_nodeId d \<Longrightarrow> binding_at rq n s1 = binding_at rq n s" and id: "rn_nodeId r = dn_nodeId d"
    and ag: "agrees rq r s1" and st: "stop = (\<not> moved r)" and new: "rw_log s1 = rw_log s @ new"
    and rb: "\<And>n c. Rebased n c \<in> set new \<Longrightarrow> n = dn_nodeId d \<and> resolved (dn_parentNodeId d) = Some c" by blast
  show ?case
  proof (cases stop)
    case True
    then have t: "s' = s1" "rest = map (\<lambda>d. abortedResult (dn_nodeId d)) ds" using aborted_rest more by auto
    have "agrees rq x s1" if "x \<in> set rest" for x using that t by (auto simp: agrees_def abortedResult_def)
    then show ?thesis
      using t ag id st True fr new rb unfolding ran_def rs
      by (auto simp: abortedResult_def list_all_iff comp_def)
  next
    case False
    have d: "dn_nodeId d \<notin> dn_nodeId ` set ds" "distinct (map dn_nodeId ds)" using Cons.prems(2) by auto
    have ih: "ran rq (res r) ds rest s1 s'" using Cons.IH [OF ok1 d(2)] more False by simp
    then obtain new' where new': "rw_log s' = rw_log s1 @ new'" and rb': "\<And>n c. Rebased n c \<in> set new' \<Longrightarrow>
        \<exists>d\<in>set ds. dn_nodeId d = n \<and> (res r (dn_parentNodeId d) = Some c \<or>
           (\<exists>r\<in>set rest. rn_nodeId r = dn_parentNodeId d \<and> rn_newCommitId r = Some c \<and> moved r))"
      unfolding ran_def by blast
    have res: "resolved p = Some c \<or> rn_nodeId r = p \<and> rn_newCommitId r = Some c \<and> moved r"
      if "res r p = Some c" for p c
      using that id by (auto simp: res_def moved_def split: option.splits if_splits)
    have ag': "agrees rq r s'"
    proof (rule agrees_frame [OF ag])
      show "binding_at rq (rn_nodeId r) s' = binding_at rq (rn_nodeId r) s1"
        using ih d(1) id by (simp add: ran_def)
    qed
    have log: "\<exists>d'\<in>set (d # ds). dn_nodeId d' = n \<and> (resolved (dn_parentNodeId d') = Some c \<or>
        (\<exists>x\<in>set (r # rest). rn_nodeId x = dn_parentNodeId d' \<and> rn_newCommitId x = Some c \<and> moved x))"
      if step: "Rebased n c \<in> set (new @ new')" for n c
    proof (cases "Rebased n c \<in> set new")
      case True
      then show ?thesis using rb by auto
    next
      case False
      then have "Rebased n c \<in> set new'" using step by simp
      from rb' [OF this] obtain d' where "d' \<in> set ds" "dn_nodeId d' = n" "res r (dn_parentNodeId d') = Some c \<or>
           (\<exists>r\<in>set rest. rn_nodeId r = dn_parentNodeId d' \<and> rn_newCommitId r = Some c \<and> moved r)"
        by blast
      then show ?thesis using res by (intro bexI [of _ d']) auto
    qed
    have "rw_log s' = rw_log s @ (new @ new')" using new new' by simp
    moreover have "\<forall>n. n \<notin> dn_nodeId ` set (d # ds) \<longrightarrow> binding_at rq n s' = binding_at rq n s"
      using ih fr by (simp add: ran_def)
    moreover have "map rn_nodeId (r # rest) = map dn_nodeId (d # ds)" "orderly (r # rest)"
      "\<forall>x\<in>set (r # rest). agrees rq x s'"
      using ih id st False ag' by (simp_all add: ran_def)
    ultimately show ?thesis unfolding ran_def rs using log by blast
  qed
qed

section \<open>The order\<close>

lemma index_descendants_ok:
  "index_descendants seen ds = Inr u \<Longrightarrow> distinct (map dn_nodeId ds) \<and> set (map dn_nodeId ds) \<inter> set seen = {}"
  by (induction seen ds rule: index_descendants.induct) (auto simp: res_simps)

text \<open>A depth is one more than the depth of the parent.\<close>

lemma depth_loop_grows: "depth_loop ds p visited k = Inr n \<Longrightarrow> k \<le> n"
proof (induction ds p visited k rule: depth_loop.induct)
  case (1 ds p visited k)
  then show ?case
    by (auto simp: depth_loop.simps [of ds p visited k] split: option.splits if_splits)
qed

lemma depth_loop_shift:
  "depth_loop ds p visited k = Inr n \<Longrightarrow> set visited' \<subseteq> set visited \<Longrightarrow>
     depth_loop ds p visited' j = Inr (n - k + j)"
proof (induction ds p visited k arbitrary: visited' j n rule: depth_loop.induct)
  case (1 ds p visited k)
  show ?case
  proof (cases "js_map dn_nodeId ds p")
    case None
    then show ?thesis using 1(2) by (simp add: depth_loop.simps [of ds p])
  next
    case (Some d)
    then have new: "dn_nodeId d \<notin> set visited"
      and step: "depth_loop ds (dn_parentNodeId d) (dn_nodeId d # visited) (k + 1) = Inr n"
      using 1(2) by (auto simp: depth_loop.simps [of ds p] split: if_splits)
    have "depth_loop ds (dn_parentNodeId d) (dn_nodeId d # visited') (j + 1) = Inr (n - (k + 1) + (j + 1))"
    proof (rule 1(1) [OF Some new step])
      show "set (dn_nodeId d # visited') \<subseteq> set (dn_nodeId d # visited)" using 1(3) by auto
    qed
    moreover have "k + 1 \<le> n" using depth_loop_grows [OF step] .
    ultimately show ?thesis using Some new 1(3) by (auto simp: depth_loop.simps [of ds p visited'])
  qed
qed

lemma depth_of_parent:
  assumes "depthOf ds d = Inr k" and "js_map dn_nodeId ds (dn_parentNodeId d) = Some p" and "depthOf ds p = Inr j"
  shows "k = Suc j"
proof -
  have step: "depth_loop ds (dn_parentNodeId p) [dn_nodeId p, dn_nodeId d] 1 = Inr k"
    using assms(1,2) by (auto simp: depthOf_def depth_loop.simps [of ds "dn_parentNodeId d"] split: if_splits)
  have "depth_loop ds (dn_parentNodeId p) [dn_nodeId p] 0 = Inr (k - 1 + 0)" by (rule depth_loop_shift [OF step]) auto
  then have "j = k - 1" using assms(3) by (simp add: depthOf_def)
  then show ?thesis using depth_loop_grows [OF step] by simp
qed

definition earlier :: "descendant list \<Rightarrow> nat \<Rightarrow> string \<Rightarrow> bool" where
  "earlier out i node \<longleftrightarrow> (\<exists>j<i. dn_nodeId (out ! j) = node)"

lemma subtreeOrder_parents_first:
  assumes "subtreeOrder ds = Inr out" and "1 < length ds" and "i < length out"
    and "dn_parentNodeId (out ! i) \<in> dn_nodeId ` set ds"
  shows "earlier out i (dn_parentNodeId (out ! i))"
proof -
  obtain depths where ix: "index_descendants [] ds = Inr ()" and dd: "mapE (depthOf ds) ds = Inr depths"
    and out: "out = map snd (sort_key (\<lambda>(k, d). (k, dn_nodeId d)) (zip depths ds))"
    using assms(1,2) by (auto simp: subtreeOrder_def res_simps)
  let ?key = "\<lambda>(k :: nat, d). (k, dn_nodeId d)" and ?z = "zip depths ds"
  have len: "length depths = length ds" and each: "\<And>i. i < length ds \<Longrightarrow> depthOf ds (ds ! i) = Inr (depths ! i)"
    using mapE_nth [OF dd] by auto
  have zip: "depthOf ds d = Inr k \<and> d \<in> set ds" if "(k, d) \<in> set ?z" for k d
    using that each by (auto simp: set_zip)
  have dist: "distinct (map dn_nodeId ds)" using index_descendants_ok [OF ix] by simp
  have i: "i < length ?z" using assms(3) len by (simp add: out)
  let ?s = "sort_key ?key ?z"
  obtain k d where kd: "?s ! i = (k, d)" by fastforce
  have "?s ! i \<in> set ?s" using i by (intro nth_mem) simp
  then have d: "depthOf ds d = Inr k" using zip kd by simp
  have oi: "out ! i = d" using kd i by (simp add: out)
  obtain p where p: "p \<in> set ds" "dn_nodeId p = dn_parentNodeId d" using assms(4) oi by auto
  then have jp: "js_map dn_nodeId ds (dn_parentNodeId d) = Some p" using js_map_distinct [OF dist] by auto
  obtain m where m: "m < length ds" "ds ! m = p" using p(1) by (auto simp: in_set_conv_nth)
  have jj: "(depths ! m, p) \<in> set ?z" using m len by (auto simp: set_zip)
  have "k = Suc (depths ! m)" using depth_of_parent [OF d jp] each [OF m(1)] m(2) by simp
  then have "?key (depths ! m, p) < ?key (?s ! i)" using kd by simp
  then obtain j where "j < i" "?s ! j = (depths ! m, p)"
    using sorted_key_index [of "(depths ! m, p)" ?key ?z i] jj i by auto
  moreover then have "out ! j = p" using i by (simp add: out)
  ultimately show ?thesis using p(2) oi by (auto simp: earlier_def)
qed

lemma subtreeOrder_same:
  assumes "subtreeOrder ds = Inr out"
  shows "mset out = mset ds" and "distinct (map dn_nodeId out)"
proof -
  have ix: "index_descendants [] ds = Inr ()" using assms by (auto simp: subtreeOrder_def res_simps)
  show m: "mset out = mset ds"
  proof (cases "length ds \<le> 1")
    case True
    then show ?thesis using assms by (auto simp: subtreeOrder_def res_simps)
  next
    case False
    then obtain depths where dd: "mapE (depthOf ds) ds = Inr depths"
      and out: "out = map snd (sort_key (\<lambda>(k, d). (k, dn_nodeId d)) (zip depths ds))"
      using assms by (auto simp: subtreeOrder_def res_simps)
    have "mset out = mset (map snd (zip depths ds))" unfolding out mset_map mset_sort ..
    then show ?thesis using mapE_nth [OF dd] by simp
  qed
  have "mset (map dn_nodeId out) = mset (map dn_nodeId ds)" using m by simp
  then show "distinct (map dn_nodeId out)" using index_descendants_ok [OF ix] mset_eq_imp_distinct_iff by blast
qed
section \<open>A whole run\<close>

lemma restack_Inr:
  assumes "restack e rq s = (Inr receipt, s')"
  obtains order results s1 where "subtreeOrder (rr_descendants rq) = Inr order"
    "restack_nodes e rq [rr_parentNodeId rq \<mapsto> rr_newParentCommit rq] False order s = (Inr results, s1)"
    "rw_table s' = rw_table s1" "\<exists>new. rw_log s' = rw_log s1 @ new \<and> (\<forall>n c. Rebased n c \<notin> set new)"
    "rx_restackedNodes receipt = results"
proof -
  obtain order results s1 where o: "subtreeOrder (rr_descendants rq) = Inr order"
    "restack_nodes e rq [rr_parentNodeId rq \<mapsto> rr_newParentCommit rq] False order s = (Inr results, s1)"
    and rest: "bindS (invalidateStale e results) (\<lambda>_. bindS (clock_nowS e) (\<lambda>now.
        returnS (buildReceipt rq results (rk_id e) now))) s1 = (Inr receipt, s')"
    using assms by (auto simp: restack_def bindE_def bindS_Inr_iff split: sum.splits)
  have "rw_table s' = rw_table s1 \<and> (\<exists>new. rw_log s' = rw_log s1 @ new \<and> (\<forall>n c. Rebased n c \<notin> set new)) \<and>
      rx_restackedNodes receipt = results"
    using rest by (auto simp: res_simps invalidateStale_def clock_nowS_def logS_def Let_def buildReceipt_def split: if_splits)
  with o show ?thesis using that by blast
qed

lemma restack_nodes_ok:
  "table_ok (rw_table s) \<Longrightarrow> restack_nodes e rq resolved aborted ds s = (Inr rs, s') \<Longrightarrow> table_ok (rw_table s')"
proof (induction ds arbitrary: resolved aborted s rs)
  case (Cons d ds)
  show ?case
  proof (cases aborted)
    case True
    then show ?thesis using Cons.prems aborted_rest [of e rq resolved "d # ds" s rs s'] by simp
  next
    case False
    then obtain r stop s1 rest res where "restack_one e rq resolved d s = (Inr (r, stop), s1)"
      "restack_nodes e rq res stop ds s1 = (Inr rest, s')"
      using Cons.prems(2) by (auto simp: res_simps Let_def split: prod.splits)
    then show ?thesis using Cons.IH restack_one_agrees [OF Cons.prems(1)] by blast
  qed
qed (simp add: res_simps)

text \<open>C30: Descendants move parent first, onto their parents' new commits. A restack that returns a receipt has
  exactly one result per descendant. The results are clean or repaired up to the first node that is not, and
  aborted after it. With more than one descendant, a node whose parent is in the set stands after it. Every
  rebase of the run put a descendant on the new commit of the rewritten node, if that is its parent, or on the
  commit the receipt reports for its parent, which was itself moved.\<close>

theorem restack_moves_parent_first:
  assumes "table_ok (rw_table s)" and "restack e rq s = (Inr receipt, s')"
  shows "mset (map rn_nodeId (rx_restackedNodes receipt)) = mset (map dn_nodeId (rr_descendants rq)) \<and>
    orderly (rx_restackedNodes receipt) \<and>
    (1 < length (rr_descendants rq) \<longrightarrow> (\<forall>i<length (rx_restackedNodes receipt). \<forall>d\<in>set (rr_descendants rq).
       dn_nodeId d = rn_nodeId (rx_restackedNodes receipt ! i) \<longrightarrow> dn_parentNodeId d \<in> dn_nodeId ` set (rr_descendants rq) \<longrightarrow>
       (\<exists>j<i. rn_nodeId (rx_restackedNodes receipt ! j) = dn_parentNodeId d))) \<and>
    (\<exists>new. rw_log s' = rw_log s @ new \<and> (\<forall>n c. Rebased n c \<in> set new \<longrightarrow>
       (\<exists>d\<in>set (rr_descendants rq). dn_nodeId d = n \<and>
          (dn_parentNodeId d = rr_parentNodeId rq \<and> c = rr_newParentCommit rq \<or>
           (\<exists>r\<in>set (rx_restackedNodes receipt). rn_nodeId r = dn_parentNodeId d \<and> rn_newCommitId r = Some c \<and> moved r)))))"
    (is "?same \<and> ?orderly \<and> ?first \<and> ?log")
proof (intro conjI)
  obtain order results s1 where o: "subtreeOrder (rr_descendants rq) = Inr order"
    and run: "restack_nodes e rq [rr_parentNodeId rq \<mapsto> rr_newParentCommit rq] False order s = (Inr results, s1)"
    and l: "\<exists>new. rw_log s' = rw_log s1 @ new \<and> (\<forall>n c. Rebased n c \<notin> set new)"
    and res: "rx_restackedNodes receipt = results" using assms(2) by (rule restack_Inr)
  note same = subtreeOrder_same [OF o]
  have ran: "ran rq [rr_parentNodeId rq \<mapsto> rr_newParentCommit rq] order results s s1"
    using restack_nodes_ran [OF assms(1) same(2) run] .
  have ids: "map rn_nodeId results = map dn_nodeId order" using ran by (simp add: ran_def)
  have set: "set order = set (rr_descendants rq)" using same(1) by (metis set_mset_mset)
  show ?same unfolding res ids using same(1) by simp
  show ?orderly unfolding res using ran by (simp add: ran_def)
  show ?first
  proof (intro impI allI ballI)
    fix i d assume many: "1 < length (rr_descendants rq)" and i: "i < length (rx_restackedNodes receipt)"
      and d: "d \<in> set (rr_descendants rq)" "dn_nodeId d = rn_nodeId (rx_restackedNodes receipt ! i)"
      and p: "dn_parentNodeId d \<in> dn_nodeId ` set (rr_descendants rq)"
    have io: "i < length order" using i res ids by (metis length_map)
    have nth: "rn_nodeId (results ! j) = dn_nodeId (order ! j)" if "j < length order" for j
      using ids that by (metis length_map nth_map)
    have "dn_nodeId (order ! i) = dn_nodeId d" using nth [OF io] d(2) res by simp
    then have "order ! i = d"
      using same(2) set d(1) io by (metis distinct_map inj_onD nth_mem)
    then have "earlier order i (dn_parentNodeId d)" using subtreeOrder_parents_first [OF o many io] p by simp
    then show "\<exists>j<i. rn_nodeId (rx_restackedNodes receipt ! j) = dn_parentNodeId d"
      using nth io res by (auto simp: earlier_def)
  qed
  obtain new where new: "rw_log s1 = rw_log s @ new" and rb: "\<And>n c. Rebased n c \<in> set new \<Longrightarrow>
      \<exists>d\<in>set order. dn_nodeId d = n \<and> ([rr_parentNodeId rq \<mapsto> rr_newParentCommit rq] (dn_parentNodeId d) = Some c \<or>
         (\<exists>r\<in>set results. rn_nodeId r = dn_parentNodeId d \<and> rn_newCommitId r = Some c \<and> moved r))"
    using ran unfolding ran_def by blast
  obtain more where more: "rw_log s' = rw_log s1 @ more" "\<forall>n c. Rebased n c \<notin> set more" using l by blast
  show ?log
  proof (intro exI [of _ "new @ more"] conjI allI impI)
    show "rw_log s' = rw_log s @ new @ more" using new more by simp
    fix n c assume "Rebased n c \<in> set (new @ more)"
    then have "Rebased n c \<in> set new" using more(2) by simp
    from rb [OF this] show "\<exists>d\<in>set (rr_descendants rq). dn_nodeId d = n \<and>
          (dn_parentNodeId d = rr_parentNodeId rq \<and> c = rr_newParentCommit rq \<or>
           (\<exists>r\<in>set (rx_restackedNodes receipt). rn_nodeId r = dn_parentNodeId d \<and> rn_newCommitId r = Some c \<and> moved r))"
      unfolding res set by (auto split: if_splits)
  qed
qed

text \<open>C31: A conflict blocks the export and a move does not. After a restack that returns a receipt, the export
  gate refuses every node the receipt reports as conflicted or exhausted, and lets every clean or repaired node
  pass; the stored binding of a clean or repaired node has exactly the commit and the rewrite generation the
  receipt reports.\<close>

theorem conflicts_block_export:
  assumes "table_ok (rw_table s)" and "restack e rq s = (Inr receipt, s')" and "r \<in> set (rx_restackedNodes receipt)"
  shows "(rn_outcome r \<in> {O_conflict, O_exhausted} \<longrightarrow>
      assertExportReady (rr_treeId rq) [rn_nodeId r] (rw_table s') = Inl Export_blocked) \<and>
    (rn_outcome r \<in> {O_clean, O_repaired} \<longrightarrow>
      assertExportReady (rr_treeId rq) [rn_nodeId r] (rw_table s') = Inr () \<and>
      (\<exists>b. getBinding (rr_treeId rq) (rn_nodeId r) (rw_table s') = Inr (Some b) \<and>
         rn_newCommitId r = Some (vb_currentCommitId b) \<and> rn_rewriteGeneration r = Some (vb_rewriteGeneration b)))"
proof -
  obtain order results s1 where o: "subtreeOrder (rr_descendants rq) = Inr order"
    and run: "restack_nodes e rq [rr_parentNodeId rq \<mapsto> rr_newParentCommit rq] False order s = (Inr results, s1)"
    and t: "rw_table s' = rw_table s1" and res: "rx_restackedNodes receipt = results"
    using assms(2) by (rule restack_Inr)
  have "ran rq [rr_parentNodeId rq \<mapsto> rr_newParentCommit rq] order results s s1"
    using restack_nodes_ran [OF assms(1) subtreeOrder_same(2) [OF o] run] .
  then have ag: "agrees rq r s1" using assms(3) res by (simp add: ran_def)
  have "is_ok (getBinding (rr_treeId rq) (rn_nodeId r) (rw_table s1))"
    using restack_nodes_ok [OF assms(1) run] by (rule sqlite_bindings.get_total)
  then obtain b where b: "getBinding (rr_treeId rq) (rn_nodeId r) (rw_table s') = Inr b" using t by (auto simp: is_ok_iff)
  then have "binding_at rq (rn_nodeId r) s1 = b" using t by (simp add: binding_at_def)
  then show ?thesis using ag b by (auto simp: agrees_def)
qed

section \<open>Sample runs\<close>

definition nodeIdOf :: "char \<Rightarrow> string" where
  "nodeIdOf c = ''00000000-0000-7000-8000-00000000000'' @ [c]"

text \<open>The rewritten node is \<open>1\<close>; \<open>2\<close> stands on it and \<open>3\<close> on \<open>2\<close>. The child is listed first.\<close>

definition sampleDescendant :: "char \<Rightarrow> char \<Rightarrow> descendant" where
  "sampleDescendant i p = \<lparr>dn_nodeId = nodeIdOf i, dn_parentNodeId = nodeIdOf p, dn_workingCopyId = [i],
     dn_jjChangeId = replicate 64 i, dn_currentCommitId = replicate 40 (CHR ''0'')\<rparr>"

definition sampleRestack :: restack_request where
  "sampleRestack = \<lparr>rr_treeId = nodeIdOf (CHR ''0''), rr_parentNodeId = nodeIdOf (CHR ''1''),
     rr_newParentCommit = replicate 40 (CHR ''f''),
     rr_descendants = [sampleDescendant (CHR ''3'') (CHR ''2''), sampleDescendant (CHR ''2'') (CHR ''1'')]\<rparr>"

text \<open>The first rebase is clean, the second conflicts; there is no harness.\<close>

definition sampleRebase :: "bool \<Rightarrow> string \<Rightarrow> char \<Rightarrow> rebase_outcome" where
  "sampleRebase clean change commit = \<lparr>ro_clean = clean, ro_conflictingPaths = (if clean then [] else [''f'']),
     ro_semanticConflictPaths = [], ro_newCommitId = replicate 40 commit, ro_newChangeId = change,
     ro_parentCount = 1, ro_operationLogId = replicate 64 (CHR ''e'')\<rparr>"

definition sampleRestackEnv :: restack_env where
  "sampleRestackEnv = \<lparr>rk_rebase = (\<lambda>n _ change _. Some (sampleRebase (n = 0) change (if n = 0 then CHR ''a'' else CHR ''b''))),
     rk_diff = (\<lambda>_ _. Some ''<<<<<<< ours''), rk_squash = (\<lambda>_ _. None), rk_harness = None, rk_staleSink = True,
     rk_attentionSink = True, rk_ceiling = 3, rk_writes = (\<lambda>_. True), rk_now = (\<lambda>n. int n), rk_id = ''receipt'',
     rk_digest = (\<lambda>_. replicate 64 (CHR ''0''))\<rparr>"

definition emptyRestackState :: restack_state where
  "emptyRestackState = \<lparr>rw_table = [], rw_rebases = 0, rw_diffs = 0, rw_squashes = 0, rw_repairs = 0,
     rw_writes = 0, rw_clock = 0, rw_log = []\<rparr>"

definition sampleReceipt :: restack_receipt where
  "sampleReceipt = projr (fst (restack sampleRestackEnv sampleRestack emptyRestackState))"

definition sampleRestacked :: restack_state where
  "sampleRestacked = snd (restack sampleRestackEnv sampleRestack emptyRestackState)"

lemma sampleRestack_runs:
  "restack sampleRestackEnv sampleRestack emptyRestackState = (Inr sampleReceipt, sampleRestacked)"
proof -
  have "is_ok (fst (restack sampleRestackEnv sampleRestack emptyRestackState))" by code_simp
  from Inr_projr [OF this] show ?thesis by (simp add: sampleReceipt_def sampleRestacked_def prod_eq_iff)
qed

lemma emptyTable_ok: "table_ok (rw_table emptyRestackState)"
  by (simp add: emptyRestackState_def table_ok_def)

theorem restack_moves_parent_first_witness:
  "mset (map rn_nodeId (rx_restackedNodes sampleReceipt)) = {#nodeIdOf (CHR ''2''), nodeIdOf (CHR ''3'')#} \<and>
   orderly (rx_restackedNodes sampleReceipt)"
  using restack_moves_parent_first [OF emptyTable_ok sampleRestack_runs]
  by (simp add: sampleRestack_def sampleDescendant_def)

theorem conflicts_block_export_witness:
  "assertExportReady (rr_treeId sampleRestack) [nodeIdOf (CHR ''3'')] (rw_table sampleRestacked) = Inl Export_blocked \<and>
   assertExportReady (rr_treeId sampleRestack) [nodeIdOf (CHR ''2'')] (rw_table sampleRestacked) = Inr ()"
proof -
  let ?clean = "rx_restackedNodes sampleReceipt ! 0" and ?red = "rx_restackedNodes sampleReceipt ! 1"
  have "length (rx_restackedNodes sampleReceipt) = 2" by code_simp
  then have m: "?clean \<in> set (rx_restackedNodes sampleReceipt)" "?red \<in> set (rx_restackedNodes sampleReceipt)" by simp_all
  have "rn_outcome ?clean = O_clean" "rn_nodeId ?clean = nodeIdOf (CHR ''2'')"
    "rn_outcome ?red = O_conflict" "rn_nodeId ?red = nodeIdOf (CHR ''3'')" by code_simp+
  then show ?thesis
    using conflicts_block_export [OF emptyTable_ok sampleRestack_runs m(1)]
      conflicts_block_export [OF emptyTable_ok sampleRestack_runs m(2)] by simp
qed

section \<open>Three divergences\<close>

text \<open>
  A resolved binding has no way back to a conflict: when a node whose earlier conflict was repaired
  conflicts again, recording the conflict throws and the run ends without attention or receipt.
\<close>

lemma resolved_binding_cannot_conflict:
  assumes "table_ok (rw_table s)" and "binding_at rq (dn_nodeId d) s = Some b" and "vb_conflictState b = Resolved"
    and "validateAncestry (ro_parentCount out)" and "\<not> ro_clean out"
  shows "\<exists>err s'. processRebaseOutcome e rq d out (Some b) s = (Inl err, s')"
proof (cases "processRebaseOutcome e rq d out (Some b) s")
  case (Pair res s')
  show ?thesis
  proof (cases res)
    case (Inr r)
    then have run: "processRebaseOutcome e rq d out (Some b) s = (Inr r, s')" using Pair by simp
    obtain diff s1 c s2 g s3 where rd: "readDiff e (dn_workingCopyId d) s = (Inr diff, s1)"
      and bb: "buildConflictBundle e rq d out (if length (detectConflictMarkers diff) > 0 \<or>
          length (ro_semanticConflictPaths out) = 0 then Textual else Semantic) True (Some diff) s1 = (Inr c, s2)"
      and u: "updateBinding e rq d (ro_newCommitId out) (ro_newChangeId out) (ro_operationLogId out) Conflict s2 = (Inr g, s3)"
      using run assms(4,5) by (auto simp: processRebaseOutcome_def recordDurableConflict_def res_simps Let_def)
    have "rw_table s2 = rw_table s" using readDiff_state [OF rd] bundle_state [OF bb] by simp
    then have "table_ok (rw_table s2)" "binding_at rq (dn_nodeId d) s2 = Some b" using assms(1,2) by (simp_all add: binding_at_def)
    with updateBinding_Inr [OF _ u] assms(3) show ?thesis by (auto simp: isValidConflictTransition_def)
  qed (use Pair in auto)
qed

text \<open>
  The first binding of a node names the node's own change as its parent. (A rebase keeps the change id.)
\<close>

lemma first_binding_is_its_own_parent:
  "vb_parentChangeId (binding_with None rq d commit (dn_jjChangeId d) operation st now) =
     Some (vb_jjChangeId (binding_with None rq d commit (dn_jjChangeId d) operation st now))"
  by (simp add: binding_with_def)

text \<open>
  In a git diff the lines of a conflicted file are added lines, with a plus sign before the marker, so that
  the parser, which looks for markers at the start of a line, finds none.
\<close>

lemma added_markers_missed:
  "detectConflictMarkers (''diff --git a/f b/f'' @ [CHR 0x0A] @ ''+++ b/f'' @ [CHR 0x0A] @ ''+<<<<<<< ours'') = [] \<and>
   detectConflictMarkers (''diff --git a/f b/f'' @ [CHR 0x0A] @ ''+++ b/f'' @ [CHR 0x0A] @ ''<<<<<<< ours'') = [''f'']"
  by code_simp

text \<open>A single descendant is never compared, so a cycle of one is not found.\<close>

lemma single_cycle_accepted:
  "subtreeOrder [sampleDescendant (CHR ''2'') (CHR ''2'')] = Inr [sampleDescendant (CHR ''2'') (CHR ''2'')]"
  by code_simp

end
