(* ===== verification/Stack_Parentage.thy ===== *)
theory Stack_Parentage
  imports Value_Objects "HOL-Library.Product_Lexorder" "HOL-Library.Multiset"
begin

text \<open>
  \<^verbatim>\<open>packages/core/src/stack-parentage.ts\<close>: the branch and the base of every node of a tree, the
  stack of pull requests they form, the check of its topology, and the new base of a child when its
  parent lands. A map from node or branch is the list it was filled from, read with \<open>js_map\<close>.
\<close>

section \<open>Shapes and names\<close>

datatype stack_error =
    Stack_invalid_input | Fan_in | Orphan | Cycle | Duplicate_branch | Node_not_found | Drift
  | Stack_api_error | Binding_lookup_failed | Stack_domain domain_error_code

record stack_position =
  sp_treeId :: string
  sp_nodeId :: string
  sp_branch :: string
  sp_baseBranch :: string
  sp_depth :: nat

record stack_node =
  sn_treeId :: string
  sn_nodeId :: string
  sn_parentIds :: "string list"

record retarget_plan =
  rt_treeId :: string
  rt_childNodeId :: string
  rt_newBaseBranch :: string
  rt_previousBaseBranch :: string

definition STACK_BRANCH_PREFIX :: string where "STACK_BRANCH_PREFIX = ''minions''"
definition STACK_TRUNK_BRANCH :: string where "STACK_TRUNK_BRANCH = ''main''"
definition STACK_TREE_SHORT_LENGTH :: int where "STACK_TREE_SHORT_LENGTH = 8"
definition STACK_NODE_SHORT_LENGTH :: int where "STACK_NODE_SHORT_LENGTH = 12"

definition domain_check :: "string checked \<Rightarrow> stack_error + unit" where
  "domain_check m = (case m of Inl e \<Rightarrow> Inl (Stack_domain e) | Inr _ \<Rightarrow> Inr ())"

definition shortIdentity :: "string \<Rightarrow> number \<Rightarrow> stack_error + string" where
  "shortIdentity identity len =
     (if \<not> isSafeInteger len \<or> int_of_number len \<le> 0 then Inl Stack_invalid_input
      else let compact = filter (\<lambda>c. c \<noteq> CHR ''-'') identity in
        if int_of_number len \<ge> int (length compact) then Inr compact
        else Inr (drop (length compact - nat (int_of_number len)) compact))"

definition determineBranchName :: "string \<Rightarrow> string \<Rightarrow> stack_error + string" where
  "determineBranchName tree node =
     bindE (domain_check (taskTreeId tree)) (\<lambda>_.
     bindE (domain_check (taskNodeId node)) (\<lambda>_.
     bindE (shortIdentity tree (number_of_int STACK_TREE_SHORT_LENGTH)) (\<lambda>treeShort.
     bindE (shortIdentity node (number_of_int STACK_NODE_SHORT_LENGTH)) (\<lambda>nodeShort.
       Inr (STACK_BRANCH_PREFIX @ ''/'' @ treeShort @ ''/'' @ nodeShort)))))"

definition determineBaseBranch ::
    "string \<Rightarrow> string \<Rightarrow> string option \<Rightarrow> string \<Rightarrow> stack_error + string" where
  "determineBaseBranch tree node parent trunk =
     bindE (domain_check (taskTreeId tree)) (\<lambda>_.
     bindE (domain_check (taskNodeId node)) (\<lambda>_.
     bindE (guardE (length trunk \<noteq> 0) Stack_invalid_input) (\<lambda>_.
     case parent of
       None \<Rightarrow> Inr trunk
     | Some p \<Rightarrow> bindE (domain_check (taskNodeId p)) (\<lambda>_. determineBranchName tree p))))"

section \<open>Construction\<close>

definition validateStackInput :: "stack_node list \<Rightarrow> string \<Rightarrow> stack_error + unit" where
  "validateStackInput nodes trunk =
     bindE (guardE (length nodes \<noteq> 0) Stack_invalid_input) (\<lambda>_.
     bindE (guardE (length trunk \<noteq> 0) Stack_invalid_input) (\<lambda>_.
     bindE (domain_check (taskTreeId (sn_treeId (hd nodes)))) (\<lambda>_.
     guardE (list_all (\<lambda>n. sn_treeId n = sn_treeId (hd nodes)) nodes) Stack_invalid_input)))"

fun check_parents :: "string list \<Rightarrow> stack_error + unit" where
  "check_parents [] = Inr ()"
| "check_parents (p # ps) = bindE (domain_check (taskNodeId p)) (\<lambda>_. check_parents ps)"

text \<open>The loop of \<open>indexNodes\<close> and \<open>Map.has\<close>: the identities already in the map.\<close>

fun index_loop :: "string list \<Rightarrow> stack_node list \<Rightarrow> stack_error + unit" where
  "index_loop seen [] = Inr ()"
| "index_loop seen (n # ns) =
     bindE (domain_check (taskTreeId (sn_treeId n))) (\<lambda>_.
     bindE (domain_check (taskNodeId (sn_nodeId n))) (\<lambda>_.
     bindE (check_parents (sn_parentIds n)) (\<lambda>_.
     bindE (guardE (sn_nodeId n \<notin> set seen) Stack_invalid_input) (\<lambda>_.
       index_loop (sn_nodeId n # seen) ns))))"

definition indexNodes :: "stack_node list \<Rightarrow> stack_error + (string \<Rightarrow> stack_node option)" where
  "indexNodes nodes = bindE (index_loop [] nodes) (\<lambda>_. Inr (js_map sn_nodeId nodes))"

text \<open>
  The \<open>while\<close> loop of \<open>resolveDepth\<close>. It stops because every turn marks one more node of the set as
  visited.
\<close>

function resolve_loop ::
    "stack_node list \<Rightarrow> stack_node \<Rightarrow> string list \<Rightarrow> nat \<Rightarrow> stack_error + nat" where
  "resolve_loop nodes current visited depth = (case sn_parentIds current of
     [p] \<Rightarrow>
       (if p \<in> set visited then Inl Cycle
        else case js_map sn_nodeId nodes p of
          None \<Rightarrow> Inl Orphan
        | Some parent \<Rightarrow>
            (if length (sn_parentIds parent) > 1 then Inl Fan_in
             else resolve_loop nodes parent (p # visited) (depth + 1)))
   | _ \<Rightarrow> Inr depth)"
  by pat_completeness auto

termination
  by (relation "measure (\<lambda>(nodes, _, visited, _). length (filter (\<lambda>n. sn_nodeId n \<notin> set visited) nodes))")
     (use unvisited_shrinks in auto)

declare resolve_loop.simps [simp del]

definition resolveDepth :: "stack_node list \<Rightarrow> stack_node \<Rightarrow> stack_error + nat" where
  "resolveDepth nodes n = resolve_loop nodes n [sn_nodeId n] 0"

text \<open>The \<open>for\<close> loop that follows the bases of one position, with its own bound.\<close>

fun topology_walk ::
    "stack_position list \<Rightarrow> string \<Rightarrow> nat \<Rightarrow> stack_position \<Rightarrow> string list \<Rightarrow> stack_error + unit" where
  "topology_walk ps trunk 0 cursor visited = Inr ()"
| "topology_walk ps trunk (Suc steps) cursor visited =
     (if sp_baseBranch cursor = trunk then Inr ()
      else if sp_branch cursor \<in> set visited then Inl Cycle
      else case js_map sp_branch ps (sp_baseBranch cursor) of
        None \<Rightarrow> Inl Orphan
      | Some next \<Rightarrow> topology_walk ps trunk steps next (sp_branch cursor # visited))"

fun distinct_branches :: "string list \<Rightarrow> stack_position list \<Rightarrow> stack_error + unit" where
  "distinct_branches seen [] = Inr ()"
| "distinct_branches seen (p # ps) =
     (if sp_branch p \<in> set seen then Inl Duplicate_branch
      else distinct_branches (sp_branch p # seen) ps)"

definition validateStackTopology :: "stack_position list \<Rightarrow> string \<Rightarrow> stack_error + unit" where
  "validateStackTopology ps trunk =
     bindE (guardE (length ps \<noteq> 0) Stack_invalid_input) (\<lambda>_.
     bindE (guardE (length trunk \<noteq> 0) Stack_invalid_input) (\<lambda>_.
     bindE (distinct_branches [] ps) (\<lambda>_.
     bindE (mapE (\<lambda>p. topology_walk ps trunk (Suc (length ps)) p []) ps) (\<lambda>_. Inr ()))))"

definition stack_parent :: "stack_node \<Rightarrow> string option" where
  "stack_parent n = (case sn_parentIds n of [] \<Rightarrow> None | p # _ \<Rightarrow> Some p)"

definition position_of :: "stack_node list \<Rightarrow> string \<Rightarrow> stack_node \<Rightarrow> stack_error + stack_position" where
  "position_of nodes trunk n =
     bindE (guardE (\<not> length (sn_parentIds n) > 1) Fan_in) (\<lambda>_.
     bindE (determineBranchName (sn_treeId n) (sn_nodeId n)) (\<lambda>branch.
     bindE (determineBaseBranch (sn_treeId n) (sn_nodeId n) (stack_parent n) trunk) (\<lambda>base.
     bindE (resolveDepth nodes n) (\<lambda>depth.
       Inr \<lparr>sp_treeId = sn_treeId n, sp_nodeId = sn_nodeId n, sp_branch = branch,
            sp_baseBranch = base, sp_depth = depth\<rparr>))))"

text \<open>\<open>Array.sort\<close> with \<open>byDepthThenNode\<close>, a consistent comparator.\<close>

definition byDepthThenNode :: "stack_position \<Rightarrow> nat \<times> string" where
  "byDepthThenNode p = (sp_depth p, sp_nodeId p)"

definition buildStackPath :: "stack_node list \<Rightarrow> string \<Rightarrow> stack_error + stack_position list" where
  "buildStackPath nodes trunk =
     bindE (validateStackInput nodes trunk) (\<lambda>_.
     bindE (indexNodes nodes) (\<lambda>_.
     bindE (mapE (position_of nodes trunk) nodes) (\<lambda>ps.
     bindE (validateStackTopology ps trunk) (\<lambda>_.
       Inr (sort_key byDepthThenNode ps)))))"

definition retargetAfterLanding ::
    "string \<Rightarrow> string \<Rightarrow> stack_node list \<Rightarrow> string \<Rightarrow> stack_error + retarget_plan" where
  "retargetAfterLanding landedId childId nodes trunk =
     bindE (validateStackInput nodes trunk) (\<lambda>_.
     bindE (domain_check (taskNodeId landedId)) (\<lambda>_.
     bindE (domain_check (taskNodeId childId)) (\<lambda>_.
     bindE (indexNodes nodes) (\<lambda>byNode.
     case byNode landedId of
       None \<Rightarrow> Inl Node_not_found
     | Some landed \<Rightarrow>
         (case byNode childId of
            None \<Rightarrow> Inl Node_not_found
          | Some child \<Rightarrow>
              bindE (guardE (landedId \<in> set (sn_parentIds child)) Stack_invalid_input) (\<lambda>_.
              bindE (determineBaseBranch (sn_treeId landed) (sn_nodeId landed) (stack_parent landed) trunk) (\<lambda>newBase.
              bindE (determineBranchName (sn_treeId landed) (sn_nodeId landed)) (\<lambda>previous.
                Inr \<lparr>rt_treeId = sn_treeId landed, rt_childNodeId = childId,
                     rt_newBaseBranch = newBase, rt_previousBaseBranch = previous\<rparr>))))))))"

section \<open>The topology check\<close>

text \<open>\<open>roots_in ps trunk n p\<close>: the bases reach the trunk from \<open>p\<close> in exactly \<open>n\<close> steps.\<close>

primrec roots_in :: "stack_position list \<Rightarrow> string \<Rightarrow> nat \<Rightarrow> stack_position \<Rightarrow> bool" where
  "roots_in ps trunk 0 p = (sp_baseBranch p = trunk)"
| "roots_in ps trunk (Suc n) p = (sp_baseBranch p \<noteq> trunk \<and>
     (case js_map sp_branch ps (sp_baseBranch p) of None \<Rightarrow> False | Some q \<Rightarrow> roots_in ps trunk n q))"

definition rooted :: "stack_position list \<Rightarrow> string \<Rightarrow> bool" where
  "rooted ps trunk \<longleftrightarrow> (\<forall>p\<in>set ps. \<exists>n. roots_in ps trunk n p)"

lemma roots_in_unique: "roots_in ps trunk n p \<Longrightarrow> roots_in ps trunk m p \<Longrightarrow> n = m"
proof (induction n arbitrary: m p)
  case 0
  then show ?case by (cases m) auto
next
  case (Suc n)
  then show ?case by (cases m) (auto split: option.splits)
qed

lemma distinct_branches_ok:
  "distinct_branches seen ps = Inr u \<longleftrightarrow> distinct (map sp_branch ps) \<and> set (map sp_branch ps) \<inter> set seen = {}"
  by (induction seen ps rule: distinct_branches.induct) auto

lemma walk_sound:
  assumes "topology_walk ps trunk steps cursor visited = Inr u" and "distinct visited"
    and "set visited \<subseteq> sp_branch ` set ps" and "length ps < length visited + steps" and "cursor \<in> set ps"
  shows "\<exists>n. roots_in ps trunk n cursor"
  using assms
proof (induction ps trunk steps cursor visited rule: topology_walk.induct)
  case (1 ps trunk cursor visited)
  have "card (set visited) \<le> card (sp_branch ` set ps)" using 1 by (intro card_mono) auto
  also have "\<dots> \<le> length ps" using card_image_le card_length le_trans by blast
  finally show ?case using 1 by (simp add: distinct_card)
next
  case (2 ps trunk steps cursor visited)
  show ?case
  proof (cases "sp_baseBranch cursor = trunk")
    case True
    then have "roots_in ps trunk 0 cursor" by simp
    then show ?thesis by blast
  next
    case False
    then obtain q where q: "js_map sp_branch ps (sp_baseBranch cursor) = Some q"
      and new: "sp_branch cursor \<notin> set visited"
      and walk: "topology_walk ps trunk steps q (sp_branch cursor # visited) = Inr u"
      using 2(2) by (auto split: option.splits if_splits)
    obtain n where "roots_in ps trunk n q"
      using 2(1) [OF False new q walk] 2(3-6) new js_map_Some [OF q] by auto
    then have "roots_in ps trunk (Suc n) cursor" using False q by simp
    then show ?thesis by blast
  qed
qed

lemma walk_complete:
  assumes "distinct (map sp_branch ps)" and "cursor \<in> set ps" and "roots_in ps trunk n cursor"
    and "\<forall>v\<in>set visited. \<exists>q\<in>set ps. sp_branch q = v \<and> (\<exists>m>n. roots_in ps trunk m q)"
  shows "topology_walk ps trunk steps cursor visited = Inr ()"
  using assms(2-4)
proof (induction steps arbitrary: n cursor visited)
  case (Suc steps)
  show ?case
  proof (cases "sp_baseBranch cursor = trunk")
    case False
    then obtain k q where n: "n = Suc k" and q: "js_map sp_branch ps (sp_baseBranch cursor) = Some q"
      and k: "roots_in ps trunk k q"
      using Suc.prems(2) by (cases n) (auto split: option.splits)
    have new: "sp_branch cursor \<notin> set visited"
    proof
      assume "sp_branch cursor \<in> set visited"
      then obtain q' m where "q' \<in> set ps" "sp_branch q' = sp_branch cursor" "n < m" "roots_in ps trunk m q'"
        using Suc.prems(3) by blast
      then have "q' = cursor" using assms(1) Suc.prems(1) by (metis distinct_map inj_onD)
      then show False using roots_in_unique [OF Suc.prems(2)] \<open>n < m\<close> \<open>roots_in ps trunk m q'\<close> by auto
    qed
    have "\<forall>v\<in>set (sp_branch cursor # visited). \<exists>q\<in>set ps. sp_branch q = v \<and> (\<exists>m>k. roots_in ps trunk m q)"
    proof
      fix v assume "v \<in> set (sp_branch cursor # visited)"
      then consider "v = sp_branch cursor" | "v \<in> set visited" by auto
      then show "\<exists>q\<in>set ps. sp_branch q = v \<and> (\<exists>m>k. roots_in ps trunk m q)"
      proof cases
        case 1
        then show ?thesis using Suc.prems(1,2) n by blast
      next
        case 2
        then show ?thesis using Suc.prems(3) n by (meson Suc_lessD)
      qed
    qed
    then have "topology_walk ps trunk steps q (sp_branch cursor # visited) = Inr ()"
      using Suc.IH [OF _ k] js_map_Some [OF q] by simp
    then show ?thesis using False new q by simp
  qed simp
qed simp

lemma topology_ok:
  "validateStackTopology ps trunk = Inr () \<longleftrightarrow>
     ps \<noteq> [] \<and> trunk \<noteq> [] \<and> distinct (map sp_branch ps) \<and> rooted ps trunk"
proof -
  have walks: "is_ok (mapE (\<lambda>p. topology_walk ps trunk (Suc (length ps)) p []) ps) \<longleftrightarrow> rooted ps trunk"
    if d: "distinct (map sp_branch ps)"
  proof -
    have "is_ok (topology_walk ps trunk (Suc (length ps)) p []) \<longleftrightarrow> (\<exists>n. roots_in ps trunk n p)"
      if "p \<in> set ps" for p
      using walk_sound [of ps trunk "Suc (length ps)" p "[]"] walk_complete [OF d that, of trunk _ "[]"] that
      unfolding is_ok_iff by (auto simp del: topology_walk.simps)
    then show ?thesis unfolding mapE_Inr_iff rooted_def by blast
  qed
  show ?thesis
    unfolding validateStackTopology_def
    using walks by (auto simp: res_simps distinct_branches_ok is_ok_iff simp del: topology_walk.simps)
qed

section \<open>Depths\<close>

primrec depth_in :: "stack_node list \<Rightarrow> nat \<Rightarrow> stack_node \<Rightarrow> bool" where
  "depth_in nodes 0 n = (sn_parentIds n = [])"
| "depth_in nodes (Suc k) n = (case sn_parentIds n of
     [p] \<Rightarrow> (case js_map sn_nodeId nodes p of None \<Rightarrow> False | Some m \<Rightarrow> depth_in nodes k m)
   | _ \<Rightarrow> False)"

definition node_parent :: "stack_node list \<Rightarrow> string \<Rightarrow> string option" where
  "node_parent nodes i = (case js_map sn_nodeId nodes i of None \<Rightarrow> None | Some n \<Rightarrow> stack_parent n)"

lemma resolve_loop_step:
  "sn_parentIds current = [] \<Longrightarrow> resolve_loop nodes current visited depth = Inr depth"
  "sn_parentIds current = [p] \<Longrightarrow> resolve_loop nodes current visited depth =
     (if p \<in> set visited then Inl Cycle else case js_map sn_nodeId nodes p of None \<Rightarrow> Inl Orphan
      | Some parent \<Rightarrow> if length (sn_parentIds parent) > 1 then Inl Fan_in
          else resolve_loop nodes parent (p # visited) (depth + 1))"
  by (simp_all add: resolve_loop.simps [of nodes current])

lemma resolve_loop_sound:
  "resolve_loop nodes current visited depth = Inr d \<Longrightarrow> length (sn_parentIds current) \<le> 1 \<Longrightarrow>
     \<exists>k. d = depth + k \<and> depth_in nodes k current"
proof (induction nodes current visited depth rule: resolve_loop.induct)
  case (1 nodes current visited depth)
  consider "sn_parentIds current = []" | p where "sn_parentIds current = [p]"
    using 1(3) by (cases "sn_parentIds current"; cases "tl (sn_parentIds current)") auto
  then show ?case
  proof cases
    case 1
    then have "d = depth + 0 \<and> depth_in nodes 0 current"
      using \<open>resolve_loop nodes current visited depth = Inr d\<close> by (simp add: resolve_loop_step)
    then show ?thesis by blast
  next
    case 2
    then obtain m where m: "js_map sn_nodeId nodes p = Some m" "p \<notin> set visited" "\<not> length (sn_parentIds m) > 1"
      "resolve_loop nodes m (p # visited) (depth + 1) = Inr d"
      using 1(2) by (auto simp: resolve_loop_step split: if_splits option.splits)
    then obtain k where "d = depth + 1 + k" "depth_in nodes k m" using 1(1) [OF 2 refl m(2,1,3,4)] m(3) by (auto simp: not_less)
    then have "d = depth + Suc k \<and> depth_in nodes (Suc k) current" using 2 m by simp
    then show ?thesis by blast
  qed
qed

text \<open>Over parents that are in the set and have no cycle the loop does not fail.\<close>

lemma resolve_loop_ok:
  assumes "\<forall>n\<in>set nodes. length (sn_parentIds n) \<le> 1 \<and> set (sn_parentIds n) \<subseteq> sn_nodeId ` set nodes"
    and "distinct (map sn_nodeId nodes)" and "\<forall>i. \<not> ancestor_of (node_parent nodes) i i"
  shows "current \<in> set nodes \<Longrightarrow>
     \<forall>v\<in>set visited. v = sn_nodeId current \<or> ancestor_of (node_parent nodes) v (sn_nodeId current) \<Longrightarrow>
     is_ok (resolve_loop nodes current visited depth)"
  using assms
proof (induction nodes current visited depth rule: resolve_loop.induct)
  case (1 nodes current visited depth)
  note good = 1(4) and dist = 1(5) and acyc = 1(6)
  consider "sn_parentIds current = []" | p where "sn_parentIds current = [p]"
    using good 1(2) by (cases "sn_parentIds current"; cases "tl (sn_parentIds current)") fastforce+
  then show ?case
  proof cases
    case 1
    then show ?thesis by (simp add: resolve_loop_step)
  next
    case 2
    have cur: "js_map sn_nodeId nodes (sn_nodeId current) = Some current"
      using js_map_distinct [OF dist] 1(2) by auto
    have step: "node_parent nodes (sn_nodeId current) = Some p" by (simp add: node_parent_def cur stack_parent_def 2)
    have "p \<in> sn_nodeId ` set nodes" using good 1(2) 2 by fastforce
    then obtain m where m: "m \<in> set nodes" "sn_nodeId m = p" by auto
    then have jm: "js_map sn_nodeId nodes p = Some m" using js_map_distinct [OF dist] by auto
    have new: "p \<notin> set visited"
      using 1(3) step acyc by (metis ancestor_of.direct ancestor_of_trans)
    have single: "\<not> length (sn_parentIds m) > 1" using good m(1) by (auto simp: not_less)
    have "is_ok (resolve_loop nodes m (p # visited) (depth + 1))"
    proof (rule 1(1) [OF 2 refl new jm single m(1)])
      have "ancestor_of (node_parent nodes) (sn_nodeId current) p" using step by (rule ancestor_of.direct)
      then show "\<forall>v\<in>set (p # visited). v = sn_nodeId m \<or> ancestor_of (node_parent nodes) v (sn_nodeId m)"
        using 1(3) m(2) ancestor_of_trans [of "node_parent nodes" _ "sn_nodeId current" p] by auto
    qed (use good dist acyc in auto)
    then show ?thesis using 2 new jm single by (simp add: resolve_loop_step)
  qed
qed

section \<open>The accepted inputs\<close>

definition stack_ok :: "stack_node list \<Rightarrow> string \<Rightarrow> bool" where
  "stack_ok nodes trunk \<longleftrightarrow> nodes \<noteq> [] \<and> trunk \<noteq> [] \<and>
     (\<forall>n\<in>set nodes. sn_treeId n = sn_treeId (hd nodes) \<and> uuidV7Pattern (sn_treeId n) \<and>
        uuidV7Pattern (sn_nodeId n) \<and> length (sn_parentIds n) \<le> 1 \<and>
        set (sn_parentIds n) \<subseteq> sn_nodeId ` set nodes) \<and>
     distinct (map sn_nodeId nodes) \<and> (\<forall>i. \<not> ancestor_of (node_parent nodes) i i) \<and>
     distinct (map (\<lambda>n. determineBranchName (sn_treeId n) (sn_nodeId n)) nodes)"

lemma domain_check_uuid [simp]:
  "domain_check (taskTreeId s) = Inr u \<longleftrightarrow> uuidV7Pattern s" "domain_check (taskNodeId s) = Inr u \<longleftrightarrow> uuidV7Pattern s"
  by (simp_all add: domain_check_def taskTreeId_def taskNodeId_def parseUuidV7_def)

lemma domain_check_pass [simp]:
  "uuidV7Pattern s \<Longrightarrow> domain_check (taskTreeId s) = Inr ()" "uuidV7Pattern s \<Longrightarrow> domain_check (taskNodeId s) = Inr ()"
  by simp_all

lemma shortIdentity_ok:
  "\<exists>s. shortIdentity i (number_of_int STACK_TREE_SHORT_LENGTH) = Inr s"
  "\<exists>s. shortIdentity i (number_of_int STACK_NODE_SHORT_LENGTH) = Inr s"
  by (simp_all add: shortIdentity_def STACK_TREE_SHORT_LENGTH_def STACK_NODE_SHORT_LENGTH_def
      safe_int_def max_safe_integer_def Let_def)

lemma branch_ok: "is_ok (determineBranchName t n) \<longleftrightarrow> uuidV7Pattern t \<and> uuidV7Pattern n"
proof -
  obtain a b where "shortIdentity t (number_of_int STACK_TREE_SHORT_LENGTH) = Inr a"
    "shortIdentity n (number_of_int STACK_NODE_SHORT_LENGTH) = Inr b" using shortIdentity_ok by blast
  then show ?thesis by (auto simp: is_ok_iff determineBranchName_def res_simps)
qed

lemma base_of_parent:
  "determineBaseBranch t n None trunk = Inr b \<longleftrightarrow> uuidV7Pattern t \<and> uuidV7Pattern n \<and> trunk \<noteq> [] \<and> b = trunk"
  "determineBaseBranch t n (Some p) trunk = Inr b \<longleftrightarrow>
     uuidV7Pattern t \<and> uuidV7Pattern n \<and> trunk \<noteq> [] \<and> determineBranchName t p = Inr b"
  using branch_ok [of t p] by (auto simp: determineBaseBranch_def res_simps is_ok_iff)

lemma check_parents_ok: "check_parents ps = Inr u \<longleftrightarrow> (\<forall>p\<in>set ps. uuidV7Pattern p)"
  by (induction ps) (auto simp: res_simps)

lemma index_loop_ok:
  "index_loop seen ns = Inr u \<longleftrightarrow> (\<forall>n\<in>set ns. uuidV7Pattern (sn_treeId n) \<and> uuidV7Pattern (sn_nodeId n) \<and>
     (\<forall>p\<in>set (sn_parentIds n). uuidV7Pattern p)) \<and> distinct (map sn_nodeId ns) \<and>
     set (map sn_nodeId ns) \<inter> set seen = {}"
  by (induction seen ns rule: index_loop.induct) (auto simp: res_simps check_parents_ok)

lemma validateStackInput_ok:
  "validateStackInput nodes trunk = Inr u \<longleftrightarrow> nodes \<noteq> [] \<and> trunk \<noteq> [] \<and>
     uuidV7Pattern (sn_treeId (hd nodes)) \<and> (\<forall>n\<in>set nodes. sn_treeId n = sn_treeId (hd nodes))"
  by (auto simp: validateStackInput_def res_simps list_all_iff)

lemma few_parents:
  assumes "length (sn_parentIds n) \<le> 1"
  obtains (top) "sn_parentIds n = []" "stack_parent n = None"
  | (child) p where "sn_parentIds n = [p]" "stack_parent n = Some p"
  using assms by (cases "sn_parentIds n"; cases "tl (sn_parentIds n)") (auto simp: stack_parent_def)

lemma position_of_Inr:
  assumes "position_of nodes trunk n = Inr p"
  shows "length (sn_parentIds n) \<le> 1 \<and> sp_treeId p = sn_treeId n \<and> sp_nodeId p = sn_nodeId n \<and>
    determineBranchName (sn_treeId n) (sn_nodeId n) = Inr (sp_branch p) \<and>
    determineBaseBranch (sn_treeId n) (sn_nodeId n) (stack_parent n) trunk = Inr (sp_baseBranch p) \<and>
    depth_in nodes (sp_depth p) n"
proof -
  obtain d where r: "resolveDepth nodes n = Inr d" and p: "length (sn_parentIds n) \<le> 1" "sp_depth p = d"
    "sp_treeId p = sn_treeId n" "sp_nodeId p = sn_nodeId n"
    "determineBranchName (sn_treeId n) (sn_nodeId n) = Inr (sp_branch p)"
    "determineBaseBranch (sn_treeId n) (sn_nodeId n) (stack_parent n) trunk = Inr (sp_baseBranch p)"
    using assms by (auto simp: position_of_def res_simps not_less)
  show ?thesis using resolve_loop_sound [OF r [unfolded resolveDepth_def] p(1)] p by auto
qed

lemma depth_in_unique: "depth_in nodes j n \<Longrightarrow> depth_in nodes k n \<Longrightarrow> j = k"
proof (induction j arbitrary: k n)
  case 0
  then show ?case by (cases k) auto
next
  case (Suc j)
  then show ?case by (cases k) (auto split: list.splits option.splits)
qed

lemma depth_in_parent:
  assumes "depth_in nodes k n" and "stack_parent n = Some p"
  shows "\<exists>m j. k = Suc j \<and> js_map sn_nodeId nodes p = Some m \<and> depth_in nodes j m"
  using assms by (cases k) (auto simp: stack_parent_def split: list.splits option.splits)

text \<open>A depth for every node ranks the parents, so there is no cycle.\<close>

lemma depths_acyclic:
  assumes "distinct (map sn_nodeId nodes)" and "\<forall>n\<in>set nodes. \<exists>k. depth_in nodes k n"
  shows "\<not> ancestor_of (node_parent nodes) i i"
proof -
  define rank where "rank i = (case js_map sn_nodeId nodes i of None \<Rightarrow> 0
    | Some n \<Rightarrow> Suc (THE k. depth_in nodes k n))" for i
  have the: "(THE k. depth_in nodes k n) = k" if "depth_in nodes k n" for n k
    using that depth_in_unique by (blast intro: the_equality)
  have "rank p < rank i" if par: "node_parent nodes i = Some p" for i p
  proof -
    obtain n where n: "js_map sn_nodeId nodes i = Some n" "stack_parent n = Some p"
      using par by (auto simp: node_parent_def split: option.splits)
    then obtain k where "depth_in nodes k n" using assms(2) js_map_Some [OF n(1)] by blast
    from depth_in_parent [OF this n(2)]
    obtain m j where "k = Suc j" "js_map sn_nodeId nodes p = Some m" "depth_in nodes j m" by auto
    then show ?thesis
      using n(1) the [OF \<open>depth_in nodes k n\<close>] the [OF \<open>depth_in nodes j m\<close>] by (simp add: rank_def)
  qed
  then have "ranked_parents (node_parent nodes) rank" by unfold_locales
  then show ?thesis by (rule ranked_parents.no_self_ancestor)
qed

lemma positions_rooted:
  assumes ps: "mapE (position_of nodes trunk) nodes = Inr ps" and dist: "distinct (map sp_branch ps)"
    and tree: "\<forall>n\<in>set nodes. sn_treeId n = t"
  shows "depth_in nodes k n \<Longrightarrow> n \<in> set nodes \<Longrightarrow> position_of nodes trunk n = Inr p \<Longrightarrow>
     \<exists>j. roots_in ps trunk j p"
proof (induction k arbitrary: n p)
  case 0
  then have "stack_parent n = None" by (simp add: stack_parent_def)
  then have "roots_in ps trunk 0 p" using position_of_Inr [OF 0(3)] by (simp add: base_of_parent)
  then show ?case by blast
next
  case (Suc k)
  then obtain q where q: "sn_parentIds n = [q]" by (auto split: list.splits)
  then obtain m where m: "js_map sn_nodeId nodes q = Some m" "depth_in nodes k m"
    using Suc.prems(1) by (auto split: option.splits)
  have mn: "m \<in> set nodes" "sn_nodeId m = q" using js_map_Some [OF m(1)] by auto
  obtain pm where pm: "position_of nodes trunk m = Inr pm"
    using mapE_ok [OF ps mn(1)] by (auto simp: is_ok_iff)
  have "determineBranchName t q = Inr (sp_baseBranch p)"
    using position_of_Inr [OF Suc.prems(3)] q tree Suc.prems(2) by (simp add: stack_parent_def base_of_parent)
  then have base: "sp_baseBranch p = sp_branch pm" using position_of_Inr [OF pm] mn tree by simp
  have pmps: "pm \<in> set ps" using mapE_set [OF ps] mn pm by blast
  obtain j where j: "roots_in ps trunk j pm" using Suc.IH [OF m(2) mn(1) pm] by blast
  show ?case
  proof (cases "sp_baseBranch p = trunk")
    case True
    then have "roots_in ps trunk 0 p" by simp
    then show ?thesis by blast
  next
    case False
    moreover have "js_map sp_branch ps (sp_baseBranch p) = Some pm"
      using js_map_distinct [OF dist] pmps base by auto
    ultimately have "roots_in ps trunk (Suc j) p" using j by simp
    then show ?thesis by blast
  qed
qed
lemma positions_map:
  assumes "mapE (position_of nodes trunk) nodes = Inr ps"
  shows "map sp_nodeId ps = map sn_nodeId nodes" and "map sp_treeId ps = map sn_treeId nodes"
    and "map (\<lambda>p. Inr (sp_branch p)) ps = map (\<lambda>n. determineBranchName (sn_treeId n) (sn_nodeId n)) nodes"
  by (rule mapE_map [OF assms]; drule position_of_Inr; simp)+

lemma distinct_Inr: "distinct (map (\<lambda>p. Inr (f p)) xs) \<longleftrightarrow> distinct (map f xs)"
  by (simp add: distinct_map inj_on_def)

lemma build_facts:
  assumes "buildStackPath nodes trunk = Inr out"
  obtains ps where "mapE (position_of nodes trunk) nodes = Inr ps" "out = sort_key byDepthThenNode ps"
    "validateStackInput nodes trunk = Inr ()" "index_loop [] nodes = Inr ()" "validateStackTopology ps trunk = Inr ()"
  using assms by (auto simp: buildStackPath_def indexNodes_def res_simps)

lemma build_closed:
  assumes ps: "mapE (position_of nodes trunk) nodes = Inr ps" and n: "n \<in> set nodes"
  shows "\<exists>k. depth_in nodes k n" and "set (sn_parentIds n) \<subseteq> sn_nodeId ` set nodes" and "length (sn_parentIds n) \<le> 1"
proof -
  obtain p where "position_of nodes trunk n = Inr p" using mapE_ok [OF ps n] by (auto simp: is_ok_iff)
  note f = position_of_Inr [OF this]
  then show "\<exists>k. depth_in nodes k n" "length (sn_parentIds n) \<le> 1" by auto
  from f show "set (sn_parentIds n) \<subseteq> sn_nodeId ` set nodes"
    by (cases "sp_depth p") (auto split: list.splits option.splits dest!: js_map_Some)
qed

lemma build_acyclic:
  assumes "is_ok (buildStackPath nodes trunk)"
  shows "\<not> ancestor_of (node_parent nodes) i i"
proof -
  obtain out where "buildStackPath nodes trunk = Inr out" using assms by (auto simp: is_ok_iff)
  then obtain ps where ps: "mapE (position_of nodes trunk) nodes = Inr ps" and i: "index_loop [] nodes = Inr ()"
    by (rule build_facts)
  have "distinct (map sn_nodeId nodes)" using i by (simp add: index_loop_ok)
  then show ?thesis using build_closed(1) [OF ps] by (intro depths_acyclic) auto
qed

text \<open>C28: Which trees become a stack. buildStackPath accepts a set of nodes exactly when the set and the
  trunk are not empty, all nodes belong to one tree, every identity is a UUIDv7, no identity occurs twice,
  every node has at most one parent and that parent is in the set, no node is its own ancestor, and no two
  nodes get the same branch name. Every other input is an error.\<close>

theorem stack_path_accepts_iff: "is_ok (buildStackPath nodes trunk) \<longleftrightarrow> stack_ok nodes trunk"
proof
  assume "is_ok (buildStackPath nodes trunk)"
  then obtain out where "buildStackPath nodes trunk = Inr out" by (auto simp: is_ok_iff)
  then obtain ps where ps: "mapE (position_of nodes trunk) nodes = Inr ps"
    and i: "validateStackInput nodes trunk = Inr ()" "index_loop [] nodes = Inr ()"
    and t: "validateStackTopology ps trunk = Inr ()" by (rule build_facts)
  have dist: "distinct (map sn_nodeId nodes)" using i by (simp add: index_loop_ok)
  have "distinct (map (\<lambda>n. determineBranchName (sn_treeId n) (sn_nodeId n)) nodes)"
    using t unfolding positions_map(3) [OF ps, symmetric] distinct_Inr topology_ok by simp
  moreover have "\<not> ancestor_of (node_parent nodes) j j" for j
    using build_acyclic \<open>is_ok (buildStackPath nodes trunk)\<close> by blast
  ultimately show "stack_ok nodes trunk"
    using i dist build_closed(2,3) [OF ps] unfolding stack_ok_def validateStackInput_ok index_loop_ok
    by (intro conjI ballI allI) blast+
next
  assume ok: "stack_ok nodes trunk"
  have good: "\<forall>n\<in>set nodes. length (sn_parentIds n) \<le> 1 \<and> set (sn_parentIds n) \<subseteq> sn_nodeId ` set nodes"
    and dist: "distinct (map sn_nodeId nodes)" and acyc: "\<forall>i. \<not> ancestor_of (node_parent nodes) i i"
    and trunk: "trunk \<noteq> []" "nodes \<noteq> []"
    and ids: "\<forall>n\<in>set nodes. uuidV7Pattern (sn_treeId n) \<and> uuidV7Pattern (sn_nodeId n) \<and> sn_treeId n = sn_treeId (hd nodes)"
    using ok unfolding stack_ok_def by blast+
  have ids': "\<forall>n\<in>set nodes. uuidV7Pattern (sn_treeId n) \<and> uuidV7Pattern (sn_nodeId n)" using ids by blast
  have parents: "\<forall>n\<in>set nodes. \<forall>p\<in>set (sn_parentIds n). uuidV7Pattern p" using good ids by blast
  have input: "validateStackInput nodes trunk = Inr ()" "index_loop [] nodes = Inr ()"
    subgoal using trunk ids hd_in_set [OF trunk(2)] unfolding validateStackInput_ok by blast
    subgoal using ids parents dist unfolding index_loop_ok by (intro conjI) (blast, simp, simp)
    done
  have "is_ok (position_of nodes trunk n)" if n: "n \<in> set nodes" for n
  proof -
    have "is_ok (resolveDepth nodes n)"
      unfolding resolveDepth_def using resolve_loop_ok [OF good dist acyc n, of "[sn_nodeId n]" 0] by simp
    moreover have "is_ok (determineBranchName (sn_treeId n) (sn_nodeId n))" unfolding branch_ok using ids n by blast
    moreover have "is_ok (determineBaseBranch (sn_treeId n) (sn_nodeId n) (stack_parent n) trunk)"
    proof -
      have "length (sn_parentIds n) \<le> 1" using good n by auto
      then show ?thesis
      proof (cases rule: few_parents)
        case top
        then show ?thesis using ids' n trunk by (simp add: is_ok_iff base_of_parent)
      next
        case (child p)
        then have "is_ok (determineBranchName (sn_treeId n) p)" using parents ids' n by (simp add: branch_ok)
        then show ?thesis using child ids' n trunk by (simp add: is_ok_iff base_of_parent)
      qed
    qed
    ultimately show ?thesis using good n by (auto simp: is_ok_iff position_of_def not_less)
  qed
  then obtain ps where ps: "mapE (position_of nodes trunk) nodes = Inr ps"
    using mapE_Inr_iff [of "position_of nodes trunk" nodes] by (auto simp: is_ok_iff)
  have branches: "distinct (map sp_branch ps)"
  proof -
    have "distinct (map (\<lambda>p. Inr (sp_branch p) :: stack_error + string) ps)"
      unfolding positions_map(3) [OF ps] using ok unfolding stack_ok_def by blast
    then show ?thesis by (simp only: distinct_Inr)
  qed
  have "rooted ps trunk"
    unfolding rooted_def
  proof
    fix p assume "p \<in> set ps"
    then obtain n where n: "n \<in> set nodes" "position_of nodes trunk n = Inr p" using mapE_set [OF ps] by blast
    have same: "\<forall>n\<in>set nodes. sn_treeId n = sn_treeId (hd nodes)" using ids by auto
    have "depth_in nodes (sp_depth p) n" using position_of_Inr [OF n(2)] by simp
    then show "\<exists>j. roots_in ps trunk j p" using positions_rooted [OF ps branches same] n by blast
  qed
  moreover have "ps \<noteq> []" using ps trunk(2) by (cases nodes) (auto simp: res_simps)
  ultimately have "validateStackTopology ps trunk = Inr ()" using branches trunk by (simp add: topology_ok)
  then show "is_ok (buildStackPath nodes trunk)"
    using ps input by (simp add: buildStackPath_def indexNodes_def)
qed

text \<open>A position is a root on the trunk, or stands right above the position of its parent.\<close>

definition stands_on :: "stack_node list \<Rightarrow> string \<Rightarrow> stack_position list \<Rightarrow> nat \<Rightarrow> bool" where
  "stands_on nodes trunk out i \<longleftrightarrow>
     (\<exists>n\<in>set nodes. sn_nodeId n = sp_nodeId (out ! i) \<and>
        (sn_parentIds n = [] \<and> sp_depth (out ! i) = 0 \<and> sp_baseBranch (out ! i) = trunk \<or>
         (\<exists>j<i. sn_parentIds n = [sp_nodeId (out ! j)] \<and> sp_baseBranch (out ! i) = sp_branch (out ! j) \<and>
            sp_depth (out ! i) = Suc (sp_depth (out ! j)))))"

lemma built_branches_distinct:
  assumes "buildStackPath nodes trunk = Inr out"
  shows "distinct (map sp_branch out)"
proof -
  obtain ps where out: "out = sort_key byDepthThenNode ps" and top: "validateStackTopology ps trunk = Inr ()"
    using assms by (rule build_facts)
  have "mset (map sp_branch out) = mset (map sp_branch ps)" unfolding out mset_map mset_sort ..
  then show ?thesis using top mset_eq_imp_distinct_iff unfolding topology_ok by blast
qed

text \<open>C29: The stack is the tree. An accepted stack has one position per node, with pairwise different
  branches, in the order in which the pull requests may land: sorted by depth and then by node, every
  position is a root at depth 0 whose base is the trunk, or its base is the branch of the position of its one
  parent, which stands earlier in the list, one level up.\<close>

theorem stack_path_parent_first:
  assumes "buildStackPath nodes trunk = Inr out"
  shows "mset (map sp_nodeId out) = mset (map sn_nodeId nodes) \<and> distinct (map sp_branch out) \<and>
    sorted (map byDepthThenNode out) \<and> (\<forall>i<length out. stands_on nodes trunk out i)"
proof -
  obtain ps where ps: "mapE (position_of nodes trunk) nodes = Inr ps" and out: "out = sort_key byDepthThenNode ps"
    and input: "validateStackInput nodes trunk = Inr ()" and top: "validateStackTopology ps trunk = Inr ()"
    using assms by (rule build_facts)
  have "stands_on nodes trunk out i" if i: "i < length out" for i
  proof -
    let ?p = "out ! i"
    have "?p \<in> set ps" using i nth_mem [OF i] by (simp add: out)
    then obtain n where n: "n \<in> set nodes" "position_of nodes trunk n = Inr ?p" using mapE_set [OF ps] by blast
    note pn = position_of_Inr [OF n(2)]
    from pn have "length (sn_parentIds n) \<le> 1" by simp
    then show ?thesis
    proof (cases rule: few_parents)
      case top
      have "sp_depth ?p = 0" using pn top by (cases "sp_depth ?p") auto
      then show ?thesis using pn n(1) top by (auto simp: stands_on_def base_of_parent)
    next
      case (child q)
      have "depth_in nodes (sp_depth ?p) n" using pn by simp
      from depth_in_parent [OF this child(2)]
      obtain m k where m: "sp_depth ?p = Suc k" "js_map sn_nodeId nodes q = Some m" "depth_in nodes k m" by auto
      have mn: "m \<in> set nodes" "sn_nodeId m = q" using js_map_Some [OF m(2)] by auto
      obtain pm where pm: "position_of nodes trunk m = Inr pm" using mapE_ok [OF ps mn(1)] by (auto simp: is_ok_iff)
      note pmf = position_of_Inr [OF pm]
      have "sn_treeId m = sn_treeId n" using input n(1) mn(1) unfolding validateStackInput_ok by metis
      then have base: "sp_baseBranch ?p = sp_branch pm" using pn pmf child mn by (simp add: base_of_parent)
      have depth: "sp_depth pm = k" using pmf m(3) depth_in_unique by blast
      have "pm \<in> set out" using mapE_set [OF ps] mn pm by (auto simp: out)
      moreover have "byDepthThenNode pm < byDepthThenNode ?p" using depth m(1) by (simp add: byDepthThenNode_def)
      ultimately obtain j where "j < i" "out ! j = pm"
        using sorted_key_index [of pm byDepthThenNode ps i] i by (auto simp: out)
      then show ?thesis
        using n(1) pn child mn pmf base depth m(1) unfolding stands_on_def by (metis (no_types, lifting))
    qed
  qed
  moreover have "mset (map sp_nodeId out) = mset (map sn_nodeId nodes)"
    unfolding out mset_map mset_sort using positions_map(1) [OF ps] by (metis mset_map)
  moreover have "distinct (map sp_branch out)" using built_branches_distinct [OF assms] .
  ultimately show ?thesis by (simp add: out)
qed

section \<open>Landing\<close>

text \<open>
  The stack once a node has landed: its position is gone, and the positions that stood on its
  branch have the base of their retarget plan, the base of the landed position.
\<close>

definition after_landing :: "stack_position \<Rightarrow> stack_position list \<Rightarrow> stack_position list" where
  "after_landing l ps = map (\<lambda>p. if sp_baseBranch p = sp_branch l then p\<lparr>sp_baseBranch := sp_baseBranch l\<rparr> else p)
     (filter (\<lambda>p. sp_branch p \<noteq> sp_branch l) ps)"

definition rebased :: "stack_position \<Rightarrow> stack_position \<Rightarrow> stack_position" where
  "rebased l p = (if sp_baseBranch p = sp_branch l then p\<lparr>sp_baseBranch := sp_baseBranch l\<rparr> else p)"

lemma after_landing_rebased: "after_landing l ps = map (rebased l) (filter (\<lambda>p. sp_branch p \<noteq> sp_branch l) ps)"
  by (simp add: after_landing_def rebased_def)

lemma rebased_branch [simp]: "sp_branch (rebased l p) = sp_branch p"
  by (simp add: rebased_def)

lemma after_landing_branches:
  "map sp_branch (after_landing l ps) = filter (\<lambda>b. b \<noteq> sp_branch l) (map sp_branch ps)"
  by (simp add: after_landing_rebased comp_def filter_map)

lemma landing_roots:
  assumes dist: "distinct (map sp_branch ps)" and l: "l \<in> set ps" and trunk: "trunk \<notin> sp_branch ` set ps"
  shows "roots_in ps trunk n p \<Longrightarrow> p \<in> set ps \<Longrightarrow> sp_branch p \<noteq> sp_branch l \<Longrightarrow>
     \<exists>m. roots_in (after_landing l ps) trunk m (rebased l p)"
proof (induction n arbitrary: p rule: less_induct)
  case (less n)
  let ?out = "after_landing l ps"
  have dist': "distinct (map sp_branch ?out)" unfolding after_landing_branches using dist by (rule distinct_filter)
  have step: "\<exists>m. roots_in ?out trunk m r"
    if base: "sp_baseBranch r \<noteq> trunk" and q: "js_map sp_branch ps (sp_baseBranch r) = Some q"
      and other: "sp_branch q \<noteq> sp_branch l" and k: "roots_in ps trunk k q" "k < n" for r q k
  proof -
    have qm: "q \<in> set ps" "sp_branch q = sp_baseBranch r" using js_map_Some [OF q] by auto
    obtain m where "roots_in ?out trunk m (rebased l q)" using less.IH [OF k(2,1) qm(1) other] by blast
    moreover have "js_map sp_branch ?out (sp_baseBranch r) = Some (rebased l q)"
      using js_map_distinct [OF dist'] qm other by (auto simp: after_landing_rebased)
    ultimately have "roots_in ?out trunk (Suc m) r" using base by simp
    then show ?thesis by blast
  qed
  have trunk_l: "sp_branch l \<noteq> trunk" using l trunk by blast
  show ?case
  proof (cases "sp_baseBranch p = trunk")
    case True
    then have "roots_in ?out trunk 0 (rebased l p)" using trunk_l by (simp add: rebased_def)
    then show ?thesis by blast
  next
    case False
    then obtain k q where n: "n = Suc k" and q: "js_map sp_branch ps (sp_baseBranch p) = Some q"
      and k: "roots_in ps trunk k q" using less.prems(1) by (cases n) (auto split: option.splits)
    show ?thesis
    proof (cases "sp_baseBranch p = sp_branch l")
      case False
      then have "rebased l p = p" "sp_branch q \<noteq> sp_branch l" using js_map_Some [OF q] by (auto simp: rebased_def)
      then show ?thesis using step [OF \<open>sp_baseBranch p \<noteq> trunk\<close> q _ k] n by simp
    next
      case True
      have "js_map sp_branch ps (sp_branch l) = Some l" using js_map_distinct [OF dist] l by blast
      then have ql: "q = l" using q True by simp
      have base: "sp_baseBranch (rebased l p) = sp_baseBranch l" using True by (simp add: rebased_def)
      show ?thesis
      proof (cases "sp_baseBranch l = trunk")
        case True
        then have "roots_in ?out trunk 0 (rebased l p)" using base by simp
        then show ?thesis by blast
      next
        case False
        then obtain j q' where k': "k = Suc j" and q': "js_map sp_branch ps (sp_baseBranch l) = Some q'"
          and j: "roots_in ps trunk j q'" using k ql by (cases k) (auto split: option.splits)
        have "sp_branch q' \<noteq> sp_branch l"
        proof
          assume "sp_branch q' = sp_branch l"
          then have "q' = l" using dist l js_map_Some [OF q'] by (metis distinct_map inj_onD)
          then show False using roots_in_unique [OF j] k k' ql by fastforce
        qed
        then show ?thesis using step [of "rebased l p" q' j] base False q' j n k' by simp
      qed
    qed
  qed
qed

text \<open>Landing keeps the stack a stack. Take an accepted stack whose trunk is not one of its branches,
  and land any of its nodes while others remain: for every child of the landed node retargetAfterLanding
  plans exactly the base of the landed position (its parent's branch, or the trunk for a root), and with the
  landed position gone and its children so rebased, the topology check accepts what is left.\<close>

theorem landing_keeps_stack:
  assumes "buildStackPath nodes trunk = Inr out" and "l \<in> set out" and "1 < length out"
    and "trunk \<notin> sp_branch ` set out"
  shows "validateStackTopology (after_landing l out) trunk = Inr () \<and>
    (\<forall>n\<in>set nodes. sp_nodeId l \<in> set (sn_parentIds n) \<longrightarrow>
       retargetAfterLanding (sp_nodeId l) (sn_nodeId n) nodes trunk =
         Inr \<lparr>rt_treeId = sp_treeId l, rt_childNodeId = sn_nodeId n,
              rt_newBaseBranch = sp_baseBranch l, rt_previousBaseBranch = sp_branch l\<rparr>)"
proof
  obtain ps where ps: "mapE (position_of nodes trunk) nodes = Inr ps" and out: "out = sort_key byDepthThenNode ps"
    and input: "validateStackInput nodes trunk = Inr ()" and ix: "index_loop [] nodes = Inr ()"
    and top: "validateStackTopology ps trunk = Inr ()"
    using assms(1) by (rule build_facts)
  have dps: "distinct (map sp_branch ps)" and rooted: "rooted ps trunk" and trunk: "trunk \<noteq> []"
    using top by (auto simp: topology_ok)
  have dout: "distinct (map sp_branch out)" using built_branches_distinct [OF assms(1)] .
  have same: "js_map sp_branch out = js_map sp_branch ps"
  proof (rule ext)
    fix b
    have "js_map sp_branch out b = Some p \<longleftrightarrow> js_map sp_branch ps b = Some p" for p
      unfolding js_map_distinct [OF dout] js_map_distinct [OF dps] by (simp add: out)
    then show "js_map sp_branch out b = js_map sp_branch ps b" by (metis option.exhaust)
  qed
  have roots: "roots_in out trunk k p \<longleftrightarrow> roots_in ps trunk k p" for k p
    by (induction k arbitrary: p) (auto simp: same split: option.splits)
  have rest: "filter (\<lambda>p. sp_branch p \<noteq> sp_branch l) out \<noteq> []"
  proof
    assume "filter (\<lambda>p. sp_branch p \<noteq> sp_branch l) out = []"
    then have "\<forall>p\<in>set out. sp_branch p = sp_branch l" by (simp add: filter_empty_conv)
    moreover have "out ! 0 \<in> set out" "out ! 1 \<in> set out" using assms(3) by (auto intro: nth_mem)
    ultimately have "sp_branch (out ! 0) = sp_branch (out ! 1)" by simp
    then show False
      using nth_eq_iff_index_eq [of "map sp_branch out" 0 1] dout assms(3) by (cases "out = []") (auto simp: nth_map)
  qed
  have "\<exists>m. roots_in (after_landing l out) trunk m (rebased l p)"
    if p: "p \<in> set out" "sp_branch p \<noteq> sp_branch l" for p
  proof -
    obtain k where "roots_in out trunk k p" using rooted p(1) roots by (auto simp: rooted_def out)
    then show ?thesis using landing_roots [OF dout assms(2,4)] p by blast
  qed
  then have "rooted (after_landing l out) trunk" by (auto simp: rooted_def after_landing_rebased)
  moreover have "distinct (map sp_branch (after_landing l out))"
    unfolding after_landing_branches using dout by (rule distinct_filter)
  moreover have "after_landing l out \<noteq> []" using rest by (simp add: after_landing_rebased)
  ultimately show "validateStackTopology (after_landing l out) trunk = Inr ()" using trunk by (simp add: topology_ok)
  have "l \<in> set ps" using assms(2) by (simp add: out)
  then obtain m where m: "m \<in> set nodes" "position_of nodes trunk m = Inr l" using mapE_set [OF ps] by blast
  note pm = position_of_Inr [OF m(2)]
  have dist: "distinct (map sn_nodeId nodes)" and uuids: "\<forall>n\<in>set nodes. uuidV7Pattern (sn_nodeId n)"
    using ix unfolding index_loop_ok by simp_all
  show "\<forall>n\<in>set nodes. sp_nodeId l \<in> set (sn_parentIds n) \<longrightarrow>
       retargetAfterLanding (sp_nodeId l) (sn_nodeId n) nodes trunk =
         Inr \<lparr>rt_treeId = sp_treeId l, rt_childNodeId = sn_nodeId n,
              rt_newBaseBranch = sp_baseBranch l, rt_previousBaseBranch = sp_branch l\<rparr>"
  proof (intro ballI impI)
    fix n assume n: "n \<in> set nodes" "sp_nodeId l \<in> set (sn_parentIds n)"
    have "js_map sn_nodeId nodes (sp_nodeId l) = Some m" "js_map sn_nodeId nodes (sn_nodeId n) = Some n"
      using js_map_distinct [OF dist] m(1) n(1) pm by auto
    moreover have "domain_check (taskNodeId (sp_nodeId l)) = Inr ()" "domain_check (taskNodeId (sn_nodeId n)) = Inr ()"
      using uuids m(1) n(1) pm by auto
    ultimately show "retargetAfterLanding (sp_nodeId l) (sn_nodeId n) nodes trunk =
         Inr \<lparr>rt_treeId = sp_treeId l, rt_childNodeId = sn_nodeId n,
              rt_newBaseBranch = sp_baseBranch l, rt_previousBaseBranch = sp_branch l\<rparr>"
      using input ix n(2) pm by (simp add: retargetAfterLanding_def indexNodes_def)
  qed
qed

section \<open>A sample stack\<close>

definition stackId :: "char \<Rightarrow> string" where
  "stackId c = ''00000000-0000-7000-8000-00000000000'' @ [c]"

text \<open>A root \<open>1\<close> with the child \<open>2\<close>, which has the child \<open>3\<close>; the list has the child first.\<close>

definition sampleNodes :: "stack_node list" where
  "sampleNodes = map (\<lambda>(i, ps). \<lparr>sn_treeId = stackId (CHR ''0''), sn_nodeId = stackId i,
     sn_parentIds = map stackId ps\<rparr>)
     [(CHR ''3'', [CHR ''2'']), (CHR ''1'', []), (CHR ''2'', [CHR ''1''])]"

definition sampleStack :: "stack_position list" where
  "sampleStack = projr (buildStackPath sampleNodes STACK_TRUNK_BRANCH)"

lemma sampleStack_built: "buildStackPath sampleNodes STACK_TRUNK_BRANCH = Inr sampleStack"
  unfolding sampleStack_def by (rule Inr_projr) code_simp

lemma sampleStack_length: "length sampleStack = 3"
  by code_simp

theorem stack_path_parent_first_witness:
  "sorted (map byDepthThenNode sampleStack) \<and> stands_on sampleNodes STACK_TRUNK_BRANCH sampleStack 2"
  using stack_path_parent_first [OF sampleStack_built] sampleStack_length by simp

theorem landing_keeps_stack_witness:
  "validateStackTopology (after_landing (sampleStack ! 1) sampleStack) STACK_TRUNK_BRANCH = Inr () \<and>
   retargetAfterLanding (stackId (CHR ''2'')) (stackId (CHR ''3'')) sampleNodes STACK_TRUNK_BRANCH =
     Inr \<lparr>rt_treeId = stackId (CHR ''0''), rt_childNodeId = stackId (CHR ''3''),
          rt_newBaseBranch = ''minions/00000000/000000000001'', rt_previousBaseBranch = ''minions/00000000/000000000002''\<rparr>"
proof -
  let ?l = "sampleStack ! 1"
  have l: "?l \<in> set sampleStack" using sampleStack_length by simp
  have len: "1 < length sampleStack" using sampleStack_length by simp
  have trunk: "STACK_TRUNK_BRANCH \<notin> sp_branch ` set sampleStack" by code_simp
  have n: "hd sampleNodes \<in> set sampleNodes" by (simp add: sampleNodes_def)
  have p: "sp_nodeId ?l \<in> set (sn_parentIds (hd sampleNodes))" by code_simp
  have "sp_nodeId ?l = stackId (CHR ''2'')" "sn_nodeId (hd sampleNodes) = stackId (CHR ''3'')"
    "sp_treeId ?l = stackId (CHR ''0'')" "sp_baseBranch ?l = ''minions/00000000/000000000001''"
    "sp_branch ?l = ''minions/00000000/000000000002''" by code_simp+
  then show ?thesis using landing_keeps_stack [OF sampleStack_built l len trunk] n p by fastforce
qed

end
