(* ===== verification/Github_Push.thy ===== *)
theory Github_Push
  imports Value_Objects
begin

text \<open>
  \<^verbatim>\<open>packages/adapters/src/github-push.ts\<close>: pushing one exported commit to one remote branch under a
  lease. The working copy and the GitHub client are parameters: a \<open>push_env\<close> holds what they answer.
  The remote branch is the value \<open>getRef\<close> answers; the one call that changes it is returned beside
  the result. The time of a receipt is the clock reading, not its ISO text.
\<close>

section \<open>Patterns\<close>

definition alnum :: "char \<Rightarrow> bool" where
  "alnum c \<longleftrightarrow> (let n = of_char c :: nat in
     48 \<le> n \<and> n \<le> 57 \<or> 65 \<le> n \<and> n \<le> 90 \<or> 97 \<le> n \<and> n \<le> 122)"

definition ends_with :: "string \<Rightarrow> string \<Rightarrow> bool" where
  "ends_with suf s \<longleftrightarrow> starts_with (rev suf) (rev s)"

definition name_part :: "string \<Rightarrow> bool" where
  "name_part s \<longleftrightarrow> s \<noteq> [] \<and> list_all (\<lambda>c. alnum c \<or> c \<in> set ''._-'') s"

text \<open>\<open>^[A-Za-z0-9._-]+/[A-Za-z0-9._-]+$\<close>: the slash is not in the classes, so it is the only one.\<close>

definition repositoryFullNamePattern :: "string \<Rightarrow> bool" where
  "repositoryFullNamePattern s \<longleftrightarrow>
     (let owner = takeWhile (\<lambda>c. c \<noteq> CHR ''/'') s; rest = dropWhile (\<lambda>c. c \<noteq> CHR ''/'') s in
      name_part owner \<and> rest \<noteq> [] \<and> name_part (tl rest))"

definition bookmarkPattern :: "string \<Rightarrow> bool" where
  "bookmarkPattern s \<longleftrightarrow> \<not> js_includes s ''..'' \<and> \<not> ends_with ''.'' s \<and> \<not> ends_with ''.lock'' s \<and>
     \<not> ends_with ''/'' s \<and> s \<noteq> [] \<and> alnum (hd s) \<and>
     list_all (\<lambda>c. alnum c \<or> c \<in> set ''._/-'') (tl s)"

section \<open>The push\<close>

datatype push_error =
    Conflict_unresolved | Remote_drift | Push_failed | Lease_expired | Refspec_invalid | Push_auth_failed
  | Push_invalid_value

text \<open>
  How a port can throw: a \<open>PushError\<close> of its own, a \<open>GitHubClientError\<close> (is its code
  \<open>auth_failed\<close>, and its HTTP status), or anything else.
\<close>

datatype port_failure = Throws_push push_error | Throws_client bool int | Throws_other

record push_input =
  pi_repositoryFullName :: string
  pi_bookmark :: string
  pi_jjChangeId :: string
  pi_expectedRemoteHeadSha :: "string option"

datatype push_action = Pushed | Noop

record push_receipt =
  pc_repositoryFullName :: string
  pc_bookmark :: string
  pc_commitSha :: string
  pc_remoteHeadSha :: string
  pc_expectedRemoteHeadSha :: "string option"
  pc_pushedAt :: int
  pc_action :: push_action

record push_env =
  pe_export :: "string \<Rightarrow> port_failure + string"
  pe_client :: "port_failure option"
  pe_getRef :: "port_failure + string option"
  pe_updateRef :: "string \<Rightarrow> port_failure option"
  pe_now :: int

fun wrapAuth :: "port_failure \<Rightarrow> push_error" where
  "wrapAuth (Throws_push e) = e"
| "wrapAuth _ = Push_auth_failed"

fun wrapClient :: "port_failure \<Rightarrow> push_error \<Rightarrow> push_error" where
  "wrapClient (Throws_push e) code = e"
| "wrapClient (Throws_client authFailed status) code =
     (if code \<noteq> Push_auth_failed \<and> authFailed then Push_auth_failed else code)"
| "wrapClient Throws_other code = code"

fun isLeaseRejection :: "port_failure \<Rightarrow> bool" where
  "isLeaseRejection (Throws_client _ status) = (status = 422)"
| "isLeaseRejection _ = False"

definition validatePushInput :: "push_input \<Rightarrow> push_error + unit" where
  "validatePushInput i =
     bindE (guardE (repositoryFullNamePattern (pi_repositoryFullName i)) Refspec_invalid) (\<lambda>_.
     bindE (guardE (bookmarkPattern (pi_bookmark i)) Refspec_invalid) (\<lambda>_.
     bindE (guardE (is_ok (contentHash (pi_jjChangeId i))) Push_invalid_value) (\<lambda>_.
     case pi_expectedRemoteHeadSha i of
       None \<Rightarrow> Inr ()
     | Some sha \<Rightarrow> guardE (is_ok (gitSha sha)) Push_invalid_value)))"

definition exportConflictFreeCommit :: "push_env \<Rightarrow> string \<Rightarrow> push_error + string" where
  "exportConflictFreeCommit e changeId = (case pe_export e changeId of
      Inl (Throws_push err) \<Rightarrow> Inl err
    | Inl _ \<Rightarrow> Inl Push_failed
    | Inr sha \<Rightarrow> Inr sha)"

definition acquireClient :: "push_env \<Rightarrow> push_error + unit" where
  "acquireClient e = (case pe_client e of Some f \<Rightarrow> Inl (wrapAuth f) | None \<Rightarrow> Inr ())"

text \<open>A malformed sha makes \<open>gitSha\<close> throw inside the \<open>try\<close>.\<close>

definition readRemoteHead :: "push_env \<Rightarrow> push_error + string option" where
  "readRemoteHead e = (case pe_getRef e of
      Inl f \<Rightarrow> Inl (wrapClient f Push_failed)
    | Inr None \<Rightarrow> Inr None
    | Inr (Some sha) \<Rightarrow>
        (case gitSha sha of Inl _ \<Rightarrow> Inl (wrapClient Throws_other Push_failed) | Inr s \<Rightarrow> Inr (Some s)))"

definition assertLeaseSatisfied :: "push_input \<Rightarrow> string option \<Rightarrow> push_error + unit" where
  "assertLeaseSatisfied i actual =
     (let leaseMatches = (case pi_expectedRemoteHeadSha i of
        None \<Rightarrow> actual = None
      | Some expected \<Rightarrow> actual = Some expected)
      in guardE leaseMatches Remote_drift)"

definition updateRemoteHead :: "push_env \<Rightarrow> string \<Rightarrow> push_error + unit" where
  "updateRemoteHead e sha = (case pe_updateRef e sha of
      None \<Rightarrow> Inr ()
    | Some f \<Rightarrow> Inl (wrapClient f (if isLeaseRejection f then Lease_expired else Push_failed)))"

definition makeReceipt :: "push_input \<Rightarrow> string \<Rightarrow> string \<Rightarrow> push_action \<Rightarrow> int \<Rightarrow> push_receipt" where
  "makeReceipt i commit remote action now =
     \<lparr>pc_repositoryFullName = pi_repositoryFullName i, pc_bookmark = pi_bookmark i,
      pc_commitSha = commit, pc_remoteHeadSha = remote,
      pc_expectedRemoteHeadSha = pi_expectedRemoteHeadSha i, pc_pushedAt = now, pc_action = action\<rparr>"

text \<open>The result, and the commit the remote branch was asked to move to, if it was.\<close>

definition push :: "push_env \<Rightarrow> push_input \<Rightarrow> (push_error + push_receipt) \<times> string option" where
  "push e i =
     (case bindE (validatePushInput i) (\<lambda>_.
           bindE (exportConflictFreeCommit e (pi_jjChangeId i)) (\<lambda>commit.
           bindE (acquireClient e) (\<lambda>_.
           bindE (readRemoteHead e) (\<lambda>actual.
           bindE (assertLeaseSatisfied i actual) (\<lambda>_. Inr (commit, actual)))))) of
        Inl err \<Rightarrow> (Inl err, None)
      | Inr (commit, actual) \<Rightarrow>
          if actual = Some commit then (Inr (makeReceipt i commit commit Noop (pe_now e)), None)
          else (case updateRemoteHead e commit of
             Inl err \<Rightarrow> (Inl err, Some commit)
           | Inr _ \<Rightarrow> (Inr (makeReceipt i commit commit Pushed (pe_now e)), Some commit)))"

section \<open>What a push does to the branch\<close>

lemma lease_iff: "assertLeaseSatisfied i actual = Inr () \<longleftrightarrow> actual = pi_expectedRemoteHeadSha i"
  by (auto simp: assertLeaseSatisfied_def res_simps split: option.splits)

lemma readRemoteHead_Inr: "readRemoteHead e = Inr actual \<Longrightarrow> pe_getRef e = Inr actual"
  by (auto simp: readRemoteHead_def gitSha_def split: sum.splits option.splits if_splits)

lemma push_cases:
  obtains (stopped) err where "push e i = (Inl err, None)"
  | (same) commit where "push e i = (Inr (makeReceipt i commit commit Noop (pe_now e)), None)"
      "pe_export e (pi_jjChangeId i) = Inr commit"
      "pe_getRef e = Inr (Some commit)" "pi_expectedRemoteHeadSha i = Some commit"
  | (tried) commit r where "push e i = (r, Some commit)"
      "pe_export e (pi_jjChangeId i) = Inr commit"
      "pe_getRef e = Inr (pi_expectedRemoteHeadSha i)" "pi_expectedRemoteHeadSha i \<noteq> Some commit"
      "r = (case updateRemoteHead e commit of Inl err \<Rightarrow> Inl err
            | Inr _ \<Rightarrow> Inr (makeReceipt i commit commit Pushed (pe_now e)))"
proof -
  let ?pre = "bindE (validatePushInput i) (\<lambda>_.
           bindE (exportConflictFreeCommit e (pi_jjChangeId i)) (\<lambda>commit.
           bindE (acquireClient e) (\<lambda>_.
           bindE (readRemoteHead e) (\<lambda>actual.
           bindE (assertLeaseSatisfied i actual) (\<lambda>_. Inr (commit, actual))))))"
  show ?thesis
  proof (cases ?pre)
    case (Inl err)
    then show ?thesis using stopped by (simp add: push_def)
  next
    case (Inr p)
    obtain commit actual where p: "p = (commit, actual)" by (cases p)
    have x: "pe_export e (pi_jjChangeId i) = Inr commit"
      and g: "pe_getRef e = Inr actual" and l: "actual = pi_expectedRemoteHeadSha i"
      using Inr unfolding p res_simps
      by (auto simp: exportConflictFreeCommit_def lease_iff dest: readRemoteHead_Inr
               split: sum.splits port_failure.splits)
    show ?thesis
    proof (cases "actual = Some commit")
      case True
      then show ?thesis using same [of commit] Inr x g l p by (simp add: push_def)
    next
      case False
      then show ?thesis using tried [of _ commit] Inr x g l p
        by (simp add: push_def split: sum.splits)
    qed
  qed
qed

text \<open>The branch after the push, when the client moves it as it says.\<close>

definition head_after :: "push_env \<Rightarrow> push_input \<Rightarrow> string option" where
  "head_after e i = (case snd (push e i) of
      Some commit \<Rightarrow> if pe_updateRef e commit = None then Some commit else projr (pe_getRef e)
    | None \<Rightarrow> projr (pe_getRef e))"

text \<open>C36: A push is safe under its lease. Whatever the ports answer, the branch is only asked to move
  when the remote head read just before is the head the caller expected, and only to the commit the
  working copy exported; a push that returns a receipt leaves the branch at the commit the receipt
  names, says noop exactly when no move was needed, and a push that fails before the update leaves
  the branch where it was.\<close>

theorem push_respects_lease:
  "(\<forall>commit. snd (push e i) = Some commit \<longrightarrow>
      pe_getRef e = Inr (pi_expectedRemoteHeadSha i) \<and> pe_export e (pi_jjChangeId i) = Inr commit \<and>
      pi_expectedRemoteHeadSha i \<noteq> Some commit) \<and>
   (\<forall>r. fst (push e i) = Inr r \<longrightarrow>
      head_after e i = Some (pc_commitSha r) \<and> pc_remoteHeadSha r = pc_commitSha r \<and>
      pe_export e (pi_jjChangeId i) = Inr (pc_commitSha r) \<and>
      (pc_action r = Noop \<longleftrightarrow> snd (push e i) = None) \<and>
      (pc_action r = Noop \<longleftrightarrow> pi_expectedRemoteHeadSha i = Some (pc_commitSha r))) \<and>
   (\<forall>err head. fst (push e i) = Inl err \<longrightarrow> pe_getRef e = Inr head \<longrightarrow> head_after e i = head)"
  by (cases rule: push_cases [of e i])
     (auto simp: head_after_def makeReceipt_def updateRemoteHead_def split: option.splits sum.splits)

definition samplePushEnv :: push_env where
  "samplePushEnv = \<lparr>pe_export = (\<lambda>_. Inr (replicate 40 (CHR ''b''))), pe_client = None,
     pe_getRef = Inr (Some (replicate 40 (CHR ''a''))), pe_updateRef = (\<lambda>_. None), pe_now = 5\<rparr>"

definition samplePush :: push_input where
  "samplePush = \<lparr>pi_repositoryFullName = ''tprei/minions'', pi_bookmark = ''minions/node-1'',
     pi_jjChangeId = replicate 64 (CHR ''c''),
     pi_expectedRemoteHeadSha = Some (replicate 40 (CHR ''a''))\<rparr>"

theorem push_respects_lease_witness:
  "pe_getRef samplePushEnv = Inr (pi_expectedRemoteHeadSha samplePush) \<and>
   head_after samplePushEnv samplePush = Some (replicate 40 (CHR ''b'')) \<and>
   head_after (samplePushEnv\<lparr>pe_updateRef := \<lambda>_. Some Throws_other\<rparr>) samplePush =
     Some (replicate 40 (CHR ''a''))"
proof -
  have a: "snd (push samplePushEnv samplePush) = Some (replicate 40 (CHR ''b''))" by code_simp
  have b: "fst (push samplePushEnv samplePush) =
      Inr (makeReceipt samplePush (replicate 40 (CHR ''b'')) (replicate 40 (CHR ''b'')) Pushed 5)"
    by code_simp
  have c: "fst (push (samplePushEnv\<lparr>pe_updateRef := \<lambda>_. Some Throws_other\<rparr>) samplePush) = Inl Push_failed"
    by code_simp
  have d: "pe_getRef (samplePushEnv\<lparr>pe_updateRef := \<lambda>_. Some Throws_other\<rparr>) =
      Inr (Some (replicate 40 (CHR ''a'')))" by code_simp
  show ?thesis
    using push_respects_lease [of samplePushEnv samplePush] a b c d
      push_respects_lease [of "samplePushEnv\<lparr>pe_updateRef := \<lambda>_. Some Throws_other\<rparr>" samplePush]
    by (simp add: makeReceipt_def)
qed

end
