(* ===== verification/Stack_Manager.thy ===== *)
theory Stack_Manager
  imports Stack_Parentage Vcs_Binding Github_Push
begin

text \<open>
  \<^verbatim>\<open>packages/adapters/src/stack-parentage-adapter.ts\<close>: keeping the bases of the pull requests on GitHub
  in line with the stack. The GitHub client is a parameter, a \<open>pr_client\<close> over a world of its own: it
  lists the open pull requests of a head and changes the base of one. Operations return their result and
  the world they leave, also when they fail half way.
\<close>

section \<open>The client\<close>

text \<open>The fields of \<^verbatim>\<open>GitHubPullRequest\<close> that the managers read.\<close>

record pull_request =
  pr_number :: int
  pr_headRefName :: string
  pr_headSha :: string
  pr_baseRefName :: string
  pr_merged :: bool
  pr_mergeCommitSha :: "string option"
  pr_mergedAt :: "string option"
  pr_title :: string
  pr_htmlUrl :: string

record 'w pr_client =
  pl_list :: "'w \<Rightarrow> string \<Rightarrow> unit + pull_request list"
  pl_update :: "int \<Rightarrow> string \<Rightarrow> 'w \<Rightarrow> unit + 'w"

definition stack_ownerOf :: "string \<Rightarrow> stack_error + string" where
  "stack_ownerOf repo =
     (if \<not> repositoryFullNamePattern repo then Inl Stack_invalid_input
      else Inr (takeWhile (\<lambda>c. c \<noteq> CHR ''/'') repo))"

definition createStackParentageManager :: "string \<Rightarrow> string option \<Rightarrow> stack_error + string \<times> string" where
  "createStackParentageManager repo trunkOption =
     (let trunk = (case trunkOption of None \<Rightarrow> STACK_TRUNK_BRANCH | Some t \<Rightarrow> t) in
      bindE (guardE (length repo \<noteq> 0) Stack_invalid_input) (\<lambda>_.
      bindE (guardE (length trunk \<noteq> 0) Stack_invalid_input) (\<lambda>_.
      bindE (stack_ownerOf repo) (\<lambda>_. Inr (repo, trunk)))))"

definition head_filter :: "string \<Rightarrow> string \<Rightarrow> string" where
  "head_filter owner branch = owner @ '':'' @ branch"

definition findOpenPr :: "'w pr_client \<Rightarrow> string \<Rightarrow> string \<Rightarrow> 'w \<Rightarrow> stack_error + pull_request option" where
  "findOpenPr c repo branch w =
     bindE (stack_ownerOf repo) (\<lambda>owner.
     case pl_list c w (head_filter owner branch) of
       Inl _ \<Rightarrow> Inl Stack_api_error
     | Inr prs \<Rightarrow> if length prs > 1 then Inl Fan_in
         else Inr (case prs of [] \<Rightarrow> None | pr # _ \<Rightarrow> Some pr))"

definition retargetIfDrifted ::
    "'w pr_client \<Rightarrow> string \<Rightarrow> string \<Rightarrow> string \<Rightarrow> 'w \<Rightarrow> (stack_error + unit) \<times> 'w" where
  "retargetIfDrifted c repo branch expectedBase w = (case findOpenPr c repo branch w of
      Inl e \<Rightarrow> (Inl e, w)
    | Inr None \<Rightarrow> (Inr (), w)
    | Inr (Some pr) \<Rightarrow>
        if pr_baseRefName pr = expectedBase then (Inr (), w)
        else (case pl_update c (pr_number pr) expectedBase w of
           Inl _ \<Rightarrow> (Inl Stack_api_error, w)
         | Inr w' \<Rightarrow> (Inr (), w')))"

section \<open>The operations\<close>

fun ensure_loop :: "'w pr_client \<Rightarrow> string \<Rightarrow> stack_position list \<Rightarrow> 'w \<Rightarrow> (stack_error + unit) \<times> 'w" where
  "ensure_loop c repo [] w = (Inr (), w)"
| "ensure_loop c repo (p # ps) w = (case retargetIfDrifted c repo (sp_branch p) (sp_baseBranch p) w of
     (Inl e, w') \<Rightarrow> (Inl e, w')
   | (Inr _, w') \<Rightarrow> ensure_loop c repo ps w')"

definition ensureStackParentage ::
    "'w pr_client \<Rightarrow> string \<Rightarrow> string \<Rightarrow> string \<Rightarrow> stack_node list \<Rightarrow> 'w \<Rightarrow>
     (stack_error + stack_position list) \<times> 'w" where
  "ensureStackParentage c repo trunk tree nodes w = (case buildStackPath nodes trunk of
      Inl e \<Rightarrow> (Inl e, w)
    | Inr ps \<Rightarrow>
        if ps \<noteq> [] \<and> sp_treeId (hd ps) \<noteq> tree then (Inl Stack_invalid_input, w)
        else (case ensure_loop c repo ps w of
           (Inl e, w') \<Rightarrow> (Inl e, w')
         | (Inr _, w') \<Rightarrow> (Inr ps, w')))"

definition stack_node_of :: "vcs_binding list \<Rightarrow> vcs_binding \<Rightarrow> stack_error + stack_node" where
  "stack_node_of bindings b = (case vb_parentChangeId b of
      None \<Rightarrow> Inr \<lparr>sn_treeId = vb_treeId b, sn_nodeId = vb_nodeId b, sn_parentIds = []\<rparr>
    | Some change \<Rightarrow> (case js_map vb_jjChangeId bindings change of
        None \<Rightarrow> Inl Orphan
      | Some parent \<Rightarrow>
          Inr \<lparr>sn_treeId = vb_treeId b, sn_nodeId = vb_nodeId b, sn_parentIds = [vb_nodeId parent]\<rparr>))"

definition bindingsToStackNodes :: "vcs_binding list \<Rightarrow> stack_error + stack_node list" where
  "bindingsToStackNodes bindings = mapE (stack_node_of bindings) bindings"

text \<open>The bindings are what \<open>listForTree\<close> of the store answers.\<close>

definition loadStackNodes :: "'e + vcs_binding list \<Rightarrow> stack_error + stack_node list" where
  "loadStackNodes answer = (case answer of
      Inl _ \<Rightarrow> Inl Binding_lookup_failed
    | Inr bindings \<Rightarrow> if length bindings = 0 then Inl Node_not_found else bindingsToStackNodes bindings)"

fun retarget_loop ::
    "'w pr_client \<Rightarrow> string \<Rightarrow> string \<Rightarrow> string \<Rightarrow> stack_node list \<Rightarrow> stack_node list \<Rightarrow> 'w \<Rightarrow>
     (stack_error + retarget_plan list) \<times> 'w" where
  "retarget_loop c repo trunk landedId nodes [] w = (Inr [], w)"
| "retarget_loop c repo trunk landedId nodes (n # rest) w =
     (if landedId \<notin> set (sn_parentIds n) then retarget_loop c repo trunk landedId nodes rest w
      else case retargetAfterLanding landedId (sn_nodeId n) nodes trunk of
        Inl e \<Rightarrow> (Inl e, w)
      | Inr plan \<Rightarrow> (case determineBranchName (rt_treeId plan) (rt_childNodeId plan) of
          Inl e \<Rightarrow> (Inl e, w)
        | Inr branch \<Rightarrow> (case retargetIfDrifted c repo branch (rt_newBaseBranch plan) w of
            (Inl e, w') \<Rightarrow> (Inl e, w')
          | (Inr _, w') \<Rightarrow> (case retarget_loop c repo trunk landedId nodes rest w' of
              (Inl e, w'') \<Rightarrow> (Inl e, w'')
            | (Inr plans, w'') \<Rightarrow> (Inr (plan # plans), w'')))))"

definition retargetAfterParentLanding ::
    "'w pr_client \<Rightarrow> string \<Rightarrow> string \<Rightarrow> 'e + vcs_binding list \<Rightarrow> string \<Rightarrow> 'w \<Rightarrow>
     (stack_error + retarget_plan list) \<times> 'w" where
  "retargetAfterParentLanding c repo trunk answer landedId w = (case loadStackNodes answer of
      Inl e \<Rightarrow> (Inl e, w)
    | Inr nodes \<Rightarrow> retarget_loop c repo trunk landedId nodes nodes w)"

fun verify_loop ::
    "'w pr_client \<Rightarrow> string \<Rightarrow> string list \<Rightarrow> stack_position list \<Rightarrow> 'w \<Rightarrow> stack_error + unit" where
  "verify_loop c repo expected [] w = Inr ()"
| "verify_loop c repo expected (p # ps) w =
     bindE (findOpenPr c repo (sp_branch p) w) (\<lambda>found. case found of
       None \<Rightarrow> verify_loop c repo expected ps w
     | Some pr \<Rightarrow> if pr_baseRefName pr = sp_baseBranch p then verify_loop c repo expected ps w
         else Inl (if pr_baseRefName pr \<in> set expected then Fan_in else Drift))"

definition verifyNoFanIn ::
    "'w pr_client \<Rightarrow> string \<Rightarrow> string \<Rightarrow> 'e + vcs_binding list \<Rightarrow> 'w \<Rightarrow> stack_error + unit" where
  "verifyNoFanIn c repo trunk answer w =
     bindE (loadStackNodes answer) (\<lambda>nodes.
     bindE (buildStackPath nodes trunk) (\<lambda>ps.
     verify_loop c repo (map sp_branch ps) ps w))"

section \<open>The bases agree with the stack\<close>

text \<open>
  What the client documents: an update changes the base of the one pull request of that number, and a
  pull request has one head.
\<close>

definition faithful_client :: "'w pr_client \<Rightarrow> bool" where
  "faithful_client c \<longleftrightarrow>
     (\<forall>w n base w' h. pl_update c n base w = Inr w' \<longrightarrow>
        pl_list c w' h = (case pl_list c w h of Inl e \<Rightarrow> Inl e
          | Inr prs \<Rightarrow> Inr (map (\<lambda>pr. if pr_number pr = n then pr\<lparr>pr_baseRefName := base\<rparr> else pr) prs))) \<and>
     (\<forall>w h h' prs prs'. pl_list c w h = Inr prs \<longrightarrow> pl_list c w h' = Inr prs' \<longrightarrow> h \<noteq> h' \<longrightarrow>
        pr_number ` set prs \<inter> pr_number ` set prs' = {})"

text \<open>The branch has no open pull request, or one, on the given base.\<close>

definition based :: "'w pr_client \<Rightarrow> string \<Rightarrow> 'w \<Rightarrow> string \<Rightarrow> string \<Rightarrow> bool" where
  "based c repo w branch base \<longleftrightarrow> (case findOpenPr c repo branch w of
      Inl _ \<Rightarrow> False | Inr None \<Rightarrow> True | Inr (Some pr) \<Rightarrow> pr_baseRefName pr = base)"

lemma findOpenPr_Inr:
  assumes "findOpenPr c repo branch w = Inr found"
  obtains owner prs where "stack_ownerOf repo = Inr owner" "pl_list c w (head_filter owner branch) = Inr prs"
    "prs = (case found of None \<Rightarrow> [] | Some pr \<Rightarrow> [pr])"
proof -
  obtain owner where own: "stack_ownerOf repo = Inr owner" using assms by (auto simp: findOpenPr_def res_simps)
  obtain prs where l: "pl_list c w (head_filter owner branch) = Inr prs"
    using assms own by (cases "pl_list c w (head_filter owner branch)") (auto simp: findOpenPr_def)
  have o: "stack_ownerOf repo = Inr owner" "pl_list c w (head_filter owner branch) = Inr prs"
    "\<not> length prs > 1" "found = (case prs of [] \<Rightarrow> None | pr # _ \<Rightarrow> Some pr)"
    using assms own l by (auto simp: findOpenPr_def split: if_splits)
  then have "prs = (case found of None \<Rightarrow> [] | Some pr \<Rightarrow> [pr])"
    by (cases prs; cases "tl prs") auto
  with o show ?thesis using that by blast
qed

lemma findOpenPr_known:
  assumes "stack_ownerOf repo = Inr owner"
  shows "findOpenPr c repo branch w = (case pl_list c w (head_filter owner branch) of
    Inl _ \<Rightarrow> Inl Stack_api_error | Inr prs \<Rightarrow> if length prs > 1 then Inl Fan_in
      else Inr (case prs of [] \<Rightarrow> None | pr # _ \<Rightarrow> Some pr))"
  using assms by (simp add: findOpenPr_def)

lemma updated_pr:
  assumes c: "faithful_client c" and up: "pl_update c (pr_number pr) base w = Inr w'"
    and pr: "findOpenPr c repo branch w = Inr (Some pr)"
  shows "findOpenPr c repo branch w' = Inr (Some (pr\<lparr>pr_baseRefName := base\<rparr>))"
    and "branch' \<noteq> branch \<Longrightarrow> is_ok (findOpenPr c repo branch' w) \<Longrightarrow>
      findOpenPr c repo branch' w' = findOpenPr c repo branch' w"
proof -
  obtain owner where o: "stack_ownerOf repo = Inr owner" and l: "pl_list c w (head_filter owner branch) = Inr [pr]"
    using pr by (rule findOpenPr_Inr) simp
  have upd: "pl_list c w' h = (case pl_list c w h of Inl e \<Rightarrow> Inl e
      | Inr prs \<Rightarrow> Inr (map (\<lambda>p. if pr_number p = pr_number pr then p\<lparr>pr_baseRefName := base\<rparr> else p) prs))" for h
    using c up unfolding faithful_client_def by blast
  show "findOpenPr c repo branch w' = Inr (Some (pr\<lparr>pr_baseRefName := base\<rparr>))"
    unfolding findOpenPr_known [OF o] upd l by simp
  assume other: "branch' \<noteq> branch" and "is_ok (findOpenPr c repo branch' w)"
  then obtain found where f: "findOpenPr c repo branch' w = Inr found" by (auto simp: is_ok_iff)
  then obtain prs where l': "pl_list c w (head_filter owner branch') = Inr prs"
    using o by (elim findOpenPr_Inr) simp
  have "head_filter owner branch' \<noteq> head_filter owner branch" using other by (simp add: head_filter_def)
  then have "pr_number pr \<notin> pr_number ` set prs"
  proof -
    have "pr_number ` set prs \<inter> pr_number ` set [pr] = {}"
      using c l l' \<open>head_filter owner branch' \<noteq> head_filter owner branch\<close> unfolding faithful_client_def by blast
    then show ?thesis by simp
  qed
  then have "map (\<lambda>p. if pr_number p = pr_number pr then p\<lparr>pr_baseRefName := base\<rparr> else p) prs = prs"
    by (intro map_idI) (metis image_eqI)
  then show "findOpenPr c repo branch' w' = findOpenPr c repo branch' w"
    unfolding findOpenPr_known [OF o] upd l' by simp
qed

lemma retarget_based:
  assumes c: "faithful_client c" and r: "retargetIfDrifted c repo branch base w = (Inr u, w')"
  shows "based c repo w' branch base"
    and "branch' \<noteq> branch \<Longrightarrow> based c repo w branch' base' \<Longrightarrow> based c repo w' branch' base'"
proof -
  show "based c repo w' branch base"
    using r updated_pr(1) [OF c] by (auto simp: retargetIfDrifted_def based_def split: sum.splits option.splits if_splits)
  assume other: "branch' \<noteq> branch" and b: "based c repo w branch' base'"
  then have ok: "is_ok (findOpenPr c repo branch' w)" by (auto simp: based_def is_ok_iff split: sum.splits)
  show "based c repo w' branch' base'"
    using r updated_pr(2) [OF c _ _ other ok] b
    by (auto simp: retargetIfDrifted_def based_def split: sum.splits option.splits if_splits)
qed

lemma retarget_idle: "based c repo w branch base \<Longrightarrow> retargetIfDrifted c repo branch base w = (Inr (), w)"
  by (auto simp: based_def retargetIfDrifted_def split: sum.splits option.splits)

lemma ensure_loop_keeps:
  "faithful_client c \<Longrightarrow> ensure_loop c repo ps w = (Inr u, w') \<Longrightarrow> branch \<notin> sp_branch ` set ps \<Longrightarrow>
     based c repo w branch base \<Longrightarrow> based c repo w' branch base"
proof (induction ps arbitrary: w)
  case (Cons p ps)
  then show ?case
    by (auto split: prod.splits sum.splits dest: retarget_based(2) [of c repo _ _ w])
qed simp

lemma ensure_loop_based:
  "faithful_client c \<Longrightarrow> ensure_loop c repo ps w = (Inr u, w') \<Longrightarrow> distinct (map sp_branch ps) \<Longrightarrow>
     \<forall>p\<in>set ps. based c repo w' (sp_branch p) (sp_baseBranch p)"
proof (induction ps arbitrary: w)
  case (Cons p ps)
  obtain u1 w1 where r: "retargetIfDrifted c repo (sp_branch p) (sp_baseBranch p) w = (Inr u1, w1)"
    and rest: "ensure_loop c repo ps w1 = (Inr u, w')"
    using Cons.prems(2) by (auto split: prod.splits sum.splits)
  have "based c repo w' (sp_branch p) (sp_baseBranch p)"
    using ensure_loop_keeps [OF Cons.prems(1) rest _ retarget_based(1) [OF Cons.prems(1) r]] Cons.prems(3) by simp
  then show ?case using Cons.IH [OF Cons.prems(1) rest] Cons.prems(3) by simp
qed simp

lemma ensure_loop_idle:
  "\<forall>p\<in>set ps. based c repo w (sp_branch p) (sp_baseBranch p) \<Longrightarrow> ensure_loop c repo ps w = (Inr (), w)"
  by (induction ps) (simp_all add: retarget_idle)

lemma verify_loop_based:
  "\<forall>p\<in>set ps. based c repo w (sp_branch p) (sp_baseBranch p) \<Longrightarrow> verify_loop c repo expected ps w = Inr ()"
  by (induction ps) (auto simp: based_def bindE_def split: sum.splits option.splits)

text \<open>Ensuring the stack makes the check pass. With a client that does what it documents, when
  ensureStackParentage returns the positions of the nodes the bindings of a tree stand for, every branch of the
  stack has no open pull request or one on its expected base, verifyNoFanIn accepts the resulting state of
  GitHub, and running ensureStackParentage again changes nothing.\<close>

theorem ensure_makes_verify_pass:
  assumes "faithful_client c" and "loadStackNodes bindings = Inr nodes"
    and "ensureStackParentage c repo trunk tree nodes w = (Inr ps, w')"
  shows "(\<forall>p\<in>set ps. based c repo w' (sp_branch p) (sp_baseBranch p)) \<and>
    verifyNoFanIn c repo trunk bindings w' = Inr () \<and>
    ensureStackParentage c repo trunk tree nodes w' = (Inr ps, w')"
proof -
  obtain u where b: "buildStackPath nodes trunk = Inr ps" and t: "ps = [] \<or> sp_treeId (hd ps) = tree"
    and l: "ensure_loop c repo ps w = (Inr u, w')"
    using assms(3) by (auto simp: ensureStackParentage_def split: sum.splits prod.splits if_splits)
  have d: "distinct (map sp_branch ps)" using built_branches_distinct [OF b] .
  have based: "\<forall>p\<in>set ps. based c repo w' (sp_branch p) (sp_baseBranch p)"
    using ensure_loop_based [OF assms(1) l d] .
  then show ?thesis
    using b t assms(2) verify_loop_based [OF based] ensure_loop_idle [OF based]
    by (auto simp: verifyNoFanIn_def ensureStackParentage_def)
qed

section \<open>A sample repository\<close>

text \<open>Two open pull requests, of the nodes \<open>1\<close> and \<open>2\<close> of the sample stack; the world is their two bases.\<close>

definition sampleBranch :: "char \<Rightarrow> string" where
  "sampleBranch i = ''minions/00000000/00000000000'' @ [i]"

definition samplePr :: "int \<Rightarrow> char \<Rightarrow> string \<Rightarrow> pull_request" where
  "samplePr n i base = \<lparr>pr_number = n, pr_headRefName = sampleBranch i, pr_headSha = replicate 40 (CHR ''a''),
     pr_baseRefName = base, pr_merged = False, pr_mergeCommitSha = None, pr_mergedAt = None,
     pr_title = ''change'', pr_htmlUrl = []\<rparr>"

definition sampleClient :: "(string \<times> string) pr_client" where
  "sampleClient = \<lparr>pl_list = (\<lambda>(a, b) h.
       if h = head_filter ''tprei'' (sampleBranch (CHR ''1'')) then Inr [samplePr 1 (CHR ''1'') a]
       else if h = head_filter ''tprei'' (sampleBranch (CHR ''2'')) then Inr [samplePr 2 (CHR ''2'') b]
       else Inr []),
     pl_update = (\<lambda>n base (a, b). if n = 1 then Inr (base, b) else if n = 2 then Inr (a, base) else Inl ())\<rparr>"

lemma sampleClient_faithful: "faithful_client sampleClient"
  unfolding faithful_client_def sampleClient_def
  by (auto simp: samplePr_def split: if_splits)

definition stackBinding :: "char \<Rightarrow> char option \<Rightarrow> vcs_binding" where
  "stackBinding i parent = (sampleBinding 0 None)\<lparr>vb_nodeId := stackId i, vb_jjChangeId := replicate 64 i,
     vb_parentChangeId := map_option (replicate 64) parent\<rparr>"

definition stackBindings :: "vcs_binding list" where
  "stackBindings = [stackBinding (CHR ''3'') (Some (CHR ''2'')), stackBinding (CHR ''1'') None,
     stackBinding (CHR ''2'') (Some (CHR ''1''))]"

lemma stackBindings_nodes: "loadStackNodes (Inr stackBindings :: unit + vcs_binding list) = Inr sampleNodes"
  by code_simp

theorem ensure_makes_verify_pass_witness:
  "verifyNoFanIn sampleClient ''tprei/minions'' ''main'' (Inr stackBindings :: unit + vcs_binding list) (''main'', sampleBranch (CHR ''1'')) = Inr ()"
proof -
  have "ensureStackParentage sampleClient ''tprei/minions'' ''main'' (stackId (CHR ''0'')) sampleNodes (''main'', ''old'') =
      (Inr (projr (fst (ensureStackParentage sampleClient ''tprei/minions'' ''main'' (stackId (CHR ''0'')) sampleNodes (''main'', ''old'')))),
       (''main'', sampleBranch (CHR ''1'')))"
    by code_simp
  from ensure_makes_verify_pass [OF sampleClient_faithful stackBindings_nodes this] show ?thesis by blast
qed

text \<open>
  A binding that names its own change as its parent makes the whole tree unusable: its stack has a cycle.
\<close>

lemma self_parent_breaks_stack:
  assumes "b \<in> set bindings" and "vb_parentChangeId b = Some (vb_jjChangeId b)"
    and "distinct (map vb_jjChangeId bindings)" and "distinct (map vb_nodeId bindings)"
    and "loadStackNodes (Inr bindings :: unit + vcs_binding list) = Inr nodes"
  shows "\<not> is_ok (buildStackPath nodes trunk)"
proof -
  have nodes: "mapE (stack_node_of bindings) bindings = Inr nodes"
    using assms(5) by (auto simp: loadStackNodes_def bindingsToStackNodes_def split: if_splits)
  have self: "stack_node_of bindings b =
      Inr \<lparr>sn_treeId = vb_treeId b, sn_nodeId = vb_nodeId b, sn_parentIds = [vb_nodeId b]\<rparr>"
    using js_map_distinct [OF assms(3), of "vb_jjChangeId b" b] assms(1,2) by (simp add: stack_node_of_def)
  let ?n = "\<lparr>sn_treeId = vb_treeId b, sn_nodeId = vb_nodeId b, sn_parentIds = [vb_nodeId b]\<rparr>"
  have "?n \<in> set nodes" using mapE_set [OF nodes] assms(1) self by blast
  moreover have "map sn_nodeId nodes = map vb_nodeId bindings"
    by (rule mapE_map [OF nodes]) (auto simp: stack_node_of_def split: option.splits)
  ultimately have "js_map sn_nodeId nodes (vb_nodeId b) = Some ?n"
    using js_map_distinct [of sn_nodeId nodes "vb_nodeId b" ?n] assms(4) by simp
  then have "node_parent nodes (vb_nodeId b) = Some (vb_nodeId b)" by (simp add: node_parent_def stack_parent_def)
  then have "ancestor_of (node_parent nodes) (vb_nodeId b) (vb_nodeId b)" by (rule ancestor_of.direct)
  then show ?thesis using build_acyclic by blast
qed

end
