(* ===== verification/Remote_CI.thy ===== *)
theory Remote_CI
  imports Repair Github_Push
begin

text \<open>
  \<^verbatim>\<open>packages/core/src/remote-ci.ts\<close> and \<^verbatim>\<open>packages/adapters/src/remote-ci-adapter.ts\<close>: the verdict of one
  check, the evidence for one head commit, polling until the required checks are final, and the
  bounded repair of a pull request whose checks are red. GitHub, the clock, the repair harness and
  the push manager are parameters: the n-th observation, clock reading, repair or push gets the n-th
  answer of a \<open>ci_env\<close>. Log lines and texts of errors are left out.
\<close>

section \<open>Verdicts\<close>

datatype check_verdict =
    V_success | V_failure | V_neutral | V_skipped | V_cancelled | V_timed_out | V_action_required
  | V_stale | V_missing | V_in_progress | V_unknown

datatype overall_verdict = Ci_success | Ci_incomplete | Ci_failure

fun FAILURE_VERDICTS :: "check_verdict \<Rightarrow> bool" where
  "FAILURE_VERDICTS V_success = False"
| "FAILURE_VERDICTS V_failure = True"
| "FAILURE_VERDICTS V_neutral = False"
| "FAILURE_VERDICTS V_skipped = False"
| "FAILURE_VERDICTS V_cancelled = True"
| "FAILURE_VERDICTS V_timed_out = True"
| "FAILURE_VERDICTS V_action_required = True"
| "FAILURE_VERDICTS V_stale = False"
| "FAILURE_VERDICTS V_missing = False"
| "FAILURE_VERDICTS V_in_progress = False"
| "FAILURE_VERDICTS V_unknown = False"


record check_observation =
  ck_name :: string
  ck_headSha :: string
  ck_verdict :: check_verdict
  ck_completedAt :: "string option"
  ck_logUrl :: "string option"
  ck_conclusion :: "check_verdict option"

record ci_evidence =
  ce_headSha :: string
  ce_checks :: "check_observation list"
  ce_overallVerdict :: overall_verdict
  ce_allRequiredPresent :: bool

definition isCheckPassing :: "check_observation \<Rightarrow> bool" where
  "isCheckPassing c \<longleftrightarrow> ck_verdict c = V_success"

definition isFailureVerdict :: "check_verdict \<Rightarrow> bool" where
  "isFailureVerdict v = FAILURE_VERDICTS v"


definition findCheck :: "check_observation list \<Rightarrow> string \<Rightarrow> check_observation option" where
  "findCheck checks name = find_first (\<lambda>c. ck_name c = name) checks"


text \<open>The loop of \<open>classifyOverall\<close>: its two flags, then the rest of the required names.\<close>

fun classify_loop :: "check_observation list \<Rightarrow> bool \<Rightarrow> bool \<Rightarrow> string list \<Rightarrow> bool \<times> bool" where
  "classify_loop checks inc red [] = (inc, red)"
| "classify_loop checks inc red (name # names) =
     (case findCheck checks name of
       None \<Rightarrow> classify_loop checks True red names
     | Some c \<Rightarrow>
         (let v = ck_verdict c in
          if v = V_missing \<or> v = V_stale \<or> v = V_in_progress \<or> v = V_unknown
          then classify_loop checks True red names
          else if v \<noteq> V_success
          then (if isFailureVerdict v then classify_loop checks inc True names
                else classify_loop checks True red names)
          else classify_loop checks inc red names))"

definition classifyOverall :: "check_observation list \<Rightarrow> string list \<Rightarrow> overall_verdict" where
  "classifyOverall checks required =
     (let (inc, red) = classify_loop checks False False required in
      if inc then Ci_incomplete else if red then Ci_failure else Ci_success)"

definition allRequiredPresent :: "check_observation list \<Rightarrow> string list \<Rightarrow> bool" where
  "allRequiredPresent checks required = list_all (\<lambda>name. case findCheck checks name of
      None \<Rightarrow> False
    | Some c \<Rightarrow> ck_verdict c \<noteq> V_missing \<and> ck_verdict c \<noteq> V_stale) required"

definition isBaseFailure :: "string \<Rightarrow> ci_evidence \<Rightarrow> ci_evidence \<Rightarrow> bool" where
  "isBaseFailure name head base = (case findCheck (ce_checks head) name of
      None \<Rightarrow> False
    | Some h \<Rightarrow> if \<not> isFailureVerdict (ck_verdict h) then False
        else (case findCheck (ce_checks base) name of
          None \<Rightarrow> False
        | Some b \<Rightarrow> isFailureVerdict (ck_verdict b)))"

section \<open>Observing a pull request\<close>

text \<open>What the GitHub client answers: \<^verbatim>\<open>github-client.ts\<close> types of the same names.\<close>

datatype run_status = Run_queued | Run_in_progress | Run_completed

datatype run_conclusion =
    C_success | C_failure | C_neutral | C_skipped | C_cancelled | C_timed_out | C_action_required | C_stale

record check_run =
  cr_name :: string
  cr_headSha :: string
  cr_status :: run_status
  cr_conclusion :: "run_conclusion option"
  cr_completedAt :: "string option"
  cr_htmlUrl :: "string option"

datatype combined_state = Comb_success | Comb_failure | Comb_pending | Comb_error

datatype client_error = Not_found_error | Other_client_error

record pr_shas =
  ps_headSha :: string
  ps_baseSha :: string

datatype remote_ci_error =
    Check_fetch_failed | Ci_timeout | Pr_not_found | Auth_failed | Api_error
  | Ci_domain domain_error_code | Harness_threw | Ci_push_failed | Ci_range_error

record ci_answer =
  ca_auth :: bool
  ca_pr :: "client_error + pr_shas"
  ca_runs :: "string \<Rightarrow> client_error + check_run list"
  ca_combined :: "string \<Rightarrow> client_error + combined_state"

fun conclusionToVerdict :: "run_conclusion \<Rightarrow> check_verdict" where
  "conclusionToVerdict C_success = V_success"
| "conclusionToVerdict C_failure = V_failure"
| "conclusionToVerdict C_neutral = V_neutral"
| "conclusionToVerdict C_skipped = V_skipped"
| "conclusionToVerdict C_cancelled = V_cancelled"
| "conclusionToVerdict C_timed_out = V_timed_out"
| "conclusionToVerdict C_action_required = V_action_required"
| "conclusionToVerdict C_stale = V_stale"

definition verdictFromRun :: "check_run \<Rightarrow> string \<Rightarrow> check_verdict" where
  "verdictFromRun r head =
     (if cr_headSha r \<noteq> [] \<and> cr_headSha r \<noteq> head then V_stale
      else if cr_status r \<noteq> Run_completed then V_in_progress
      else (case cr_conclusion r of None \<Rightarrow> V_unknown | Some c \<Rightarrow> conclusionToVerdict c))"

definition toObservation :: "check_run \<Rightarrow> string \<Rightarrow> check_observation checked" where
  "toObservation r head =
     bindE (if cr_headSha r = [] then Inr head else gitSha (cr_headSha r)) (\<lambda>sha.
     Inr \<lparr>ck_name = cr_name r, ck_headSha = sha, ck_verdict = verdictFromRun r head,
          ck_completedAt = cr_completedAt r, ck_logUrl = cr_htmlUrl r,
          ck_conclusion = map_option conclusionToVerdict (cr_conclusion r)\<rparr>)"

definition missingObservation :: "string \<Rightarrow> string \<Rightarrow> combined_state \<Rightarrow> check_observation" where
  "missingObservation name head combined =
     \<lparr>ck_name = name, ck_headSha = head,
      ck_verdict = (if combined = Comb_pending then V_in_progress else V_missing),
      ck_completedAt = None, ck_logUrl = None, ck_conclusion = None\<rparr>"

definition liftCi :: "'a checked \<Rightarrow> remote_ci_error + 'a" where
  "liftCi m = (case m of Inl e \<Rightarrow> Inl (Ci_domain e) | Inr x \<Rightarrow> Inr x)"

definition fetchPr :: "ci_answer \<Rightarrow> remote_ci_error + pr_shas" where
  "fetchPr a = (case ca_pr a of
      Inl Not_found_error \<Rightarrow> Inl Pr_not_found
    | Inl Other_client_error \<Rightarrow> Inl Api_error
    | Inr p \<Rightarrow> Inr p)"

definition fetchCheckRuns :: "ci_answer \<Rightarrow> string \<Rightarrow> remote_ci_error + check_run list" where
  "fetchCheckRuns a sha = (case ca_runs a sha of Inl _ \<Rightarrow> Inl Check_fetch_failed | Inr rs \<Rightarrow> Inr rs)"

definition fetchCombinedStatus :: "ci_answer \<Rightarrow> string \<Rightarrow> remote_ci_error + combined_state" where
  "fetchCombinedStatus a sha = (case ca_combined a sha of
      Inl Not_found_error \<Rightarrow> Inr Comb_pending
    | Inl Other_client_error \<Rightarrow> Inl Check_fetch_failed
    | Inr s \<Rightarrow> Inr s)"

text \<open>\<open>byName\<close> keeps the first run of a name.\<close>

definition newest_run :: "check_run list \<Rightarrow> string \<Rightarrow> check_run option" where
  "newest_run runs name = find_first (\<lambda>r. cr_name r = name) runs"

definition observe_required ::
    "check_run list \<Rightarrow> string \<Rightarrow> combined_state \<Rightarrow> string \<Rightarrow> remote_ci_error + check_observation" where
  "observe_required runs head combined name = (case newest_run runs name of
      None \<Rightarrow> Inr (missingObservation name head combined)
    | Some r \<Rightarrow> liftCi (toObservation r head))"

fun observe_extra :: "string list \<Rightarrow> string \<Rightarrow> check_run list \<Rightarrow> remote_ci_error + check_observation list" where
  "observe_extra seen head [] = Inr []"
| "observe_extra seen head (r # rs) =
     (if cr_name r \<notin> set seen
      then bindE (liftCi (toObservation r head)) (\<lambda>c.
           bindE (observe_extra (cr_name r # seen) head rs) (\<lambda>cs. Inr (c # cs)))
      else observe_extra seen head rs)"

definition evidence_of :: "string \<Rightarrow> check_observation list \<Rightarrow> string list \<Rightarrow> ci_evidence" where
  "evidence_of head checks required =
     \<lparr>ce_headSha = head, ce_checks = checks, ce_overallVerdict = classifyOverall checks required,
      ce_allRequiredPresent = allRequiredPresent checks required\<rparr>"

definition observeInternal :: "ci_answer \<Rightarrow> string list \<Rightarrow> remote_ci_error + ci_evidence" where
  "observeInternal a required =
     bindE (guardE (ca_auth a) Auth_failed) (\<lambda>_.
     bindE (fetchPr a) (\<lambda>pr.
     bindE (liftCi (gitSha (ps_headSha pr))) (\<lambda>head.
     bindE (fetchCheckRuns a (ps_headSha pr)) (\<lambda>runs.
     bindE (fetchCombinedStatus a (ps_headSha pr)) (\<lambda>combined.
     bindE (mapE (observe_required runs head combined) required) (\<lambda>firsts.
     bindE (observe_extra required head runs) (\<lambda>extras.
       Inr (evidence_of head (firsts @ extras) required))))))))"

definition observeBase :: "ci_answer \<Rightarrow> string list \<Rightarrow> remote_ci_error + ci_evidence" where
  "observeBase a required =
     bindE (guardE (ca_auth a) Auth_failed) (\<lambda>_.
     bindE (fetchPr a) (\<lambda>pr.
     bindE (liftCi (gitSha (ps_baseSha pr))) (\<lambda>base.
     bindE (fetchCheckRuns a (ps_baseSha pr)) (\<lambda>runs.
     bindE (mapE (observe_required runs base Comb_pending) required) (\<lambda>checks.
       Inr (evidence_of base checks required))))))"

definition invalidateStaleChecks :: "ci_answer \<Rightarrow> string list \<Rightarrow> string \<Rightarrow> remote_ci_error + ci_evidence" where
  "invalidateStaleChecks a required currentHead =
     bindE (observeInternal a required) (\<lambda>ev.
     if ce_headSha ev \<noteq> currentHead then Inl Api_error else Inr ev)"

section \<open>Waiting\<close>


definition failingRequiredChecks :: "ci_evidence \<Rightarrow> string list \<Rightarrow> string list" where
  "failingRequiredChecks ev required = filter (\<lambda>name. case findCheck (ce_checks ev) name of
      None \<Rightarrow> False
    | Some c \<Rightarrow> isFailureVerdict (ck_verdict c)) required"

text \<open>
  The environment of the manager. A turn of the polling loop reads the clock once for the deadline
  (\<open>cv_now\<close> of the turn) and once more for the length of its sleep, which changes nothing else.
\<close>

record ci_env =
  cv_answer :: "nat \<Rightarrow> ci_answer"
  cv_now :: "nat \<Rightarrow> int"
  cv_repair :: "nat \<Rightarrow> string list \<Rightarrow> string \<Rightarrow> repair_outcome option"
  cv_push :: "nat \<Rightarrow> string option \<Rightarrow> bool"




section \<open>Repairing\<close>

datatype ci_repair_status = Ci_repaired | Ci_escalated | Ci_base_failure | Ci_no_progress

record ci_repair_outcome =
  co_status :: ci_repair_status
  co_evidence :: ci_evidence
  co_attempts :: nat
  co_attention :: "repair_attention option"
  co_failingChecks :: "string list"

definition repairOutcome ::
    "ci_repair_status \<Rightarrow> ci_evidence \<Rightarrow> nat \<Rightarrow> repair_attention option \<Rightarrow> string list \<Rightarrow> ci_repair_outcome" where
  "repairOutcome st ev n att failing =
     \<lparr>co_status = st, co_evidence = ev, co_attempts = n, co_attention = att, co_failingChecks = failing\<rparr>"

text \<open>
  The state of the repair loop: the budget, the signatures seen, the attempts counted, the current
  evidence, its failing checks and the number of repairs run, which numbers the pushes and, after
  the one observation of the base, the observations as well.
\<close>

record ci_state =
  cs_budget :: retry_budget
  cs_priorSignatures :: "string list"
  cs_attempts :: nat
  cs_current :: ci_evidence
  cs_failing :: "string list"
  cs_runs :: nat

datatype ci_turn = Ci_done "remote_ci_error + ci_repair_outcome" nat | Ci_again ci_state

definition failing_signature :: "string list \<Rightarrow> string" where
  "failing_signature names = join '','' (sort names)"

definition ci_iteration :: "ci_env \<Rightarrow> string list \<Rightarrow> string option \<Rightarrow> ci_state \<Rightarrow> ci_turn" where
  "ci_iteration e required lease s =
     (if bu_remaining (cs_budget s) \<le> 0
      then Ci_done (Inr (repairOutcome Ci_escalated (cs_current s) (cs_attempts s) None (cs_failing s)))
             (cs_runs s)
      else let n = cs_runs s in
        case cv_repair e n (cs_failing s) (ce_headSha (cs_current s)) of
          None \<Rightarrow> Ci_done (Inl Harness_threw) (Suc n)
        | Some out \<Rightarrow>
           (let attempts = cs_attempts s + length (ro_attempts out) in
            if ro_status out \<noteq> Repaired
            then Ci_done (Inr (repairOutcome Ci_escalated (cs_current s) attempts (ro_attention out)
                   (cs_failing s))) (Suc n)
            else if \<not> cv_push e n lease then Ci_done (Inl Ci_push_failed) (Suc n)
            else case observeInternal (cv_answer e (Suc n)) required of
              Inl err \<Rightarrow> Ci_done (Inl err) (Suc n)
            | Inr current \<Rightarrow>
               (let failing = failingRequiredChecks current required in
                if ce_overallVerdict current = Ci_success
                then Ci_done (Inr (repairOutcome Ci_repaired current attempts None [])) (Suc n)
                else if failing = []
                then Ci_done (Inr (repairOutcome Ci_escalated current attempts None [])) (Suc n)
                else let signature = failing_signature failing in
                  if signature \<in> set (cs_priorSignatures s)
                  then Ci_done (Inr (repairOutcome Ci_no_progress current attempts None failing)) (Suc n)
                  else case consume (cs_budget s) of
                    Inl _ \<Rightarrow> Ci_done (Inl Ci_range_error) (Suc n)
                  | Inr b \<Rightarrow> Ci_again \<lparr>cs_budget = b,
                      cs_priorSignatures = signature # cs_priorSignatures s, cs_attempts = attempts,
                      cs_current = current, cs_failing = failing, cs_runs = Suc n\<rparr>)))"

partial_function (option) ci_loop ::
    "ci_env \<Rightarrow> string list \<Rightarrow> string option \<Rightarrow> ci_state \<Rightarrow> ((remote_ci_error + ci_repair_outcome) \<times> nat) option" where
  "ci_loop e required lease s = (case ci_iteration e required lease s of
     Ci_done r n \<Rightarrow> Some (r, n)
   | Ci_again s' \<Rightarrow> ci_loop e required lease s')"

declare ci_loop.simps [code]

text \<open>The result and the number of repairs that were run.\<close>

definition attemptCiRepair ::
    "ci_env \<Rightarrow> string list \<Rightarrow> string option \<Rightarrow> ci_evidence \<Rightarrow> retry_budget \<Rightarrow>
     ((remote_ci_error + ci_repair_outcome) \<times> nat) option" where
  "attemptCiRepair e required lease ev budget =
     (let base = observeBase (cv_answer e 0) required;
          failing = failingRequiredChecks ev required
      in if failing = [] then Some (Inr (repairOutcome Ci_repaired ev 0 None []), 0)
         else if (case base of Inl _ \<Rightarrow> False | Inr b \<Rightarrow> list_all (\<lambda>name. isBaseFailure name ev b) failing)
         then Some (Inr (repairOutcome Ci_base_failure ev 0 None failing), 0)
         else ci_loop e required lease \<lparr>cs_budget = budget, cs_priorSignatures = [], cs_attempts = 0,
                cs_current = ev, cs_failing = failing, cs_runs = 0\<rparr>)"

section \<open>Verdicts and evidence\<close>

lemma classify_loop_flags:
  "classify_loop checks inc red names =
     (inc \<or> (\<exists>n\<in>set names. case findCheck checks n of None \<Rightarrow> True
        | Some c \<Rightarrow> ck_verdict c \<noteq> V_success \<and> \<not> isFailureVerdict (ck_verdict c)),
      red \<or> (\<exists>n\<in>set names. case findCheck checks n of None \<Rightarrow> False
        | Some c \<Rightarrow> isFailureVerdict (ck_verdict c)))"
proof (induction names arbitrary: inc red)
  case Nil
  show ?case by simp
next
  case (Cons name names)
  show ?case
  proof (cases "findCheck checks name")
    case None
    then show ?thesis using Cons by auto
  next
    case (Some c)
    then show ?thesis
      by (cases "ck_verdict c") (simp_all add: Cons isFailureVerdict_def Let_def)
  qed
qed

lemma verdict_red: "isFailureVerdict v \<Longrightarrow> v \<noteq> V_success"
  by (cases v) (simp_all add: isFailureVerdict_def)

lemma classifyOverall_success:
  "classifyOverall checks required = Ci_success \<longleftrightarrow>
     (\<forall>n\<in>set required. \<exists>c. findCheck checks n = Some c \<and> isCheckPassing c)"
proof -
  have "(\<exists>c. findCheck checks n = Some c \<and> isCheckPassing c) \<longleftrightarrow>
      \<not> (case findCheck checks n of None \<Rightarrow> True
         | Some c \<Rightarrow> ck_verdict c \<noteq> V_success \<and> \<not> isFailureVerdict (ck_verdict c)) \<and>
      \<not> (case findCheck checks n of None \<Rightarrow> False | Some c \<Rightarrow> isFailureVerdict (ck_verdict c))" for n
    by (cases "findCheck checks n") (auto simp: isCheckPassing_def dest: verdict_red)
  then show ?thesis
    unfolding classifyOverall_def classify_loop_flags by auto
qed

lemma findCheck_append:
  "findCheck (xs @ ys) n = (case findCheck xs n of Some c \<Rightarrow> Some c | None \<Rightarrow> findCheck ys n)"
  unfolding findCheck_def find_first_append by simp

text \<open>The required checks of an observation are the newest runs of their names.\<close>

lemma observe_required_name: "observe_required runs head combined n = Inr c \<Longrightarrow> ck_name c = n"
  by (auto simp: observe_required_def newest_run_def missingObservation_def liftCi_def toObservation_def
      res_simps dest!: find_first_Some_iff split: option.splits sum.splits)

lemma find_required:
  "mapE (observe_required runs head combined) names = Inr cs \<Longrightarrow> n \<in> set names \<Longrightarrow>
     \<exists>c. findCheck cs n = Some c \<and> observe_required runs head combined n = Inr c"
proof (induction names arbitrary: cs)
  case (Cons m names)
  obtain c ds where c: "observe_required runs head combined m = Inr c"
    and ds: "mapE (observe_required runs head combined) names = Inr ds" and cs: "cs = c # ds"
    using Cons.prems(1) by (auto simp: res_simps)
  show ?case
  proof (cases "m = n")
    case True
    then show ?thesis using c observe_required_name [OF c] cs by (auto simp: findCheck_def)
  next
    case False
    then show ?thesis using Cons.IH [OF ds] Cons.prems(2) observe_required_name [OF c] cs
      by (auto simp: findCheck_def)
  qed
qed simp

definition green_run :: "check_run \<Rightarrow> string \<Rightarrow> bool" where
  "green_run r head \<longleftrightarrow> (cr_headSha r = [] \<or> cr_headSha r = head) \<and> cr_status r = Run_completed \<and>
     cr_conclusion r = Some C_success"

lemma verdictFromRun_success: "verdictFromRun r head = V_success \<longleftrightarrow> green_run r head"
proof -
  have "conclusionToVerdict c = V_success \<longleftrightarrow> c = C_success" for c by (cases c) auto
  then show ?thesis by (auto simp: verdictFromRun_def green_run_def split: option.splits)
qed

lemma observe_required_passing:
  assumes "observe_required runs head combined n = Inr c"
  shows "isCheckPassing c \<longleftrightarrow> (\<exists>r. newest_run runs n = Some r \<and> green_run r head)"
  using assms
  by (auto simp: observe_required_def missingObservation_def isCheckPassing_def liftCi_def toObservation_def
      verdictFromRun_success res_simps split: option.splits sum.splits if_splits)

lemma observeInternal_Inr:
  assumes "observeInternal a required = Inr ev"
  obtains pr runs combined firsts extras where "ca_auth a" "ca_pr a = Inr pr"
    "ca_runs a (ps_headSha pr) = Inr runs" "ps_headSha pr = ce_headSha ev"
    "mapE (observe_required runs (ce_headSha ev) combined) required = Inr firsts"
    "ev = evidence_of (ce_headSha ev) (firsts @ extras) required"
  using assms
  by (auto simp: observeInternal_def res_simps fetchPr_def fetchCheckRuns_def liftCi_def gitSha_def evidence_of_def
      split: sum.splits client_error.splits if_splits)

text \<open>C25: Only a green newest run counts. When the checks of a pull request could be observed, the evidence
  is for the head commit GitHub reports, and its overall verdict is success exactly when for every
  required name the newest run of that name ran against that head (or names no commit), is completed,
  and concluded success; a run of another commit, a missing, skipped, neutral or unfinished one never
  makes it so.\<close>

theorem observed_success_iff:
  assumes "observeInternal a required = Inr ev" and "ca_pr a = Inr pr" and "ca_runs a (ps_headSha pr) = Inr runs"
  shows "ce_headSha ev = ps_headSha pr \<and>
    (ce_overallVerdict ev = Ci_success \<longleftrightarrow>
       (\<forall>n\<in>set required. \<exists>r. newest_run runs n = Some r \<and> green_run r (ps_headSha pr)))"
proof -
  obtain combined firsts extras where h: "ps_headSha pr = ce_headSha ev"
    and firsts: "mapE (observe_required runs (ce_headSha ev) combined) required = Inr firsts"
    and ev: "ev = evidence_of (ce_headSha ev) (firsts @ extras) required"
    using observeInternal_Inr [OF assms(1)] assms(2,3) by (metis sum.inject(2))
  have "(\<exists>c. findCheck (firsts @ extras) n = Some c \<and> isCheckPassing c) \<longleftrightarrow>
      (\<exists>r. newest_run runs n = Some r \<and> green_run r (ce_headSha ev))" if "n \<in> set required" for n
    using find_required [OF firsts that] observe_required_passing by (fastforce simp: findCheck_append)
  moreover have "ce_overallVerdict ev = classifyOverall (firsts @ extras) required"
    by (subst ev) (simp add: evidence_of_def)
  ultimately show ?thesis using h by (simp add: classifyOverall_success)
qed

section \<open>Waiting ends at the deadline\<close>




section \<open>Repair is bounded\<close>

definition repaired_ok :: "ci_env \<Rightarrow> string list \<Rightarrow> remote_ci_error + ci_repair_outcome \<Rightarrow> nat \<Rightarrow> bool" where
  "repaired_ok e required r n \<longleftrightarrow> (\<forall>out. r = Inr out \<longrightarrow>
     co_status out \<noteq> Ci_base_failure \<and>
     (co_status out = Ci_repaired \<longrightarrow> 0 < n \<and> ce_overallVerdict (co_evidence out) = Ci_success \<and>
        observeInternal (cv_answer e n) required = Inr (co_evidence out)))"

lemma ci_iteration_done:
  assumes "ci_iteration e required lease s = Ci_done r n"
  shows "n = cs_runs s \<or> 0 < bu_remaining (cs_budget s) \<and> n = Suc (cs_runs s)" and "repaired_ok e required r n"
  using assms
  by (auto simp: ci_iteration_def Let_def repairOutcome_def repaired_ok_def
      split: if_splits option.splits sum.splits)

lemma ci_iteration_again:
  assumes "ci_iteration e required lease s = Ci_again s'"
  shows "0 < bu_remaining (cs_budget s) \<and> cs_runs s' = Suc (cs_runs s) \<and>
    consume (cs_budget s) = Inr (cs_budget s')"
  using assms
  by (auto simp: ci_iteration_def Let_def split: if_splits option.splits sum.splits)

lemma ci_loop_bounded:
  assumes "budget_ok (cs_budget s)"
  shows "\<exists>r n. ci_loop e required lease s = Some (r, n) \<and>
     int n \<le> int (cs_runs s) + bu_remaining (cs_budget s) \<and> repaired_ok e required r n"
  using assms
proof (induction "nat (bu_remaining (cs_budget s))" arbitrary: s rule: less_induct)
  case less
  note unfold = ci_loop.simps [of e required lease s]
  show ?case
  proof (cases "ci_iteration e required lease s")
    case (Ci_done r n)
    have "int n \<le> int (cs_runs s) + bu_remaining (cs_budget s)"
      using ci_iteration_done(1) [OF Ci_done] less.prems by (auto simp: budget_ok_def)
    then show ?thesis using ci_iteration_done(2) [OF Ci_done] Ci_done by (simp add: unfold)
  next
    case (Ci_again s')
    have pos: "0 < bu_remaining (cs_budget s)" and runs: "cs_runs s' = Suc (cs_runs s)"
      and c: "consume (cs_budget s) = Inr (cs_budget s')"
      using ci_iteration_again [OF Ci_again] by auto
    have ok: "budget_ok (cs_budget s')" and rem: "bu_remaining (cs_budget s') = bu_remaining (cs_budget s) - 1"
      using consume_Inr [OF c] less.prems pos by (auto simp: budget_ok_def)
    then obtain r n where "ci_loop e required lease s' = Some (r, n)"
      "int n \<le> int (cs_runs s') + bu_remaining (cs_budget s')" "repaired_ok e required r n"
      using less.hyps [OF _ ok] pos by auto
    then show ?thesis using Ci_again runs rem by (auto simp: unfold)
  qed
qed

text \<open>C26: Repairing a red pull request is bounded and honest. From a budget of createRetryBudget,
  attemptCiRepair returns after at most remaining runs of the repair harness. It says repaired
  without a run only when no required check of the given evidence was red, and after a run only with
  the evidence of the observation that followed the last push, whose overall verdict is success. It
  says base_failure only without running any repair, when every red required check is red on the
  base as well.\<close>

theorem ci_repair_bounded:
  assumes "budget_ok budget"
  shows "\<exists>r n. attemptCiRepair e required lease ev budget = Some (r, n) \<and> int n \<le> bu_remaining budget \<and>
     (\<forall>out. r = Inr out \<longrightarrow> co_status out = Ci_repaired \<longrightarrow>
        n = 0 \<and> co_evidence out = ev \<and> failingRequiredChecks ev required = [] \<or>
        0 < n \<and> ce_overallVerdict (co_evidence out) = Ci_success \<and>
        observeInternal (cv_answer e n) required = Inr (co_evidence out)) \<and>
     (\<forall>out. r = Inr out \<longrightarrow> co_status out = Ci_base_failure \<longrightarrow>
        n = 0 \<and> (\<exists>b. observeBase (cv_answer e 0) required = Inr b \<and>
          (\<forall>name\<in>set (failingRequiredChecks ev required). isBaseFailure name ev b)))"
proof -
  let ?failing = "failingRequiredChecks ev required"
  let ?based = "case observeBase (cv_answer e 0) required of Inl _ \<Rightarrow> False
      | Inr b \<Rightarrow> list_all (\<lambda>name. isBaseFailure name ev b) ?failing"
  have rem: "0 \<le> bu_remaining budget" using assms by (auto simp: budget_ok_def)
  consider "?failing = []" | "?failing \<noteq> []" "?based" | "?failing \<noteq> []" "\<not> ?based" by blast
  then show ?thesis
  proof cases
    case 1
    then show ?thesis using rem by (simp add: attemptCiRepair_def repairOutcome_def)
  next
    case 2
    then obtain b where "observeBase (cv_answer e 0) required = Inr b"
      "list_all (\<lambda>name. isBaseFailure name ev b) ?failing"
      by (cases "observeBase (cv_answer e 0) required") auto
    then show ?thesis using 2 rem by (simp add: attemptCiRepair_def repairOutcome_def list_all_iff)
  next
    case 3
    let ?s = "\<lparr>cs_budget = budget, cs_priorSignatures = [], cs_attempts = 0, cs_current = ev,
       cs_failing = ?failing, cs_runs = 0\<rparr>"
    have "attemptCiRepair e required lease ev budget = ci_loop e required lease ?s"
      using 3 by (simp add: attemptCiRepair_def Let_def)
    moreover obtain r n where "ci_loop e required lease ?s = Some (r, n)"
      "int n \<le> bu_remaining budget" "repaired_ok e required r n"
      using ci_loop_bounded [of ?s e required lease] assms by auto
    ultimately show ?thesis by (auto simp: repaired_ok_def)
  qed
qed

section \<open>Sample runs\<close>

definition sampleSha :: "char \<Rightarrow> string" where
  "sampleSha c = replicate 40 c"

definition sampleRun :: "string \<Rightarrow> run_conclusion \<Rightarrow> char \<Rightarrow> check_run" where
  "sampleRun name c head = \<lparr>cr_name = name, cr_headSha = sampleSha head, cr_status = Run_completed,
     cr_conclusion = Some c, cr_completedAt = None, cr_htmlUrl = None\<rparr>"

text \<open>The head is \<open>h\<close>, the base is \<open>b\<close>; the runs are those of the head.\<close>

definition sampleAnswer :: "char \<Rightarrow> check_run list \<Rightarrow> ci_answer" where
  "sampleAnswer h runs = \<lparr>ca_auth = True,
     ca_pr = Inr \<lparr>ps_headSha = sampleSha h, ps_baseSha = sampleSha (CHR ''b'')\<rparr>,
     ca_runs = (\<lambda>sha. if sha = sampleSha h then Inr runs else Inr []),
     ca_combined = (\<lambda>_. Inr Comb_success)\<rparr>"

definition redAnswer :: "char \<Rightarrow> string \<Rightarrow> ci_answer" where
  "redAnswer h name = sampleAnswer h [sampleRun name C_failure h]"

definition repairedBy :: "string list \<Rightarrow> string \<Rightarrow> repair_outcome option" where
  "repairedBy failing head = Some \<lparr>ro_nodeId = ''n'', ro_treeId = ''t'', ro_status = Repaired,
     ro_attempts = [], ro_budget = \<lparr>bu_nodeBudget = 3, bu_consumed = 0, bu_ceiling = 3, bu_remaining = 3\<rparr>,
     ro_decision = None, ro_attention = None\<rparr>"

definition sampleBudget :: retry_budget where
  "sampleBudget = \<lparr>bu_nodeBudget = 3, bu_consumed = 0, bu_ceiling = 3, bu_remaining = 3\<rparr>"

text \<open>Green after the first repair.\<close>

definition sampleCi :: ci_env where
  "sampleCi = \<lparr>cv_answer = (\<lambda>n. if n = 0 then redAnswer (CHR ''a'') ''ci''
       else sampleAnswer (CHR ''c'') [sampleRun ''ci'' C_success (CHR ''c''), sampleRun ''ci'' C_failure (CHR ''c'')]),
     cv_now = (\<lambda>n. int n), cv_repair = (\<lambda>_. repairedBy), cv_push = (\<lambda>_ _. True)\<rparr>"

definition redEvidence :: ci_evidence where
  "redEvidence = projr (observeInternal (redAnswer (CHR ''a'') ''ci'') [''ci''])"

definition greenEvidence :: ci_evidence where
  "greenEvidence = projr (observeInternal (cv_answer sampleCi 1) [''ci''])"

theorem observed_success_iff_witness:
  "ce_overallVerdict greenEvidence = Ci_success \<and>
   (\<exists>r. newest_run [sampleRun ''ci'' C_success (CHR ''c''), sampleRun ''ci'' C_failure (CHR ''c'')] ''ci'' = Some r \<and>
      green_run r (sampleSha (CHR ''c'')))"
proof -
  have ob: "observeInternal (cv_answer sampleCi 1) [''ci''] = Inr greenEvidence"
    unfolding greenEvidence_def by (rule Inr_projr) code_simp
  have pr: "ca_pr (cv_answer sampleCi 1) =
      Inr \<lparr>ps_headSha = sampleSha (CHR ''c''), ps_baseSha = sampleSha (CHR ''b'')\<rparr>"
    by code_simp
  have rs: "ca_runs (cv_answer sampleCi 1) (ps_headSha
        \<lparr>ps_headSha = sampleSha (CHR ''c''), ps_baseSha = sampleSha (CHR ''b'')\<rparr>) =
      Inr [sampleRun ''ci'' C_success (CHR ''c''), sampleRun ''ci'' C_failure (CHR ''c'')]"
    by code_simp
  have "ce_overallVerdict greenEvidence = Ci_success" by code_simp
  then show ?thesis using observed_success_iff [OF ob pr rs] by simp
qed


theorem ci_repair_bounded_witness:
  "\<exists>r n. attemptCiRepair sampleCi [''ci''] None redEvidence sampleBudget = Some (r, n) \<and> int n \<le> 3"
proof -
  have ok: "budget_ok sampleBudget" by code_simp
  show ?thesis
    using ci_repair_bounded [OF ok, of sampleCi "[''ci'']" None redEvidence] by (auto simp: sampleBudget_def)
qed

lemma sample_repair_succeeds:
  "map_option (map_sum id (\<lambda>out. (co_status out, co_evidence out)) \<circ> fst)
     (attemptCiRepair sampleCi [''ci''] None redEvidence sampleBudget) =
   Some (Inr (Ci_repaired, greenEvidence))"
  by code_simp

text \<open>
  The comment over the loop says that the same failing set after a repaired re-push is detected as no
  progress. The set the run started from is not among the recorded signatures: with one check red
  from the start to the end, two repairs are run before the loop gives up.
\<close>

definition stuckCi :: ci_env where
  "stuckCi = sampleCi\<lparr>cv_answer := (\<lambda>n. redAnswer (CHR ''a'') ''ci'')\<rparr>"

lemma unchanged_failure_costs_two_repairs:
  "map_option (map_prod (map_sum id co_status) id)
     (attemptCiRepair stuckCi [''ci''] None redEvidence sampleBudget) = Some (Inr Ci_no_progress, 2)"
  by code_simp

text \<open>
  Every push of a run carries the lease the run was started with. A push manager that asserts the
  lease against the branch, as \<open>assertLeaseSatisfied\<close> does, accepts the first and refuses the second,
  because the first moved the branch: a run that needs a second repair ends in \<open>push_failed\<close>.
\<close>

definition leasedPush :: "nat \<Rightarrow> string option \<Rightarrow> bool" where
  "leasedPush n lease \<longleftrightarrow> is_ok (assertLeaseSatisfied (samplePush\<lparr>pi_expectedRemoteHeadSha := lease\<rparr>)
     (Some (sampleSha (if n = 0 then CHR ''a'' else CHR ''c''))))"

definition leasedCi :: ci_env where
  "leasedCi = sampleCi\<lparr>cv_push := leasedPush,
     cv_answer := (\<lambda>n. if n = 0 then redAnswer (CHR ''a'') ''ci''
       else if n = 1 then sampleAnswer (CHR ''c'')
         [sampleRun ''ci'' C_success (CHR ''c''), sampleRun ''lint'' C_failure (CHR ''c'')]
       else sampleAnswer (CHR ''d'')
         [sampleRun ''ci'' C_success (CHR ''d''), sampleRun ''lint'' C_success (CHR ''d'')])\<rparr>"

lemma second_push_refused:
  "map_option (map_prod (map_sum id co_status) id)
     (attemptCiRepair leasedCi [''ci'', ''lint''] (Some (sampleSha (CHR ''a''))) redEvidence sampleBudget) =
   Some (Inl Ci_push_failed, 2)"
  by code_simp

end
