(* ===== verification/Pull_Requests.thy ===== *)
theory Pull_Requests
  imports Stack_Manager Remote_CI
begin

text \<open>
  \<^verbatim>\<open>packages/adapters/src/github-pull-request.ts\<close>: one active pull request per head branch, the review
  state of a pull request against its head, and the summary of its checks. The GitHub client is a
  parameter over a world of its own: it answers reads and may change the world when it creates or
  updates. Times are clock readings, not ISO texts.
\<close>

section \<open>What GitHub answers\<close>

datatype pr_error =
    Prm_not_found | Multiple_open_prs | Review_fetch_failed | Prm_check_fetch_failed
  | Create_failed | Update_failed | Prm_auth_failed | Prm_api_error

text \<open>
  How a port can throw: a \<open>PullRequestError\<close> of its own, a \<open>GitHubClientError\<close> with its code (of which
  only two matter), or anything else.
\<close>

datatype client_failure = Own_error pr_error | Client_auth | Client_not_found | Client_other | Other_throw

datatype github_review_state = APPROVED | CHANGES_REQUESTED | COMMENTED | DISMISSED | PENDING

record review =
  vw_id :: int
  vw_login :: string
  vw_typeBot :: bool
  vw_state :: github_review_state
  vw_submittedAt :: string
  vw_commitId :: string

record pr_input =
  pn_repositoryFullName :: string
  pn_bookmark :: string
  pn_baseBranch :: string
  pn_title :: string
  pn_body :: "string option"
  pn_draft :: bool

datatype pr_action = Created | Updated

record pr_receipt =
  pq_repositoryFullName :: string
  pq_prNumber :: int
  pq_bookmark :: string
  pq_baseBranch :: string
  pq_title :: string
  pq_headSha :: string
  pq_action :: pr_action
  pq_htmlUrl :: string

datatype review_state = Rs_approved | Rs_stale | Rs_bot | Rs_pending

record approval_summary =
  as_reviewId :: int
  as_userLogin :: string
  as_submittedAt :: string
  as_fresh :: bool
  as_isBot :: bool

record review_observation =
  ro_repositoryFullName :: string
  ro_prNumber :: int
  ro_headSha :: string
  ro_state :: review_state
  ro_freshApprovals :: "approval_summary list"
  ro_staleApprovals :: "approval_summary list"
  ro_botApprovals :: "approval_summary list"
  ro_observedAt :: int

datatype check_summary_state = Cs_pass | Cs_fail | Cs_pending | Cs_missing

record check_summary =
  cu_repositoryFullName :: string
  cu_prNumber :: int
  cu_headSha :: string
  cu_state :: check_summary_state
  cu_totalCheckRuns :: nat
  cu_failingNames :: "string list"
  cu_pendingNames :: "string list"
  cu_observedAt :: int

record 'w pr_port =
  pp_client :: "'w \<Rightarrow> client_failure + unit"
  pp_listOpen :: "'w \<Rightarrow> string \<Rightarrow> client_failure + pull_request list"
  pp_create :: "pr_input \<Rightarrow> 'w \<Rightarrow> (client_failure + pull_request) \<times> 'w"
  pp_update :: "int \<Rightarrow> pr_input \<Rightarrow> 'w \<Rightarrow> (client_failure + pull_request) \<times> 'w"
  pp_get :: "'w \<Rightarrow> int \<Rightarrow> client_failure + pull_request"
  pp_reviews :: "'w \<Rightarrow> int \<Rightarrow> client_failure + review list"
  pp_runs :: "'w \<Rightarrow> string \<Rightarrow> client_failure + check_run list"
  pp_combined :: "'w \<Rightarrow> string \<Rightarrow> client_failure + combined_state \<times> nat"
  pp_identity :: "'w \<Rightarrow> client_failure + string"
  pp_now :: "'w \<Rightarrow> int"

section \<open>Validation and wrapping\<close>

definition branchNamePattern :: "string \<Rightarrow> bool" where
  "branchNamePattern s \<longleftrightarrow> \<not> js_includes s ''..'' \<and> \<not> ends_with ''.'' s \<and> s \<noteq> [] \<and> alnum (hd s) \<and>
     list_all (\<lambda>c. alnum c \<or> c \<in> set ''._/-'') (tl s)"

definition validateRepository :: "string \<Rightarrow> pr_error + unit" where
  "validateRepository repo = guardE (repositoryFullNamePattern repo) Prm_api_error"

definition validatePullRequestInput :: "pr_input \<Rightarrow> pr_error + unit" where
  "validatePullRequestInput i =
     bindE (validateRepository (pn_repositoryFullName i)) (\<lambda>_.
     bindE (guardE (branchNamePattern (pn_bookmark i)) Prm_api_error) (\<lambda>_.
     bindE (guardE (branchNamePattern (pn_baseBranch i)) Prm_api_error) (\<lambda>_.
     guardE (length (pn_title i) \<noteq> 0) Prm_api_error)))"

fun prm_wrapAuth :: "client_failure \<Rightarrow> pr_error" where
  "prm_wrapAuth (Own_error e) = e"
| "prm_wrapAuth _ = Prm_auth_failed"

fun prm_wrapClient :: "pr_error \<Rightarrow> client_failure \<Rightarrow> pr_error" where
  "prm_wrapClient code (Own_error e) = e"
| "prm_wrapClient code Client_auth = Prm_auth_failed"
| "prm_wrapClient code _ = code"

fun wrapE :: "('f \<Rightarrow> 'e) \<Rightarrow> 'f + 'a \<Rightarrow> 'e + 'a" where
  "wrapE w (Inl f) = Inl (w f)"
| "wrapE w (Inr x) = Inr x"

lemma wrapE_Inr_iff [res_simps]: "wrapE w m = Inr x \<longleftrightarrow> m = Inr x"
  by (cases m) auto

definition prm_acquireClient :: "'w pr_port \<Rightarrow> 'w \<Rightarrow> pr_error + unit" where
  "prm_acquireClient p w = wrapE prm_wrapAuth (pp_client p w)"

definition listOpenPrs :: "'w pr_port \<Rightarrow> 'w \<Rightarrow> string \<Rightarrow> pr_error + pull_request list" where
  "listOpenPrs p w headFilter = wrapE (prm_wrapClient Prm_api_error) (pp_listOpen p w headFilter)"

definition createNewPr :: "'w pr_port \<Rightarrow> pr_input \<Rightarrow> 'w \<Rightarrow> (pr_error + pull_request) \<times> 'w" where
  "createNewPr p i w = (case pp_create p i w of (r, w') \<Rightarrow> (wrapE (prm_wrapClient Create_failed) r, w'))"

definition updateExistingPr :: "'w pr_port \<Rightarrow> pr_input \<Rightarrow> int \<Rightarrow> 'w \<Rightarrow> (pr_error + pull_request) \<times> 'w" where
  "updateExistingPr p i n w = (case pp_update p n i w of (r, w') \<Rightarrow> (wrapE (prm_wrapClient Update_failed) r, w'))"

definition prm_fetchPr :: "'w pr_port \<Rightarrow> 'w \<Rightarrow> int \<Rightarrow> pr_error + pull_request" where
  "prm_fetchPr p w n = (case pp_get p w n of
      Inl Client_not_found \<Rightarrow> Inl Prm_not_found
    | r \<Rightarrow> wrapE (prm_wrapClient Prm_api_error) r)"

definition fetchReviews :: "'w pr_port \<Rightarrow> 'w \<Rightarrow> int \<Rightarrow> pr_error + review list" where
  "fetchReviews p w n = wrapE (prm_wrapClient Review_fetch_failed) (pp_reviews p w n)"

definition prm_fetchCheckRuns :: "'w pr_port \<Rightarrow> 'w \<Rightarrow> string \<Rightarrow> pr_error + check_run list" where
  "prm_fetchCheckRuns p w sha = wrapE (prm_wrapClient Prm_check_fetch_failed) (pp_runs p w sha)"

definition prm_fetchCombinedStatus :: "'w pr_port \<Rightarrow> 'w \<Rightarrow> string \<Rightarrow> pr_error + combined_state \<times> nat" where
  "prm_fetchCombinedStatus p w sha = (case pp_combined p w sha of
      Inl Client_not_found \<Rightarrow> Inr (Comb_pending, 0)
    | r \<Rightarrow> wrapE (prm_wrapClient Prm_check_fetch_failed) r)"

section \<open>One active pull request per branch\<close>

definition toReceipt :: "pr_input \<Rightarrow> pull_request \<Rightarrow> pr_action \<Rightarrow> pr_receipt" where
  "toReceipt i pr action =
     \<lparr>pq_repositoryFullName = pn_repositoryFullName i, pq_prNumber = pr_number pr, pq_bookmark = pn_bookmark i,
      pq_baseBranch = pn_baseBranch i, pq_title = pr_title pr, pq_headSha = pr_headSha pr,
      pq_action = action, pq_htmlUrl = pr_htmlUrl pr\<rparr>"

definition owner_part :: "string \<Rightarrow> string" where
  "owner_part repo = takeWhile (\<lambda>c. c \<noteq> CHR ''/'') repo"

definition pr_headFilter :: "pr_input \<Rightarrow> string" where
  "pr_headFilter i = owner_part (pn_repositoryFullName i) @ '':'' @ pn_bookmark i"

definition existing_prs :: "'w pr_port \<Rightarrow> pr_input \<Rightarrow> 'w \<Rightarrow> pr_error + pull_request list" where
  "existing_prs p i w =
     bindE (validatePullRequestInput i) (\<lambda>_.
     bindE (prm_acquireClient p w) (\<lambda>_.
     bindE (listOpenPrs p w (pr_headFilter i)) (\<lambda>prs.
     bindE (guardE (length prs \<le> 1) Multiple_open_prs) (\<lambda>_. Inr prs))))"

definition createOrUpdatePR :: "'w pr_port \<Rightarrow> pr_input \<Rightarrow> 'w \<Rightarrow> (pr_error + pr_receipt) \<times> 'w" where
  "createOrUpdatePR p i w = (case existing_prs p i w of
      Inl e \<Rightarrow> (Inl e, w)
    | Inr [] \<Rightarrow> (case createNewPr p i w of
        (Inl e, w') \<Rightarrow> (Inl e, w')
      | (Inr pr, w') \<Rightarrow> (Inr (toReceipt i pr Created), w'))
    | Inr (pr # _) \<Rightarrow> (case updateExistingPr p i (pr_number pr) w of
        (Inl e, w') \<Rightarrow> (Inl e, w')
      | (Inr pr', w') \<Rightarrow> (Inr (toReceipt i pr' Updated), w')))"

section \<open>Reviews\<close>

text \<open>
  The engine's login, from the option of the manager, its cache or the App. The result comes with the
  cache the call leaves.
\<close>

definition resolveBotIdentity ::
    "'w pr_port \<Rightarrow> string option \<Rightarrow> string option \<Rightarrow> 'w \<Rightarrow> (pr_error + string) \<times> string option" where
  "resolveBotIdentity p given cached w = (case given of
      Some login \<Rightarrow> (Inr login, cached)
    | None \<Rightarrow> (case cached of
        Some login \<Rightarrow> (Inr login, cached)
      | None \<Rightarrow> (case pp_identity p w of
          Inl _ \<Rightarrow> (Inl Prm_auth_failed, None)
        | Inr login \<Rightarrow> (Inr login, Some login))))"

definition isBotReviewer :: "review \<Rightarrow> string \<Rightarrow> bool" where
  "isBotReviewer r botLogin \<longleftrightarrow> vw_typeBot r \<or> vw_login r = botLogin"

definition summary_of :: "string \<Rightarrow> string \<Rightarrow> review \<Rightarrow> approval_summary" where
  "summary_of botLogin head r =
     \<lparr>as_reviewId = vw_id r, as_userLogin = vw_login r, as_submittedAt = vw_submittedAt r,
      as_fresh = (\<not> isBotReviewer r botLogin \<and> vw_commitId r = head), as_isBot = isBotReviewer r botLogin\<rparr>"

text \<open>The loop over the reviews: the fresh, the stale and the bots' approvals, each in order.\<close>

fun review_loop ::
    "string \<Rightarrow> string \<Rightarrow> review list \<Rightarrow> approval_summary list \<times> approval_summary list \<times> approval_summary list" where
  "review_loop botLogin head [] = ([], [], [])"
| "review_loop botLogin head (r # rs) =
     (let (fresh, stale, bots) = review_loop botLogin head rs; s = summary_of botLogin head r in
      if vw_state r \<noteq> APPROVED then (fresh, stale, bots)
      else if as_isBot s then (fresh, stale, s # bots)
      else if as_fresh s then (s # fresh, stale, bots)
      else (fresh, s # stale, bots))"

definition observeReviewState ::
    "'w pr_port \<Rightarrow> string option \<Rightarrow> string option \<Rightarrow> string \<Rightarrow> int \<Rightarrow> 'w \<Rightarrow>
     (pr_error + review_observation) \<times> string option" where
  "observeReviewState p given cached repo n w =
     (case bindE (validateRepository repo) (\<lambda>_. bindE (prm_acquireClient p w) (\<lambda>_. prm_fetchPr p w n)) of
        Inl e \<Rightarrow> (Inl e, cached)
      | Inr pr \<Rightarrow> (case resolveBotIdentity p given cached w of
          (Inl e, cached') \<Rightarrow> (Inl e, cached')
        | (Inr botLogin, cached') \<Rightarrow> (case fetchReviews p w n of
            Inl e \<Rightarrow> (Inl e, cached')
          | Inr reviews \<Rightarrow>
              (let (fresh, stale, bots) = review_loop botLogin (pr_headSha pr) reviews in
               (Inr \<lparr>ro_repositoryFullName = repo, ro_prNumber = n, ro_headSha = pr_headSha pr,
                  ro_state = (if length fresh > 0 then Rs_approved else if length stale > 0 then Rs_stale
                              else if length bots > 0 then Rs_bot else Rs_pending),
                  ro_freshApprovals = fresh, ro_staleApprovals = stale, ro_botApprovals = bots,
                  ro_observedAt = pp_now p w\<rparr>, cached')))))"

section \<open>Checks\<close>

fun FAILING_CONCLUSIONS :: "run_conclusion \<Rightarrow> bool" where
  "FAILING_CONCLUSIONS C_failure = True"
| "FAILING_CONCLUSIONS C_cancelled = True"
| "FAILING_CONCLUSIONS C_timed_out = True"
| "FAILING_CONCLUSIONS C_action_required = True"
| "FAILING_CONCLUSIONS _ = False"

text \<open>The names a run adds to the failing and to the pending ones.\<close>

definition categorizeCheckRun :: "check_run \<Rightarrow> string list \<times> string list" where
  "categorizeCheckRun r =
     (if cr_status r \<noteq> Run_completed then ([], [cr_name r])
      else (case cr_conclusion r of
        None \<Rightarrow> ([], [cr_name r])
      | Some c \<Rightarrow> if FAILING_CONCLUSIONS c then ([cr_name r], []) else ([], [])))"

definition observeChecks :: "'w pr_port \<Rightarrow> string \<Rightarrow> int \<Rightarrow> 'w \<Rightarrow> pr_error + check_summary" where
  "observeChecks p repo n w =
     bindE (validateRepository repo) (\<lambda>_.
     bindE (prm_acquireClient p w) (\<lambda>_.
     bindE (prm_fetchPr p w n) (\<lambda>pr.
     bindE (prm_fetchCheckRuns p w (pr_headSha pr)) (\<lambda>runs.
     bindE (prm_fetchCombinedStatus p w (pr_headSha pr)) (\<lambda>(combined, totalCount).
     let failing = concat (map (fst \<circ> categorizeCheckRun) runs);
         pending = concat (map (snd \<circ> categorizeCheckRun) runs);
         hasAny = (length runs > 0 \<or> totalCount > 0)
     in Inr \<lparr>cu_repositoryFullName = repo, cu_prNumber = n, cu_headSha = pr_headSha pr,
        cu_state = (if \<not> hasAny then Cs_missing
          else if length failing > 0 \<or> combined = Comb_failure \<or> combined = Comb_error then Cs_fail
          else if length pending > 0 \<or> combined = Comb_pending then Cs_pending else Cs_pass),
        cu_totalCheckRuns = length runs, cu_failingNames = failing, cu_pendingNames = pending,
        cu_observedAt = pp_now p w\<rparr>)))))"


section \<open>What the manager guarantees\<close>

definition approval_by :: "(review \<Rightarrow> bool) \<Rightarrow> review list \<Rightarrow> bool" where
  "approval_by q reviews \<longleftrightarrow> (\<exists>r\<in>set reviews. vw_state r = APPROVED \<and> q r)"

lemma review_loop_filter:
  "review_loop b h rs =
     (map (summary_of b h) (filter (\<lambda>r. vw_state r = APPROVED \<and> \<not> isBotReviewer r b \<and> vw_commitId r = h) rs),
      map (summary_of b h) (filter (\<lambda>r. vw_state r = APPROVED \<and> \<not> isBotReviewer r b \<and> vw_commitId r \<noteq> h) rs),
      map (summary_of b h) (filter (\<lambda>r. vw_state r = APPROVED \<and> isBotReviewer r b) rs))"
  by (induction rs) (auto simp: Let_def summary_of_def)

lemma filter_length_pos: "0 < length (filter p xs) \<longleftrightarrow> (\<exists>x\<in>set xs. p x)"
  by (induction xs) auto

text \<open>A success of the observation, taken apart.\<close>

lemma observed_review:
  assumes "observeReviewState p given cached repo n w = (Inr ob, cached')"
  obtains pr login reviews where
    "pp_get p w n = Inr pr"
    "resolveBotIdentity p given cached w = (Inr login, cached')"
    "pp_reviews p w n = Inr reviews"
    "ro_headSha ob = pr_headSha pr"
    "ro_prNumber ob = n"
    "ro_state ob = (if approval_by (\<lambda>r. \<not> isBotReviewer r login \<and> vw_commitId r = pr_headSha pr) reviews then Rs_approved
       else if approval_by (\<lambda>r. \<not> isBotReviewer r login) reviews then Rs_stale
       else if approval_by (\<lambda>r. True) reviews then Rs_bot else Rs_pending)"
proof -
  note split = prod.splits sum.splits client_failure.splits if_splits option.splits
  from assms obtain pr login where pr: "pp_get p w n = Inr pr"
    and login: "resolveBotIdentity p given cached w = (Inr login, cached')"
    unfolding observeReviewState_def prm_fetchPr_def
    by (auto simp: res_simps split: split)
  with assms obtain reviews where reviews: "pp_reviews p w n = Inr reviews"
    unfolding observeReviewState_def fetchReviews_def
    by (auto simp: res_simps split: split)
  show thesis
  proof (rule that [OF pr login reviews])
    show "ro_headSha ob = pr_headSha pr" "ro_prNumber ob = n"
      using assms pr login reviews unfolding observeReviewState_def prm_fetchPr_def fetchReviews_def
      by (auto simp: review_loop_filter res_simps split: split)
    show "ro_state ob = (if approval_by (\<lambda>r. \<not> isBotReviewer r login \<and> vw_commitId r = pr_headSha pr) reviews then Rs_approved
       else if approval_by (\<lambda>r. \<not> isBotReviewer r login) reviews then Rs_stale
       else if approval_by (\<lambda>r. True) reviews then Rs_bot else Rs_pending)"
      using assms pr login reviews unfolding observeReviewState_def prm_fetchPr_def fetchReviews_def approval_by_def
      by (auto simp: review_loop_filter res_simps filter_length_pos filter_empty_conv split: split)
  qed
qed

text \<open>Only an independent human approval of the very commit at the head makes a pull request approved.
  A successful observation reports the head it read, and its state is: approved if some review approves that
  head and is not by a bot or by the engine itself; otherwise stale if a human approved another commit;
  otherwise bot if only bots approved; otherwise pending.\<close>

theorem review_state_by_priority:
  assumes "observeReviewState p given cached repo n w = (Inr ob, cached')"
  shows "\<exists>pr login reviews. pp_get p w n = Inr pr \<and> fst (resolveBotIdentity p given cached w) = Inr login \<and>
     pp_reviews p w n = Inr reviews \<and> ro_headSha ob = pr_headSha pr \<and>
     ro_state ob = (if approval_by (\<lambda>r. \<not> isBotReviewer r login \<and> vw_commitId r = pr_headSha pr) reviews then Rs_approved
       else if approval_by (\<lambda>r. \<not> isBotReviewer r login) reviews then Rs_stale
       else if approval_by (\<lambda>r. True) reviews then Rs_bot else Rs_pending)"
  using assms by (elim observed_review) auto

section \<open>One active pull request\<close>

text \<open>
  What the manager relies on of GitHub: a new pull request is open and listed for its head, an update
  changes the pull request of that number and no other, and both answer the pull request as it then is.
\<close>

definition faithful_port :: "'w pr_port \<Rightarrow> bool" where
  "faithful_port p \<longleftrightarrow>
     (\<forall>i w pr w' old. pp_create p i w = (Inr pr, w') \<longrightarrow> pp_listOpen p w (pr_headFilter i) = Inr old \<longrightarrow>
        pp_listOpen p w' (pr_headFilter i) = Inr (old @ [pr]) \<and> pr_baseRefName pr = pn_baseBranch i) \<and>
     (\<forall>i w n pr w' h old. pp_update p n i w = (Inr pr, w') \<longrightarrow> pp_listOpen p w h = Inr old \<longrightarrow>
        pp_listOpen p w' h = Inr (map (\<lambda>q. if pr_number q = n then pr else q) old) \<and>
        pr_number pr = n \<and> pr_baseRefName pr = pn_baseBranch i)"

lemma existing_prs_Inr:
  "existing_prs p i w = Inr prs \<Longrightarrow> pp_listOpen p w (pr_headFilter i) = Inr prs \<and> length prs \<le> 1"
  by (auto simp: existing_prs_def listOpenPrs_def res_simps)

text \<open>C33: One active pull request per branch. When creating or updating succeeds, the head branch has
  exactly one open pull request, it is the one the receipt names, with the base that was asked for; and
  if the branch already had one, that one was updated and none was created.\<close>

theorem one_active_pull_request:
  assumes faithful: "faithful_port p" and run: "createOrUpdatePR p i w = (Inr rc, w')"
  shows "\<exists>old pr. pp_listOpen p w (pr_headFilter i) = Inr old \<and> pp_listOpen p w' (pr_headFilter i) = Inr [pr] \<and>
     pq_prNumber rc = pr_number pr \<and> pq_headSha rc = pr_headSha pr \<and> pr_baseRefName pr = pn_baseBranch i \<and>
     (if old = [] then pq_action rc = Created
      else pq_action rc = Updated \<and> map pr_number old = [pr_number pr])"
proof -
  obtain old where old: "existing_prs p i w = Inr old"
    using run by (auto simp: createOrUpdatePR_def split: sum.splits)
  note list = existing_prs_Inr [OF old]
  show ?thesis
  proof (cases old)
    case Nil
    obtain pr where pr: "pp_create p i w = (Inr pr, w')" and rc: "rc = toReceipt i pr Created"
      using run old Nil by (auto simp: createOrUpdatePR_def createNewPr_def res_simps split: prod.splits sum.splits)
    have "pp_listOpen p w' (pr_headFilter i) = Inr [pr] \<and> pr_baseRefName pr = pn_baseBranch i"
      using faithful pr list Nil unfolding faithful_port_def by fastforce
    then show ?thesis using rc list Nil by (auto simp: toReceipt_def)
  next
    case (Cons first rest)
    obtain pr where pr: "pp_update p (pr_number first) i w = (Inr pr, w')" and rc: "rc = toReceipt i pr Updated"
      using run old Cons by (auto simp: createOrUpdatePR_def updateExistingPr_def res_simps split: prod.splits sum.splits)
    have single: "old = [first]" using list Cons by auto
    have "pp_listOpen p w' (pr_headFilter i) = Inr [pr] \<and> pr_number pr = pr_number first \<and>
        pr_baseRefName pr = pn_baseBranch i"
      using faithful pr list single unfolding faithful_port_def by fastforce
    then show ?thesis using rc list single by (auto simp: toReceipt_def)
  qed
qed


section \<open>A concrete GitHub\<close>

definition samplePrInput :: pr_input where
  "samplePrInput = \<lparr>pn_repositoryFullName = ''tprei/minions'', pn_bookmark = ''minions/a'',
     pn_baseBranch = ''main'', pn_title = ''change'', pn_body = None, pn_draft = False\<rparr>"

definition sampleReview :: "string \<Rightarrow> github_review_state \<Rightarrow> string \<Rightarrow> review" where
  "sampleReview login state commit = \<lparr>vw_id = 1, vw_login = login, vw_typeBot = False, vw_state = state,
     vw_submittedAt = [], vw_commitId = commit\<rparr>"

definition new_pr :: "int \<Rightarrow> pr_input \<Rightarrow> pull_request" where
  "new_pr n i = \<lparr>pr_number = n, pr_headRefName = pn_bookmark i, pr_headSha = ''abc'',
     pr_baseRefName = pn_baseBranch i, pr_merged = False, pr_mergeCommitSha = None, pr_mergedAt = None,
     pr_title = pn_title i, pr_htmlUrl = []\<rparr>"

definition samplePort :: "review list \<Rightarrow> check_run list \<Rightarrow> pull_request list pr_port" where
  "samplePort reviews runs = \<lparr>pp_client = (\<lambda>w. Inr ()),
     pp_listOpen = (\<lambda>w h. Inr (filter (\<lambda>q. ''tprei:'' @ pr_headRefName q = h) w)),
     pp_create = (\<lambda>i w. if owner_part (pn_repositoryFullName i) = ''tprei''
        then (let pr = new_pr (int (length w)) i in (Inr pr, w @ [pr])) else (Inl Client_other, w)),
     pp_update = (\<lambda>n i w. (case filter (\<lambda>q. pr_number q = n) w of
        [q] \<Rightarrow> (let pr = q\<lparr>pr_baseRefName := pn_baseBranch i, pr_title := pn_title i\<rparr> in
                (Inr pr, map (\<lambda>q. if pr_number q = n then pr else q) w))
      | _ \<Rightarrow> (Inl Client_not_found, w))),
     pp_get = (\<lambda>w n. case filter (\<lambda>q. pr_number q = n) w of [q] \<Rightarrow> Inr q | _ \<Rightarrow> Inl Client_not_found),
     pp_reviews = (\<lambda>w n. Inr reviews), pp_runs = (\<lambda>w sha. Inr runs),
     pp_combined = (\<lambda>w sha. Inl Client_not_found), pp_identity = (\<lambda>w. Inr ''engine[bot]''),
     pp_now = (\<lambda>w. 0)\<rparr>"

lemma filter_single_head:
  assumes "filter (\<lambda>q. pr_number q = n) w = [q]" and "f (pr :: pull_request) = f q"
  shows "filter (\<lambda>q. f q = h) (map (\<lambda>q. if pr_number q = n then pr else q) w) =
     map (\<lambda>q. if pr_number q = n then pr else q) (filter (\<lambda>q. f q = h) w)"
proof -
  have "x = q" if "x \<in> set w" "pr_number x = n" for x
  proof -
    have "x \<in> set (filter (\<lambda>q. pr_number q = n) w)" using that by simp
    then show ?thesis using assms(1) by simp
  qed
  then show ?thesis using assms(2) by (induction w) auto
qed

lemma samplePort_faithful: "faithful_port (samplePort reviews runs)"
  unfolding faithful_port_def
proof (intro conjI allI impI; (elim conjE)?)
  fix i w pr w' old
  assume "pp_create (samplePort reviews runs) i w = (Inr pr, w')"
    and "pp_listOpen (samplePort reviews runs) w (pr_headFilter i) = Inr old"
  then show "pp_listOpen (samplePort reviews runs) w' (pr_headFilter i) = Inr (old @ [pr])"
    and "pr_baseRefName pr = pn_baseBranch i"
    by (auto simp: samplePort_def new_pr_def pr_headFilter_def Let_def split: if_splits)
next
  fix i w n pr w' h old
  assume up: "pp_update (samplePort reviews runs) n i w = (Inr pr, w')"
    and old: "pp_listOpen (samplePort reviews runs) w h = Inr old"
  obtain q where q: "filter (\<lambda>q. pr_number q = n) w = [q]"
    and pr: "pr = q\<lparr>pr_baseRefName := pn_baseBranch i, pr_title := pn_title i\<rparr>"
    and w': "w' = map (\<lambda>q. if pr_number q = n then pr else q) w"
    using up by (auto simp: samplePort_def Let_def split: list.splits)
  have "q \<in> set (filter (\<lambda>q. pr_number q = n) w)" using q by simp
  then have n: "pr_number q = n" by simp
  show "pp_listOpen (samplePort reviews runs) w' h = Inr (map (\<lambda>q. if pr_number q = n then pr else q) old)"
    using old filter_single_head [OF q, of "\<lambda>q. ''tprei:'' @ pr_headRefName q" pr h] pr w'
    by (auto simp: samplePort_def)
  show "pr_number pr = n" "pr_baseRefName pr = pn_baseBranch i" using pr n by auto
qed

theorem review_state_by_priority_witness:
  "ro_state (projr (fst (observeReviewState (samplePort [sampleReview ''eva'' APPROVED ''abc''] []) None None
      ''tprei/minions'' 0 [new_pr 0 samplePrInput]))) = Rs_approved \<and>
   approval_by (\<lambda>r. \<not> isBotReviewer r ''engine[bot]'' \<and> vw_commitId r = ''abc'') [sampleReview ''eva'' APPROVED ''abc'']"
proof -
  let ?p = "samplePort [sampleReview ''eva'' APPROVED ''abc''] []" and ?w = "[new_pr 0 samplePrInput]"
  obtain ob c where run: "observeReviewState ?p None None ''tprei/minions'' 0 ?w = (Inr ob, c)"
  proof -
    have "is_ok (fst (observeReviewState ?p None None ''tprei/minions'' 0 ?w))" by code_simp
    then show thesis using that
      by (cases "observeReviewState ?p None None ''tprei/minions'' 0 ?w") (auto simp: is_ok_iff)
  qed
  have app: "approval_by (\<lambda>r. \<not> isBotReviewer r ''engine[bot]'' \<and> vw_commitId r = ''abc'') [sampleReview ''eva'' APPROVED ''abc'']"
    by code_simp
  have pr: "pp_get ?p ?w 0 = Inr (new_pr 0 samplePrInput)" by (simp add: samplePort_def new_pr_def)
  have login: "fst (resolveBotIdentity ?p None None ?w) = Inr ''engine[bot]''"
    by (simp add: resolveBotIdentity_def samplePort_def)
  have rev: "pp_reviews ?p ?w 0 = Inr [sampleReview ''eva'' APPROVED ''abc'']" by (simp add: samplePort_def)
  have sha: "pr_headSha (new_pr 0 samplePrInput) = ''abc''" by (simp add: new_pr_def)
  show ?thesis using review_state_by_priority [OF run] pr login rev sha app run by auto
qed

theorem one_active_pull_request_witness:
  "\<exists>pr. pp_listOpen (samplePort [] []) [new_pr 0 samplePrInput] ''tprei:minions/a'' = Inr [pr] \<and> pr_number pr = 0"
proof -
  have run: "createOrUpdatePR (samplePort [] []) samplePrInput [] =
      (Inr (toReceipt samplePrInput (new_pr 0 samplePrInput) Created), [new_pr 0 samplePrInput])"
    by code_simp
  have f: "pr_headFilter samplePrInput = ''tprei:minions/a''" by code_simp
  show ?thesis
    using one_active_pull_request [OF samplePort_faithful run, unfolded f] by (auto simp: toReceipt_def new_pr_def)
qed

section \<open>Behaviour worth knowing\<close>

text \<open>
  A reviewer who approved the head and then asked for changes on the same head still counts: the loop
  looks at approvals only.
\<close>

lemma later_rejection_ignored:
  "ro_state (projr (fst (observeReviewState
     (samplePort [sampleReview ''eva'' APPROVED ''abc'', sampleReview ''eva'' CHANGES_REQUESTED ''abc''] []) None None
      ''tprei/minions'' 0 [new_pr 0 samplePrInput]))) = Rs_approved"
  by code_simp

text \<open>
  The comment of \<open>fetchCombinedStatus\<close> says a missing status endpoint is no signal and must never mask real
  check runs. It is read as pending, so a pull request whose check runs all passed is reported pending.
\<close>

lemma missing_status_masks_passing_runs:
  "cu_state (projr (observeChecks (samplePort [] [\<lparr>cr_name = ''test'', cr_headSha = ''abc'', cr_status = Run_completed,
       cr_conclusion = Some C_success, cr_completedAt = None, cr_htmlUrl = None\<rparr>])
     ''tprei/minions'' 0 [new_pr 0 samplePrInput])) = Cs_pending"
  by code_simp

end
