(* ===== verification/Ruleset.thy ===== *)
theory Ruleset
  imports Prelude
begin

text \<open>
  \<^verbatim>\<open>packages/adapters/src/github-ruleset.ts\<close>: does the branch ruleset of a repository enforce an independent
  human review, installing the ruleset that does, detecting drift, and onboarding. The GitHub App and client
  are a parameter over a world of their own. The parsing of wire objects is the client's; a ruleset keeps its
  \<open>conditions\<close> as the JSON value it came with. Texts of findings and times are left out.
\<close>

section \<open>Policies and rulesets\<close>

datatype ruleset_error =
    Rse_auth_failed | Rse_api_error | Rse_missing | Rse_weak | Rse_engine_eligible | Rse_drift_detected
  | Rse_install_failed | Rse_identity_unresolved

text \<open>
  How a port can throw: a \<open>GitHubRulesetError\<close>, a \<open>GitHubClientError\<close> (is its code \<open>auth_failed\<close>), or
  anything else.
\<close>

datatype ruleset_failure = Rsf_own ruleset_error | Rsf_client bool | Rsf_other

record review_policy =
  po_requireApprovingReviews :: int
  po_dismissStaleReviews :: bool
  po_requireCodeOwnerReviews :: bool
  po_requireLatestPushApproval :: bool
  po_noBypassForEngine :: bool

definition REQUIRED_REVIEW_POLICY :: review_policy where
  "REQUIRED_REVIEW_POLICY = \<lparr>po_requireApprovingReviews = 1, po_dismissStaleReviews = True,
     po_requireCodeOwnerReviews = False, po_requireLatestPushApproval = True, po_noBypassForEngine = True\<rparr>"

definition MINIONS_REVIEW_RULESET_NAME :: string where
  "MINIONS_REVIEW_RULESET_NAME = ''minions-independent-review''"

datatype enforcement = Active | Disabled | Evaluate
datatype ruleset_target = Branch_target | Tag_target
datatype rule_type = Pull_request_rule | Other_rule
datatype actor_type = Repository_role | Integration | Organization_admin | Team | User_actor

record pr_parameters =
  pm_requiredApprovingReviewCount :: int
  pm_dismissStaleReviewsOnPush :: bool
  pm_requireCodeOwnerReviews :: bool
  pm_requireLastPushApproval :: bool
  pm_requiredReviewThreadResolution :: bool

record rule =
  ru_type :: rule_type
  ru_pullRequestParameters :: "pr_parameters option"

record bypass_actor =
  ba_actorId :: int
  ba_actorType :: actor_type

record ruleset_summary =
  rss_id :: int
  rss_name :: string
  rss_target :: ruleset_target
  rss_enforcement :: enforcement

record ruleset_detail =
  rsd_id :: int
  rsd_name :: string
  rsd_rules :: "rule list"
  rsd_bypassActors :: "bypass_actor list"
  rsd_conditions :: json

record ruleset_config =
  rsc_name :: string
  rsc_includeBranches :: "string list"
  rsc_excludeBranches :: "string list"
  rsc_rules :: "rule list"
  rsc_bypassActors :: "bypass_actor list"

datatype ruleset_classification = Enforceable | Ruleset_missing | Ruleset_weak | Engine_eligible

datatype ruleset_finding =
    Missing_pull_request_rule | Approval_count_below_minimum | Stale_reviews_not_dismissed
  | Latest_push_approval_not_required | Code_owner_reviews_mismatch | Enforcement_disabled
  | Engine_bypass_granted

record ruleset_report =
  rr_classification :: ruleset_classification
  rr_findings :: "ruleset_finding list"
  rr_matchedRuleset :: "ruleset_detail option"
  rr_expectedPolicy :: review_policy
  rr_engineAppId :: int
  rr_defaultBranch :: string

datatype install_action = Rs_created | Rs_updated | Rs_unchanged

record ruleset_receipt =
  ri_action :: install_action
  ri_ruleset :: ruleset_detail
  ri_policy :: review_policy
  ri_classification :: ruleset_classification




record 'w ruleset_port =
  rp_client :: "'w \<Rightarrow> ruleset_failure + unit"
  rp_identity :: "'w \<Rightarrow> ruleset_failure + int"
  rp_summaries :: "'w \<Rightarrow> ruleset_failure + ruleset_summary list"
  rp_detail :: "'w \<Rightarrow> int \<Rightarrow> ruleset_failure + ruleset_detail"
  rp_create :: "ruleset_config \<Rightarrow> 'w \<Rightarrow> (ruleset_failure + ruleset_detail) \<times> 'w"
  rp_update :: "int \<Rightarrow> ruleset_config \<Rightarrow> 'w \<Rightarrow> (ruleset_failure + ruleset_detail) \<times> 'w"

section \<open>Calls\<close>

fun rulesetError :: "ruleset_error \<Rightarrow> ruleset_failure \<Rightarrow> ruleset_error" where
  "rulesetError code (Rsf_own e) = e"
| "rulesetError code _ = code"

fun wrapApi :: "ruleset_failure + 'a \<Rightarrow> ruleset_error + 'a" where
  "wrapApi (Inr x) = Inr x"
| "wrapApi (Inl (Rsf_client authFailed)) = Inl (if authFailed then Rse_auth_failed else Rse_api_error)"
| "wrapApi (Inl _) = Inl Rse_api_error"

lemma wrapApi_Inr_iff [res_simps]: "wrapApi m = Inr x \<longleftrightarrow> m = Inr x"
  by (cases m rule: wrapApi.cases) auto

definition ruleset_acquireClient :: "'w ruleset_port \<Rightarrow> 'w \<Rightarrow> ruleset_error + unit" where
  "ruleset_acquireClient p w = (case rp_client p w of Inl f \<Rightarrow> Inl (rulesetError Rse_auth_failed f) | Inr _ \<Rightarrow> Inr ())"

definition resolveEngineBotIdentity :: "'w ruleset_port \<Rightarrow> 'w \<Rightarrow> ruleset_error + int" where
  "resolveEngineBotIdentity p w = (case rp_identity p w of
      Inl f \<Rightarrow> Inl (rulesetError Rse_identity_unresolved f)
    | Inr appId \<Rightarrow> Inr appId)"

definition fetchRulesetSummaries :: "'w ruleset_port \<Rightarrow> 'w \<Rightarrow> ruleset_error + ruleset_summary list" where
  "fetchRulesetSummaries p w = wrapApi (rp_summaries p w)"

definition fetchRulesetDetail :: "'w ruleset_port \<Rightarrow> 'w \<Rightarrow> int \<Rightarrow> ruleset_error + ruleset_detail" where
  "fetchRulesetDetail p w n = wrapApi (rp_detail p w n)"

section \<open>Coverage and matching\<close>

fun json_array_of :: "json \<Rightarrow> json list" where
  "json_array_of (JArr xs) = xs"
| "json_array_of _ = []"

definition json_absent :: "json \<Rightarrow> bool" where
  "json_absent v \<longleftrightarrow> v = JUndefined \<or> v = JNull"

definition branch_ref :: "string \<Rightarrow> string" where
  "branch_ref branch = ''refs/heads/'' @ branch"

definition wildcardCovers :: "string \<Rightarrow> json \<Rightarrow> bool" where
  "wildcardCovers branch entry \<longleftrightarrow>
     entry = JStr ''~DEFAULT_BRANCH'' \<or> entry = JStr ''~ALL'' \<or> entry = JStr (branch_ref branch)"

definition rulesetCoversBranch :: "ruleset_detail \<Rightarrow> string \<Rightarrow> bool" where
  "rulesetCoversBranch d branch =
     (let conditions = rsd_conditions d in
      if json_absent conditions then True
      else if \<not> is_object conditions then False
      else let refName = json_field conditions ''ref_name'' in
      if json_absent refName then True
      else if \<not> is_object refName then False
      else let include = json_array_of (json_field refName ''include'');
               exclude = json_array_of (json_field refName ''exclude'');
               included = (length include = 0 \<or> list_ex (wildcardCovers branch) include);
               excluded = list_ex (\<lambda>entry. entry = JStr (branch_ref branch) \<or> entry = JStr ''~DEFAULT_BRANCH'') exclude
           in included \<and> \<not> excluded)"

definition engineHasBypass :: "ruleset_detail \<Rightarrow> int \<Rightarrow> bool" where
  "engineHasBypass d appId \<longleftrightarrow>
     list_ex (\<lambda>a. ba_actorType a = Integration \<and> ba_actorId a = appId) (rsd_bypassActors d)"

definition findPullRequestRuleset :: "ruleset_detail list \<Rightarrow> ruleset_detail option" where
  "findPullRequestRuleset ds = find_first (\<lambda>d. list_ex (\<lambda>r. ru_type r = Pull_request_rule) (rsd_rules d)) ds"

fun first_parameters :: "rule list \<Rightarrow> pr_parameters option" where
  "first_parameters [] = None"
| "first_parameters (r # rs) =
     (if ru_type r = Pull_request_rule \<and> ru_pullRequestParameters r \<noteq> None then ru_pullRequestParameters r
      else first_parameters rs)"

definition pullRequestParametersOf :: "ruleset_detail \<Rightarrow> pr_parameters option" where
  "pullRequestParametersOf d = first_parameters (rsd_rules d)"

definition collectPolicyFindings :: "ruleset_detail \<Rightarrow> review_policy \<Rightarrow> ruleset_finding list" where
  "collectPolicyFindings d policy = (case first_parameters (rsd_rules d) of
      None \<Rightarrow> [Missing_pull_request_rule]
    | Some ps \<Rightarrow>
        (if pm_requiredApprovingReviewCount ps < po_requireApprovingReviews policy then [Approval_count_below_minimum] else []) @
        (if po_dismissStaleReviews policy \<and> \<not> pm_dismissStaleReviewsOnPush ps then [Stale_reviews_not_dismissed] else []) @
        (if po_requireLatestPushApproval policy \<and> \<not> pm_requireLastPushApproval ps
         then [Latest_push_approval_not_required] else []) @
        (if pm_requireCodeOwnerReviews ps \<noteq> po_requireCodeOwnerReviews policy then [Code_owner_reviews_mismatch] else []))"

definition rulesetMatchesPolicy :: "ruleset_detail \<Rightarrow> review_policy \<Rightarrow> int \<Rightarrow> bool" where
  "rulesetMatchesPolicy d policy appId = (case pullRequestParametersOf d of
      None \<Rightarrow> False
    | Some ps \<Rightarrow>
        if po_noBypassForEngine policy \<and> engineHasBypass d appId then False
        else pm_requiredApprovingReviewCount ps \<ge> po_requireApprovingReviews policy \<and>
          pm_dismissStaleReviewsOnPush ps = po_dismissStaleReviews policy \<and>
          pm_requireLastPushApproval ps = po_requireLatestPushApproval policy \<and>
          pm_requireCodeOwnerReviews ps = po_requireCodeOwnerReviews policy)"

definition classify :: "ruleset_finding list \<Rightarrow> bool \<Rightarrow> ruleset_classification" where
  "classify findings engineBypass =
     (if engineBypass then Engine_eligible
      else if Missing_pull_request_rule \<in> set findings then Ruleset_missing
      else if length findings > 0 then Ruleset_weak
      else Enforceable)"

definition classifyRulesetDetail ::
    "ruleset_detail \<Rightarrow> review_policy \<Rightarrow> int \<Rightarrow> string \<Rightarrow> ruleset_classification" where
  "classifyRulesetDetail d policy appId branch =
     classify (if rulesetCoversBranch d branch then collectPolicyFindings d policy else [Missing_pull_request_rule])
       (po_noBypassForEngine policy \<and> engineHasBypass d appId)"

section \<open>Inspecting\<close>

text \<open>The loop that fetches the candidates and keeps those that cover the branch.\<close>

definition branchCandidates :: "ruleset_summary list \<Rightarrow> ruleset_summary list" where
  "branchCandidates = filter (\<lambda>s. rss_target s = Branch_target \<and> rss_enforcement s = Active)"

definition inspected_details :: "'w ruleset_port \<Rightarrow> string \<Rightarrow> 'w \<Rightarrow> ruleset_error + ruleset_detail list" where
  "inspected_details p branch w =
     bindE (fetchRulesetSummaries p w) (\<lambda>summaries.
     bindE (mapE (\<lambda>s. fetchRulesetDetail p w (rss_id s)) (branchCandidates summaries)) (\<lambda>details.
       Inr (filter (\<lambda>d. rulesetCoversBranch d branch) details)))"

definition inspect_findings :: "review_policy \<Rightarrow> int \<Rightarrow> ruleset_detail list \<Rightarrow> ruleset_finding list" where
  "inspect_findings policy appId details =
     map (\<lambda>_. Engine_bypass_granted) (filter (\<lambda>d. po_noBypassForEngine policy \<and> engineHasBypass d appId) details) @
     (case findPullRequestRuleset details of
        None \<Rightarrow> [Missing_pull_request_rule]
      | Some d \<Rightarrow> collectPolicyFindings d policy)"

definition inspectRuleset :: "'w ruleset_port \<Rightarrow> review_policy \<Rightarrow> string \<Rightarrow> 'w \<Rightarrow> ruleset_error + ruleset_report" where
  "inspectRuleset p policy branch w =
     bindE (ruleset_acquireClient p w) (\<lambda>_.
     bindE (resolveEngineBotIdentity p w) (\<lambda>appId.
     bindE (inspected_details p branch w) (\<lambda>details.
     let findings = inspect_findings policy appId details;
         engineBypass = list_ex (\<lambda>d. po_noBypassForEngine policy \<and> engineHasBypass d appId) details
     in Inr \<lparr>rr_classification = classify findings engineBypass, rr_findings = findings,
          rr_matchedRuleset = findPullRequestRuleset details, rr_expectedPolicy = policy,
          rr_engineAppId = appId, rr_defaultBranch = branch\<rparr>)))"

section \<open>Installing\<close>

fun owned_loop :: "'w ruleset_port \<Rightarrow> string \<Rightarrow> 'w \<Rightarrow> ruleset_summary list \<Rightarrow> ruleset_error + ruleset_detail option" where
  "owned_loop p branch w [] = Inr None"
| "owned_loop p branch w (s # ss) =
     (if rss_name s = MINIONS_REVIEW_RULESET_NAME \<and> rss_target s = Branch_target \<and> rss_enforcement s = Active
      then bindE (fetchRulesetDetail p w (rss_id s)) (\<lambda>d.
           if rulesetCoversBranch d branch then Inr (Some d) else owned_loop p branch w ss)
      else owned_loop p branch w ss)"

definition findOwnedRuleset :: "'w ruleset_port \<Rightarrow> string \<Rightarrow> 'w \<Rightarrow> ruleset_error + ruleset_detail option" where
  "findOwnedRuleset p branch w = bindE (fetchRulesetSummaries p w) (owned_loop p branch w)"

definition policyToRulesetConfig :: "review_policy \<Rightarrow> string \<Rightarrow> ruleset_config" where
  "policyToRulesetConfig policy branch =
     \<lparr>rsc_name = MINIONS_REVIEW_RULESET_NAME, rsc_includeBranches = [branch_ref branch], rsc_excludeBranches = [],
      rsc_rules = [\<lparr>ru_type = Pull_request_rule, ru_pullRequestParameters = Some
        \<lparr>pm_requiredApprovingReviewCount = po_requireApprovingReviews policy,
         pm_dismissStaleReviewsOnPush = po_dismissStaleReviews policy,
         pm_requireCodeOwnerReviews = po_requireCodeOwnerReviews policy,
         pm_requireLastPushApproval = po_requireLatestPushApproval policy,
         pm_requiredReviewThreadResolution = True\<rparr>\<rparr>],
      rsc_bypassActors = []\<rparr>"

definition apply_ruleset ::
    "'w ruleset_port \<Rightarrow> review_policy \<Rightarrow> int \<Rightarrow> ruleset_config \<Rightarrow> ruleset_detail option \<Rightarrow> 'w \<Rightarrow>
     (ruleset_error + install_action \<times> ruleset_detail) \<times> 'w" where
  "apply_ruleset p policy appId config existing w = (case existing of
      None \<Rightarrow> (case rp_create p config w of
        (Inl f, w') \<Rightarrow> (Inl (rulesetError Rse_install_failed f), w')
      | (Inr d, w') \<Rightarrow> (Inr (Rs_created, d), w'))
    | Some d \<Rightarrow>
        if rulesetMatchesPolicy d policy appId then (Inr (Rs_unchanged, d), w)
        else (case rp_update p (rsd_id d) config w of
          (Inl f, w') \<Rightarrow> (Inl (rulesetError Rse_install_failed f), w')
        | (Inr d', w') \<Rightarrow> (Inr (Rs_updated, d'), w')))"

definition installRuleset ::
    "'w ruleset_port \<Rightarrow> review_policy \<Rightarrow> string \<Rightarrow> 'w \<Rightarrow> (ruleset_error + ruleset_receipt) \<times> 'w" where
  "installRuleset p policy branch w =
     (case bindE (ruleset_acquireClient p w) (\<lambda>_.
           bindE (resolveEngineBotIdentity p w) (\<lambda>appId.
           bindE (findOwnedRuleset p branch w) (\<lambda>existing. Inr (appId, existing)))) of
        Inl e \<Rightarrow> (Inl e, w)
      | Inr (appId, existing) \<Rightarrow>
          (case apply_ruleset p policy appId (policyToRulesetConfig policy branch) existing w of
             (Inl e, w') \<Rightarrow> (Inl e, w')
           | (Inr (action, d), w') \<Rightarrow>
               (Inr \<lparr>ri_action = action, ri_ruleset = d, ri_policy = policy,
                  ri_classification = classifyRulesetDetail d policy appId branch\<rparr>, w')))"

section \<open>Drift and onboarding\<close>



definition onboardRepository ::
    "'w ruleset_port \<Rightarrow> review_policy \<Rightarrow> string \<Rightarrow> 'w \<Rightarrow> (ruleset_error + ruleset_receipt \<times> ruleset_classification) \<times> 'w" where
  "onboardRepository p policy branch w = (case installRuleset p policy branch w of
      (Inl e, w') \<Rightarrow> (Inl e, w')
    | (Inr receipt, w') \<Rightarrow> (case inspectRuleset p policy branch w' of
        Inl e \<Rightarrow> (Inl e, w')
      | Inr report \<Rightarrow>
          if rr_classification report = Engine_eligible then (Inl Rse_engine_eligible, w')
          else if rr_classification report \<noteq> Enforceable
          then (Inl (if rr_classification report = Ruleset_missing then Rse_missing else Rse_weak), w')
          else (Inr (receipt, rr_classification report), w')))"

section \<open>What enforceable means\<close>

text \<open>The parameters of a pull-request rule meet the policy.\<close>

definition meets_policy :: "pr_parameters \<Rightarrow> review_policy \<Rightarrow> bool" where
  "meets_policy ps policy \<longleftrightarrow>
     po_requireApprovingReviews policy \<le> pm_requiredApprovingReviewCount ps \<and>
     (po_dismissStaleReviews policy \<longrightarrow> pm_dismissStaleReviewsOnPush ps) \<and>
     (po_requireLatestPushApproval policy \<longrightarrow> pm_requireLastPushApproval ps) \<and>
     pm_requireCodeOwnerReviews ps = po_requireCodeOwnerReviews policy"


lemma policy_findings_none: "collectPolicyFindings d policy = [] \<longleftrightarrow>
    (\<exists>ps. pullRequestParametersOf d = Some ps \<and> meets_policy ps policy)"
  by (auto simp: collectPolicyFindings_def pullRequestParametersOf_def meets_policy_def split: option.splits)




lemma classify_enforceable: "classify findings bypass = Enforceable \<longleftrightarrow> \<not> bypass \<and> findings = []"
  by (auto simp: classify_def)






text \<open>A ruleset that already matches is classified enforceable for its branch: installing again changes nothing.\<close>

lemma matching_is_enforceable:
  assumes "rulesetMatchesPolicy d policy appId" "rulesetCoversBranch d branch"
  shows "classifyRulesetDetail d policy appId branch = Enforceable"
proof -
  obtain ps where ps: "pullRequestParametersOf d = Some ps" "meets_policy ps policy"
    using assms(1) by (auto simp: rulesetMatchesPolicy_def meets_policy_def split: option.splits if_splits)
  then have "collectPolicyFindings d policy = []" using policy_findings_none by blast
  moreover have "\<not> (po_noBypassForEngine policy \<and> engineHasBypass d appId)"
    using assms(1) by (auto simp: rulesetMatchesPolicy_def split: option.splits)
  ultimately show ?thesis using assms(2) by (simp add: classifyRulesetDetail_def classify_enforceable)
qed

lemma installed_config_matches:
  assumes "rsd_rules d = rsc_rules (policyToRulesetConfig policy branch)"
    and "rsd_bypassActors d = rsc_bypassActors (policyToRulesetConfig policy branch)"
  shows "rulesetMatchesPolicy d policy appId"
  using assms by (simp add: rulesetMatchesPolicy_def pullRequestParametersOf_def policyToRulesetConfig_def engineHasBypass_def)

section \<open>A concrete repository\<close>

text \<open>The world is the list of rulesets; the id of a ruleset is its place. The engine's App is 99.\<close>

definition detail_of :: "int \<Rightarrow> ruleset_config \<Rightarrow> ruleset_detail" where
  "detail_of n config = \<lparr>rsd_id = n, rsd_name = rsc_name config, rsd_rules = rsc_rules config,
     rsd_bypassActors = rsc_bypassActors config,
     rsd_conditions = JObj [(''ref_name'', JObj [(''include'', JArr (map JStr (rsc_includeBranches config))),
        (''exclude'', JArr (map JStr (rsc_excludeBranches config)))])]\<rparr>"

definition sampleRulesets :: "ruleset_detail list ruleset_port" where
  "sampleRulesets = \<lparr>rp_client = (\<lambda>w. Inr ()), rp_identity = (\<lambda>w. Inr 99),
     rp_summaries = (\<lambda>w. Inr (map (\<lambda>d. \<lparr>rss_id = rsd_id d, rss_name = rsd_name d, rss_target = Branch_target,
        rss_enforcement = Active\<rparr>) w)),
     rp_detail = (\<lambda>w n. case find_first (\<lambda>d. rsd_id d = n) w of None \<Rightarrow> Inl (Rsf_client False) | Some d \<Rightarrow> Inr d),
     rp_create = (\<lambda>config w. let d = detail_of (int (length w)) config in (Inr d, w @ [d])),
     rp_update = (\<lambda>n config w. (Inr (detail_of n config), map (\<lambda>d. if rsd_id d = n then detail_of n config else d) w))\<rparr>"

definition weakRuleset :: ruleset_detail where
  "weakRuleset = (detail_of 0 (policyToRulesetConfig (REQUIRED_REVIEW_POLICY\<lparr>po_requireApprovingReviews := 0\<rparr>) ''main''))
     \<lparr>rsd_bypassActors := [\<lparr>ba_actorId = 99, ba_actorType = Integration\<rparr>]\<rparr>"



section \<open>Behaviour worth knowing\<close>

text \<open>
  Ref patterns are compared as texts. GitHub excludes \<open>main\<close> from a ruleset whose exclusions contain
  \<open>refs/heads/ma*\<close> or \<open>~ALL\<close>; the inspection counts it as covered.
\<close>

lemma excluded_pattern_counts_as_covered:
  "rulesetCoversBranch (weakRuleset\<lparr>rsd_conditions := JObj [(''ref_name'', JObj [(''include'', JArr []),
      (''exclude'', JArr [JStr ''refs/heads/ma*'', JStr ''~ALL''])])]\<rparr>) ''main''"
  by code_simp

text \<open>
  GitHub enforces the strictest of all rules; the inspection looks at the first ruleset only. A weaker ruleset
  listed before the installed one makes the protected repository weak, also after onboarding.
\<close>

lemma earlier_weak_ruleset_blocks_onboarding:
  "fst (onboardRepository sampleRulesets REQUIRED_REVIEW_POLICY ''main''
     [weakRuleset\<lparr>rsd_name := ''team'', rsd_bypassActors := []\<rparr>]) = Inl Rse_weak"
  by code_simp

end
