(* ===== verification/Landing.thy ===== *)
theory Landing
  imports Pull_Requests Gate_Runner Ruleset
begin

text \<open>
  \<^verbatim>\<open>packages/core/src/landing.ts\<close> and \<^verbatim>\<open>packages/adapters/src/landing-coordinator.ts\<close>: landing one pull
  request after an explicit human command. The coordinator composes the remote checks (\<open>Remote_CI\<close>), the
  review state (\<open>Pull_Requests\<close>), the branch ruleset (\<open>Ruleset\<close>), the local gates (\<open>Gate_Runner\<close>), the bindings (\<open>Vcs_Binding\<close>) and the stack
  (\<open>Stack_Manager\<close>). GitHub and the receipt store are a \<open>landing_env\<close> over a world of
  its own. The world may take a step of its own (\<open>ld_drift\<close>) before every call, so a head that moves between
  two reads is a run of the model. The log has what was read and what was asked for, in order.
\<close>

section \<open>Landing\<close>

text \<open>
  A \<open>HumanApproval\<close> carries a tag that only \<open>humanApproval\<close> can put on it; any other value in its place
  is \<open>Untagged\<close>.
\<close>

datatype human_approval = HumanApproval string | Untagged

definition humanApproval :: "string \<Rightarrow> human_approval" where
  "humanApproval actor = HumanApproval actor"

fun isHumanApproval :: "human_approval \<Rightarrow> bool" where
  "isHumanApproval (HumanApproval _) = True"
| "isHumanApproval Untagged = False"

datatype merge_method = Squash | Merge | Rebase

record landing_intent =
  in_prNumber :: number
  in_repositoryFullName :: string
  in_humanApproval :: human_approval
  in_expectedHeadSha :: string
  in_requestedAt :: int

datatype landing_verdict =
    Landed | Preflight_failed | Already_landed | Parent_not_landed | Ambiguous_remote | Duplicate_command

record landing_preflight =
  pf_headMatches :: bool
  pf_parentLanded :: bool
  pf_checksPass :: bool
  pf_reviewFresh :: bool
  pf_rulesetEnforced :: bool
  pf_allGatesPassed :: bool

record landing_receipt =
  lr_prNumber :: int
  lr_repositoryFullName :: string
  lr_mergedSha :: string
  lr_landedAt :: int
  lr_mergeMethod :: merge_method
  lr_parentRetargetPlan :: "retarget_plan list"
  lr_verdict :: landing_verdict

definition is_positive_integer :: "number \<Rightarrow> bool" where
  "is_positive_integer n = (case n of JsNum q \<Rightarrow> of_int \<lfloor>q\<rfloor> = q \<and> 0 < q | _ \<Rightarrow> False)"

definition validateLandingIntent :: "landing_intent \<Rightarrow> unit + unit" where
  "validateLandingIntent i =
     bindE (guardE (isHumanApproval (in_humanApproval i)) ()) (\<lambda>_.
     bindE (guardE (is_positive_integer (in_prNumber i)) ()) (\<lambda>_.
     guardE (repositoryFullNamePattern (in_repositoryFullName i)) ()))"

definition evaluatePreflight :: "landing_preflight \<Rightarrow> landing_verdict" where
  "evaluatePreflight p =
     (if \<not> pf_headMatches p then Ambiguous_remote
      else if \<not> pf_parentLanded p then Parent_not_landed
      else if \<not> pf_checksPass p \<or> \<not> pf_reviewFresh p \<or> \<not> pf_rulesetEnforced p \<or> \<not> pf_allGatesPassed p
      then Preflight_failed
      else Landed)"

definition isAlreadyLanded :: "landing_receipt option \<Rightarrow> bool \<Rightarrow> bool" where
  "isAlreadyLanded receipt merged \<longleftrightarrow> receipt \<noteq> None \<or> merged"

section \<open>The coordinator and its ports\<close>

datatype landing_error =
    Le_preflight_failed | Le_already_landed | Le_parent_not_landed | Le_ambiguous_remote
  | Le_duplicate_command | Le_merge_failed | Le_retarget_failed | Le_receipt_failed

text \<open>What \<open>land\<close> throws: a \<open>LandingError\<close>, or what another component threw and nothing caught.\<close>

datatype landing_throw = Landing_error landing_error | Not_wrapped

record landing_policy =
  lp_requiredChecks :: "string list"
  lp_gateExpectation :: gate_expectation
  lp_mergeMethod :: merge_method

text \<open>A merge fails with a client error of status 409 or otherwise; its answer may lack a commit.\<close>

datatype merge_failure = Merge_409 | Merge_other

record 'w landing_env =
  ld_drift :: "'w \<Rightarrow> 'w"
  ld_repo :: string
  ld_trunk :: "string option"
  ld_treeId :: string
  ld_policy :: landing_policy
  ld_getReceipt :: "'w \<Rightarrow> string \<Rightarrow> int \<Rightarrow> unit + landing_receipt option"
  ld_record :: "landing_receipt \<Rightarrow> 'w \<Rightarrow> (unit + unit) \<times> 'w"
  ld_client :: "'w \<Rightarrow> unit + unit"
  ld_getPr :: "'w \<Rightarrow> int \<Rightarrow> unit + pull_request"
  ld_listAll :: "'w \<Rightarrow> string \<Rightarrow> unit + pull_request list"
  ld_ci :: "'w \<Rightarrow> int \<Rightarrow> ci_answer"
  ld_reviews :: "'w pr_port"
  ld_botIdentity :: "string option"
  ld_rulesetGate :: "('w \<Rightarrow> unit + bool) option"
  ld_rulesets :: "'w ruleset_port"
  ld_resolver :: "('w \<Rightarrow> pull_request \<Rightarrow> unit + string option) option"
  ld_bindings :: "'w \<Rightarrow> string \<Rightarrow> binding_store_error + vcs_binding list"
  ld_gates :: "'w \<Rightarrow> string \<Rightarrow> unit + gate_receipt list"
  ld_merge :: "int \<Rightarrow> string \<Rightarrow> merge_method \<Rightarrow> 'w \<Rightarrow> (merge_failure + string option) \<times> 'w"
  ld_prs :: "'w pr_client"
  ld_stackRepo :: string
  ld_stackTrunk :: string
  ld_now :: "'w \<Rightarrow> number"
  ld_dateParse :: "string \<Rightarrow> number"

datatype landing_event =
    Read_receipt "landing_receipt option"
  | Read_client
  | Read_pr pull_request
  | Read_parents "pull_request list"
  | Read_checks ci_evidence
  | Read_reviews review_observation
  | Read_ruleset bool
  | Read_node "string option"
  | Read_gates "gate_receipt list"
  | Read_clock number
  | Merge_call int string merge_method
  | Retarget_call string
  | Record_call landing_receipt

text \<open>The state: the world, the bot login the pull-request manager caches, and the log.\<close>

record 'w landing_state =
  ls_world :: 'w
  ls_botLogin :: "string option"
  ls_log :: "landing_event list"

type_synonym ('w, 'a) landing = "'w landing_state \<Rightarrow> (landing_throw + 'a) \<times> 'w landing_state"

definition driftL :: "'w landing_env \<Rightarrow> 'w landing_state \<Rightarrow> 'w landing_state" where
  "driftL e s = s\<lparr>ls_world := ld_drift e (ls_world s)\<rparr>"

definition ask :: "'w landing_env \<Rightarrow> landing_throw \<Rightarrow> ('a \<Rightarrow> landing_event) \<Rightarrow> ('w \<Rightarrow> 'f + 'a) \<Rightarrow> ('w, 'a) landing" where
  "ask e failure ev f s = (let t = driftL e s in case f (ls_world t) of
      Inl _ \<Rightarrow> (Inl failure, t)
    | Inr x \<Rightarrow> (Inr x, t\<lparr>ls_log := ls_log t @ [ev x]\<rparr>))"

definition act :: "'w landing_env \<Rightarrow> landing_event \<Rightarrow> ('w \<Rightarrow> 'r \<times> 'w) \<Rightarrow> ('r \<Rightarrow> landing_throw + 'a) \<Rightarrow> ('w, 'a) landing" where
  "act e ev f finish s = (let t = driftL e s; (r, w) = f (ls_world t)
     in (finish r, t\<lparr>ls_world := w, ls_log := ls_log t @ [ev]\<rparr>))"

definition liftL :: "landing_throw + 'a \<Rightarrow> ('w, 'a) landing" where
  "liftL r s = (r, s)"

definition trunk_of :: "'w landing_env \<Rightarrow> string" where
  "trunk_of e = (case ld_trunk e of None \<Rightarrow> ''main'' | Some t \<Rightarrow> t)"

definition defaultNodeResolver :: "'w landing_env \<Rightarrow> 'w \<Rightarrow> pull_request \<Rightarrow> unit + string option" where
  "defaultNodeResolver e w pr = (case ld_bindings e w (ld_treeId e) of
      Inl _ \<Rightarrow> Inl ()
    | Inr bindings \<Rightarrow> Inr (map_option vb_nodeId (find_first (\<lambda>b. vb_bookmark b = Some (pr_headRefName pr)) bindings)))"

definition resolver_of :: "'w landing_env \<Rightarrow> 'w \<Rightarrow> pull_request \<Rightarrow> unit + string option" where
  "resolver_of e = (case ld_resolver e of None \<Rightarrow> defaultNodeResolver e | Some f \<Rightarrow> f)"

definition defaultRulesetGate :: "'w landing_env \<Rightarrow> 'w \<Rightarrow> unit + bool" where
  "defaultRulesetGate e w = (case inspectRuleset (ld_rulesets e) REQUIRED_REVIEW_POLICY ''main'' w of
      Inl _ \<Rightarrow> Inl ()
    | Inr report \<Rightarrow> Inr (rr_classification report = Enforceable))"

definition rulesetGate_of :: "'w landing_env \<Rightarrow> 'w \<Rightarrow> unit + bool" where
  "rulesetGate_of e = (case ld_rulesetGate e of None \<Rightarrow> defaultRulesetGate e | Some f \<Rightarrow> f)"

definition landing_ownerOf :: "string \<Rightarrow> landing_throw + string" where
  "landing_ownerOf repo =
     (if \<not> repositoryFullNamePattern repo then Inl (Landing_error Le_preflight_failed)
      else Inr (takeWhile (\<lambda>c. c \<noteq> CHR ''/'') repo))"

section \<open>Preflight\<close>

definition resolveNode :: "'w landing_env \<Rightarrow> pull_request \<Rightarrow> ('w, string option) landing" where
  "resolveNode e pr = ask e Not_wrapped Read_node (\<lambda>w. resolver_of e w pr)"

definition checksPass :: "'w landing_env \<Rightarrow> int \<Rightarrow> string \<Rightarrow> ('w, bool) landing" where
  "checksPass e n expectedHead =
     bindS (ask e Not_wrapped Read_checks (\<lambda>w. observeInternal (ld_ci e w n) (lp_requiredChecks (ld_policy e)))) (\<lambda>ev.
     returnS (ce_headSha ev = expectedHead \<and> ce_overallVerdict ev = Ci_success))"

text \<open>The observation of the pull-request manager, which keeps the bot login it resolved.\<close>

definition observe_reviews :: "'w landing_env \<Rightarrow> int \<Rightarrow> ('w, review_observation) landing" where
  "observe_reviews e n s = (let t = driftL e s in
     case observeReviewState (ld_reviews e) (ld_botIdentity e) (ls_botLogin t) (ld_repo e) n (ls_world t) of
       (Inl _, login) \<Rightarrow> (Inl Not_wrapped, t\<lparr>ls_botLogin := login\<rparr>)
     | (Inr ob, login) \<Rightarrow> (Inr ob, t\<lparr>ls_botLogin := login, ls_log := ls_log t @ [Read_reviews ob]\<rparr>))"

definition reviewFresh :: "'w landing_env \<Rightarrow> int \<Rightarrow> ('w, bool) landing" where
  "reviewFresh e n = bindS (observe_reviews e n) (\<lambda>ob. returnS (ro_state ob = Rs_approved))"

definition allGatesPassed :: "'w landing_env \<Rightarrow> pull_request \<Rightarrow> ('w, bool) landing" where
  "allGatesPassed e pr =
     bindS (resolveNode e pr) (\<lambda>node. case node of
       None \<Rightarrow> returnS False
     | Some nodeId \<Rightarrow>
         bindS (ask e Not_wrapped Read_gates (\<lambda>w. ld_gates e w nodeId)) (\<lambda>receipts.
         returnS (gv_unblocked (validateGateReceipts receipts (lp_gateExpectation (ld_policy e))))))"

definition isParentLanded :: "'w landing_env \<Rightarrow> pull_request \<Rightarrow> ('w, bool) landing" where
  "isParentLanded e pr =
     (if pr_baseRefName pr = trunk_of e then returnS True
      else bindS (liftL (landing_ownerOf (ld_repo e))) (\<lambda>owner.
           bindS (ask e (Landing_error Le_preflight_failed) Read_parents
                   (\<lambda>w. ld_listAll e w (owner @ '':'' @ pr_baseRefName pr))) (\<lambda>parents.
           returnS (list_ex pr_merged parents))))"

definition gatherPreflight :: "'w landing_env \<Rightarrow> landing_intent \<Rightarrow> int \<Rightarrow> pull_request \<Rightarrow> ('w, landing_preflight) landing" where
  "gatherPreflight e i n pr =
     (let headMatches = (pr_headSha pr = in_expectedHeadSha i) in
      bindS (if headMatches then isParentLanded e pr else returnS False) (\<lambda>parentLanded.
      if headMatches \<and> parentLanded then
        bindS (checksPass e n (in_expectedHeadSha i)) (\<lambda>checks.
        bindS (reviewFresh e n) (\<lambda>review.
        bindS (ask e Not_wrapped Read_ruleset (rulesetGate_of e)) (\<lambda>ruleset.
        bindS (allGatesPassed e pr) (\<lambda>gates.
        returnS \<lparr>pf_headMatches = headMatches, pf_parentLanded = parentLanded, pf_checksPass = checks,
          pf_reviewFresh = review, pf_rulesetEnforced = ruleset, pf_allGatesPassed = gates\<rparr>))))
      else returnS \<lparr>pf_headMatches = headMatches, pf_parentLanded = parentLanded, pf_checksPass = False,
          pf_reviewFresh = False, pf_rulesetEnforced = False, pf_allGatesPassed = False\<rparr>))"

fun preflightError :: "landing_verdict \<Rightarrow> landing_throw" where
  "preflightError Ambiguous_remote = Landing_error Le_ambiguous_remote"
| "preflightError Parent_not_landed = Landing_error Le_parent_not_landed"
| "preflightError _ = Landing_error Le_preflight_failed"

section \<open>Receipts, merge and retarget\<close>

definition withVerdict :: "landing_receipt \<Rightarrow> landing_verdict \<Rightarrow> landing_receipt" where
  "withVerdict r v = (if lr_verdict r = v then r else r\<lparr>lr_verdict := v\<rparr>)"

definition fetchExistingReceipt :: "'w landing_env \<Rightarrow> int \<Rightarrow> ('w, landing_receipt option) landing" where
  "fetchExistingReceipt e n = ask e (Landing_error Le_receipt_failed) Read_receipt (\<lambda>w. ld_getReceipt e w (ld_repo e) n)"

definition recordReceipt :: "'w landing_env \<Rightarrow> landing_receipt \<Rightarrow> ('w, unit) landing" where
  "recordReceipt e r = act e (Record_call r) (ld_record e r)
     (\<lambda>answer. case answer of Inl _ \<Rightarrow> Inl (Landing_error Le_receipt_failed) | Inr _ \<Rightarrow> Inr ())"

definition landing_acquireClient :: "'w landing_env \<Rightarrow> ('w, unit) landing" where
  "landing_acquireClient e = ask e (Landing_error Le_preflight_failed) (\<lambda>_. Read_client) (ld_client e)"

definition landing_fetchPr :: "'w landing_env \<Rightarrow> int \<Rightarrow> ('w, pull_request) landing" where
  "landing_fetchPr e n = ask e (Landing_error Le_preflight_failed) Read_pr (\<lambda>w. ld_getPr e w n)"

definition parseIsoToEpochMs :: "'w landing_env \<Rightarrow> string \<Rightarrow> landing_throw + number" where
  "parseIsoToEpochMs e text = (case ld_dateParse e text of
      JsNaN \<Rightarrow> Inl (Landing_error Le_receipt_failed)
    | ms \<Rightarrow> Inr ms)"

text \<open>A timestamp out of range throws a \<open>DomainError\<close>, which nothing wraps.\<close>

definition landing_timestamp :: "number \<Rightarrow> landing_throw + int" where
  "landing_timestamp n = (case timestampFromEpochMilliseconds n of Inl _ \<Rightarrow> Inl Not_wrapped | Inr t \<Rightarrow> Inr t)"

definition reconstructReceipt :: "'w landing_env \<Rightarrow> pull_request \<Rightarrow> ('w, landing_receipt) landing" where
  "reconstructReceipt e pr = (case (pr_mergeCommitSha pr, pr_mergedAt pr) of
      (Some sha, Some mergedAt) \<Rightarrow>
        bindS (liftL (bindE (parseIsoToEpochMs e mergedAt) landing_timestamp)) (\<lambda>landedAt.
        let receipt = \<lparr>lr_prNumber = pr_number pr, lr_repositoryFullName = ld_repo e, lr_mergedSha = sha,
              lr_landedAt = landedAt, lr_mergeMethod = lp_mergeMethod (ld_policy e),
              lr_parentRetargetPlan = [], lr_verdict = Already_landed\<rparr>
        in bindS (recordReceipt e receipt) (\<lambda>_. returnS receipt))
    | _ \<Rightarrow> throwS (Landing_error Le_receipt_failed))"

definition resolveNodeOrFail :: "'w landing_env \<Rightarrow> pull_request \<Rightarrow> ('w, string) landing" where
  "resolveNodeOrFail e pr =
     bindS (resolveNode e pr) (\<lambda>node. case node of
       None \<Rightarrow> throwS (Landing_error Le_preflight_failed)
     | Some nodeId \<Rightarrow> returnS nodeId)"

fun merge_answer :: "merge_failure + string option \<Rightarrow> landing_throw + string" where
  "merge_answer (Inl Merge_409) = Inl (Landing_error Le_ambiguous_remote)"
| "merge_answer (Inl Merge_other) = Inl (Landing_error Le_merge_failed)"
| "merge_answer (Inr None) = Inl (Landing_error Le_merge_failed)"
| "merge_answer (Inr (Some sha)) = Inr sha"

definition mergePr :: "'w landing_env \<Rightarrow> landing_intent \<Rightarrow> int \<Rightarrow> ('w, string) landing" where
  "mergePr e i n = (let m = lp_mergeMethod (ld_policy e) in
     act e (Merge_call n (in_expectedHeadSha i) m) (ld_merge e n (in_expectedHeadSha i) m) merge_answer)"

definition retargetChildren :: "'w landing_env \<Rightarrow> string \<Rightarrow> ('w, retarget_plan list) landing" where
  "retargetChildren e nodeId = act e (Retarget_call nodeId)
     (\<lambda>w. retargetAfterParentLanding (ld_prs e) (ld_stackRepo e) (ld_stackTrunk e) (ld_bindings e w (ld_treeId e)) nodeId w)
     (\<lambda>answer. case answer of Inl _ \<Rightarrow> Inl (Landing_error Le_retarget_failed) | Inr plans \<Rightarrow> Inr plans)"

section \<open>The command\<close>

text \<open>Steps 1 to 5 of \<open>land\<close>: either the receipt it returns early, or the pull request and its node.\<close>

datatype landing_stage = Settled landing_receipt | Cleared pull_request string

definition pr_of :: "landing_intent \<Rightarrow> int" where
  "pr_of i = int_of_number (in_prNumber i)"

definition land_preflight :: "'w landing_env \<Rightarrow> landing_intent \<Rightarrow> ('w, landing_stage) landing" where
  "land_preflight e i =
     bindS (liftL (case validateLandingIntent i of Inl _ \<Rightarrow> Inl Not_wrapped | Inr _ \<Rightarrow> Inr ())) (\<lambda>_.
     bindS (liftL (guardE (in_repositoryFullName i = ld_repo e) (Landing_error Le_preflight_failed))) (\<lambda>_.
     bindS (fetchExistingReceipt e (pr_of i)) (\<lambda>existing. case existing of
       Some r \<Rightarrow> returnS (Settled (withVerdict r Duplicate_command))
     | None \<Rightarrow>
         bindS (landing_acquireClient e) (\<lambda>_.
         bindS (landing_fetchPr e (pr_of i)) (\<lambda>pr.
         if pr_merged pr then bindS (reconstructReceipt e pr) (\<lambda>r. returnS (Settled r))
         else bindS (gatherPreflight e i (pr_of i) pr) (\<lambda>preflight.
              let verdict = evaluatePreflight preflight in
              if verdict \<noteq> Landed then throwS (preflightError verdict)
              else bindS (resolveNodeOrFail e pr) (\<lambda>nodeId. returnS (Cleared pr nodeId))))))))"

text \<open>Steps 6 to 8.\<close>

definition land_merge :: "'w landing_env \<Rightarrow> landing_intent \<Rightarrow> string \<Rightarrow> ('w, landing_receipt) landing" where
  "land_merge e i nodeId =
     bindS (mergePr e i (pr_of i)) (\<lambda>mergedSha.
     bindS (retargetChildren e nodeId) (\<lambda>plans.
     bindS (ask e Not_wrapped Read_clock (\<lambda>w. (Inr (ld_now e w) :: unit + number))) (\<lambda>now.
     bindS (liftL (landing_timestamp now)) (\<lambda>landedAt.
     let receipt = \<lparr>lr_prNumber = pr_of i, lr_repositoryFullName = ld_repo e, lr_mergedSha = mergedSha,
           lr_landedAt = landedAt, lr_mergeMethod = lp_mergeMethod (ld_policy e),
           lr_parentRetargetPlan = plans, lr_verdict = Landed\<rparr>
     in bindS (recordReceipt e receipt) (\<lambda>_. returnS receipt)))))"

definition land :: "'w landing_env \<Rightarrow> landing_intent \<Rightarrow> ('w, landing_receipt) landing" where
  "land e i = bindS (land_preflight e i) (\<lambda>stage. case stage of
      Settled receipt \<Rightarrow> returnS receipt
    | Cleared pr nodeId \<Rightarrow> land_merge e i nodeId)"


section \<open>What a run reads and asks for\<close>

text \<open>An operation that extends the log with events that satisfy a predicate.\<close>

definition logs :: "(landing_event \<Rightarrow> bool) \<Rightarrow> ('w, 'a) landing \<Rightarrow> bool" where
  "logs q m \<longleftrightarrow> (\<forall>s r s'. m s = (r, s') \<longrightarrow> (\<exists>new. ls_log s' = ls_log s @ new \<and> list_all q new))"

named_theorems logs_intro "operations that only log events of a kind"

lemma logs_bindS [logs_intro]:
  assumes "logs q m" "\<And>x. logs q (f x)"
  shows "logs q (bindS m f)"
  unfolding logs_def
proof (intro allI impI)
  fix s r s' assume run: "bindS m f s = (r, s')"
  obtain r1 s1 where m: "m s = (r1, s1)" by fastforce
  obtain new where new: "ls_log s1 = ls_log s @ new" "list_all q new"
    using assms(1) m unfolding logs_def by blast
  show "\<exists>new. ls_log s' = ls_log s @ new \<and> list_all q new"
  proof (cases r1)
    case (Inl e)
    then show ?thesis using run m new by (auto simp: bindS_def)
  next
    case (Inr x)
    then have "f x s1 = (r, s')" using run m by (simp add: bindS_def)
    then obtain new2 where "ls_log s' = ls_log s1 @ new2" "list_all q new2"
      using assms(2) unfolding logs_def by blast
    then show ?thesis using new by (intro exI [of _ "new @ new2"]) auto
  qed
qed

lemma logs_returnS [logs_intro]: "logs q (returnS x)"
  by (auto simp: logs_def res_simps)

lemma logs_throwS [logs_intro]: "logs q (throwS x)"
  by (auto simp: logs_def res_simps)

lemma logs_liftL [logs_intro]: "logs q (liftL x)"
  by (auto simp: logs_def liftL_def)

lemma logs_ask [logs_intro]: "(\<And>x. q (ev x)) \<Longrightarrow> logs q (ask e failure ev f)"
  by (auto simp: logs_def ask_def driftL_def Let_def split: sum.splits)

lemma logs_act [logs_intro]: "q ev \<Longrightarrow> logs q (act e ev f finish)"
  by (auto simp: logs_def act_def driftL_def Let_def split: prod.splits)

lemma logs_observe_reviews [logs_intro]: "(\<And>x. q (Read_reviews x)) \<Longrightarrow> logs q (observe_reviews e n)"
  by (auto simp: logs_def observe_reviews_def driftL_def Let_def split: prod.splits sum.splits)

lemma logs_if [logs_intro]: "logs q m \<Longrightarrow> logs q m' \<Longrightarrow> logs q (if b then m else m')"
  by simp

lemma logs_option [logs_intro]: "logs q m \<Longrightarrow> (\<And>x. logs q (f x)) \<Longrightarrow> logs q (case v of None \<Rightarrow> m | Some x \<Rightarrow> f x)"
  by (cases v) auto




section \<open>The signals behind a merge\<close>



lemma ask_Inr: "ask e failure ev f s = (Inr x, s') \<longleftrightarrow>
    f (ld_drift e (ls_world s)) = Inr x \<and> s' = (driftL e s)\<lparr>ls_log := ls_log s @ [ev x]\<rparr>"
  by (auto simp: ask_def driftL_def Let_def split: sum.splits)



lemma liftL_Inr: "liftL m s = (Inr x, s') \<longleftrightarrow> m = Inr x \<and> s' = s"
  by (auto simp: liftL_def)








section \<open>Landing once\<close>

text \<open>
  What the coordinator relies on: a recorded receipt is the one that is read, and stays; the pull request
  that GitHub answers is the one asked for.
\<close>

definition keeps_receipts :: "'w landing_env \<Rightarrow> bool" where
  "keeps_receipts e \<longleftrightarrow>
     (\<forall>rc w w'. ld_record e rc w = (Inr (), w') \<longrightarrow>
        ld_getReceipt e w' (lr_repositoryFullName rc) (lr_prNumber rc) = Inr (Some rc)) \<and>
     (\<forall>w repo n rc. ld_getReceipt e w repo n = Inr (Some rc) \<longrightarrow> ld_getReceipt e (ld_drift e w) repo n = Inr (Some rc)) \<and>
     (\<forall>w n pr. ld_getPr e w n = Inr pr \<longrightarrow> pr_number pr = n)"

lemma receipt_stays:
  assumes "keeps_receipts e" "ld_getReceipt e w repo n = Inr (Some rc)"
  shows "ld_getReceipt e ((ld_drift e ^^ k) w) repo n = Inr (Some rc)"
  using assms by (induction k) (auto simp: keeps_receipts_def)

lemma recordReceipt_stored:
  assumes "keeps_receipts e" "recordReceipt e rc s = (Inr (), s')"
  shows "ld_getReceipt e (ls_world s') (lr_repositoryFullName rc) (lr_prNumber rc) = Inr (Some rc)"
  using assms by (auto simp: recordReceipt_def act_def keeps_receipts_def Let_def split: prod.splits sum.splits)

lemma reconstruct_stored:
  assumes "keeps_receipts e" "reconstructReceipt e pr s = (Inr rc, s')"
  shows "ld_getReceipt e (ls_world s') (ld_repo e) (pr_number pr) = Inr (Some rc)"
proof -
  have "recordReceipt e rc s = (Inr (), s')" "lr_repositoryFullName rc = ld_repo e" "lr_prNumber rc = pr_number pr"
    using assms(2) by (auto simp: reconstructReceipt_def Let_def res_simps liftL_Inr split: option.splits prod.splits)
  then show ?thesis using recordReceipt_stored [OF assms(1)] by metis
qed

lemma merge_stored:
  assumes "keeps_receipts e" "land_merge e i nodeId s = (Inr rc, s')"
  shows "ld_getReceipt e (ls_world s') (ld_repo e) (pr_of i) = Inr (Some rc)"
proof -
  obtain s1 where "recordReceipt e rc s1 = (Inr (), s')" "lr_repositoryFullName rc = ld_repo e" "lr_prNumber rc = pr_of i"
    using assms(2) by (auto simp: land_merge_def Let_def res_simps liftL_Inr)
  then show ?thesis using recordReceipt_stored [OF assms(1)] by metis
qed

lemma fetchPr_number:
  "keeps_receipts e \<Longrightarrow> landing_fetchPr e n s = (Inr pr, s') \<Longrightarrow> pr_number pr = n"
  by (auto simp: landing_fetchPr_def ask_Inr keeps_receipts_def)

lemma duplicate_again: "withVerdict (withVerdict r Duplicate_command) Duplicate_command = withVerdict r Duplicate_command"
  by (simp add: withVerdict_def)

lemma landed_stored:
  assumes keeps: "keeps_receipts e" and run: "land e i s = (Inr rc, s')"
  shows "\<exists>stored. ld_getReceipt e (ls_world s') (ld_repo e) (pr_of i) = Inr (Some stored) \<and>
     withVerdict stored Duplicate_command = withVerdict rc Duplicate_command \<and> lr_mergedSha stored = lr_mergedSha rc"
proof -
  obtain stage s1 where pre: "land_preflight e i s = (Inr stage, s1)"
    and rest: "(case stage of Settled receipt \<Rightarrow> returnS receipt | Cleared pr nodeId \<Rightarrow> land_merge e i nodeId) s1 = (Inr rc, s')"
    using run by (auto simp: land_def res_simps)
  show ?thesis
  proof (cases stage)
    case (Cleared pr nodeId)
    then show ?thesis using rest merge_stored [OF keeps] by auto
  next
    case (Settled r)
    then have same: "rc = r" "s' = s1" using rest by (auto simp: res_simps)
    obtain t existing t' where fetch: "fetchExistingReceipt e (pr_of i) t = (Inr existing, t')"
      and next_: "(case existing of
          Some r \<Rightarrow> returnS (Settled (withVerdict r Duplicate_command))
        | None \<Rightarrow> bindS (landing_acquireClient e) (\<lambda>_.
            bindS (landing_fetchPr e (pr_of i)) (\<lambda>pr.
            if pr_merged pr then bindS (reconstructReceipt e pr) (\<lambda>r. returnS (Settled r))
            else bindS (gatherPreflight e i (pr_of i) pr) (\<lambda>preflight.
              let verdict = evaluatePreflight preflight in
              if verdict \<noteq> Landed then throwS (preflightError verdict)
              else bindS (resolveNodeOrFail e pr) (\<lambda>nodeId. returnS (Cleared pr nodeId)))))) t' = (Inr (Settled r), s1)"
      using pre Settled by (auto simp: land_preflight_def res_simps)
    show ?thesis
    proof (cases existing)
      case (Some old)
      then have "ld_getReceipt e (ls_world s1) (ld_repo e) (pr_of i) = Inr (Some old)"
        using fetch next_ by (auto simp: fetchExistingReceipt_def ask_Inr driftL_def res_simps)
      moreover have "r = withVerdict old Duplicate_command" using next_ Some by (auto simp: res_simps)
      ultimately show ?thesis using same by (auto simp: duplicate_again) (simp add: withVerdict_def)
    next
      case None
      then obtain u pr u' where pr: "landing_fetchPr e (pr_of i) u = (Inr pr, u')"
        and rec: "reconstructReceipt e pr u' = (Inr r, s1)"
        using next_ by (auto simp: res_simps Let_def split: if_splits)
      show ?thesis using reconstruct_stored [OF keeps rec] fetchPr_number [OF keeps pr] same by simp
    qed
  qed
qed


text \<open>C2: A pull request lands once. After a landing command returned a receipt, and however the world then
  moves on its own, every later valid command for the same pull request reads that receipt, returns it marked
  as a duplicate with the same landed commit, and does nothing else: it asks for no merge, no retarget and no
  new receipt.\<close>

theorem lands_once:
  assumes keeps: "keeps_receipts e" and run: "land e i s = (Inr rc, s')"
    and valid: "validateLandingIntent j = Inr ()" and "in_repositoryFullName j = ld_repo e" and "pr_of j = pr_of i"
    and world: "ls_world t = (ld_drift e ^^ k) (ls_world s')"
  shows "\<exists>stored t'. land e j t = (Inr (withVerdict rc Duplicate_command), t') \<and>
     lr_mergedSha stored = lr_mergedSha rc \<and> ls_log t' = ls_log t @ [Read_receipt (Some stored)]"
proof -
  obtain stored where stored: "ld_getReceipt e (ls_world s') (ld_repo e) (pr_of i) = Inr (Some stored)"
      "withVerdict stored Duplicate_command = withVerdict rc Duplicate_command" "lr_mergedSha stored = lr_mergedSha rc"
    using landed_stored [OF keeps run] by blast
  have "ld_getReceipt e (ld_drift e (ls_world t)) (ld_repo e) (pr_of i) = Inr (Some stored)"
    using receipt_stays [OF keeps stored(1), of "Suc k"] world by simp
  then have "land e j t = (Inr (withVerdict rc Duplicate_command),
      (driftL e t)\<lparr>ls_log := ls_log t @ [Read_receipt (Some stored)]\<rparr>)"
    using valid assms(4,5) stored(2)
    by (simp add: land_def land_preflight_def bindS_def liftL_def guardE_def fetchExistingReceipt_def ask_def
        driftL_def Let_def returnS_def)
  then show ?thesis using stored(3) by auto
qed

section \<open>A concrete repository\<close>

text \<open>
  The world: is pull request 7 merged, and the receipts kept. Its base is the trunk, its head the sha of
  \<open>a\<close>, the branch is bound to a node, and retargeting fails when \<open>broken\<close> (no bindings can be read after
  the merge).
\<close>

type_synonym sample_world = "bool \<times> landing_receipt list"

definition landingPr :: "bool \<Rightarrow> int \<Rightarrow> pull_request" where
  "landingPr merged n = \<lparr>pr_number = n, pr_headRefName = sampleBranch (CHR ''1''), pr_headSha = sampleSha (CHR ''a''),
     pr_baseRefName = ''main'', pr_merged = merged, pr_mergeCommitSha = (if merged then Some ''m'' else None),
     pr_mergedAt = (if merged then Some ''2025'' else None), pr_title = ''change'', pr_htmlUrl = []\<rparr>"

definition landingReviews :: "sample_world pr_port" where
  "landingReviews = \<lparr>pp_client = (\<lambda>w. Inr ()), pp_listOpen = (\<lambda>w h. Inr []), pp_create = (\<lambda>i w. (Inl Client_other, w)),
     pp_update = (\<lambda>n i w. (Inl Client_other, w)), pp_get = (\<lambda>w n. Inr (landingPr (fst w) n)),
     pp_reviews = (\<lambda>w n. Inr [sampleReview ''eva'' APPROVED (sampleSha (CHR ''a''))]),
     pp_runs = (\<lambda>w sha. Inr []), pp_combined = (\<lambda>w sha. Inl Client_not_found),
     pp_identity = (\<lambda>w. Inr ''engine[bot]''), pp_now = (\<lambda>w. 0)\<rparr>"

definition landingRulesets :: "sample_world ruleset_port" where
  "landingRulesets = \<lparr>rp_client = (\<lambda>w. Inr ()), rp_identity = (\<lambda>w. Inr 99),
     rp_summaries = (\<lambda>w. Inr [\<lparr>rss_id = 1, rss_name = MINIONS_REVIEW_RULESET_NAME, rss_target = Branch_target,
        rss_enforcement = Active\<rparr>]),
     rp_detail = (\<lambda>w n. Inr (detail_of n (policyToRulesetConfig REQUIRED_REVIEW_POLICY ''main''))),
     rp_create = (\<lambda>config w. (Inl Rsf_other, w)), rp_update = (\<lambda>n config w. (Inl Rsf_other, w))\<rparr>"

definition sampleLanding :: "bool \<Rightarrow> sample_world landing_env" where
  "sampleLanding broken = \<lparr>ld_drift = (\<lambda>w. w), ld_repo = ''tprei/minions'', ld_trunk = None,
     ld_treeId = sampleBranch (CHR ''9''),
     ld_policy = \<lparr>lp_requiredChecks = [''ci''], lp_gateExpectation = sampleExpectation [1], lp_mergeMethod = Squash\<rparr>,
     ld_getReceipt = (\<lambda>w repo n. Inr (find_first (\<lambda>r. lr_repositoryFullName r = repo \<and> lr_prNumber r = n) (snd w))),
     ld_record = (\<lambda>r w. (Inr (), (fst w, r # snd w))),
     ld_client = (\<lambda>w. Inr ()), ld_getPr = (\<lambda>w n. Inr (landingPr (fst w) n)), ld_listAll = (\<lambda>w h. Inr []),
     ld_ci = (\<lambda>w n. sampleAnswer (CHR ''a'') [sampleRun ''ci'' C_success (CHR ''a'')]),
     ld_reviews = landingReviews, ld_botIdentity = None, ld_rulesetGate = None, ld_rulesets = landingRulesets, ld_resolver = None,
     ld_bindings = (\<lambda>w tree. if broken \<and> fst w then Inl Binding_corrupt
        else Inr [(stackBinding (CHR ''1'') None)\<lparr>vb_bookmark := Some (sampleBranch (CHR ''1''))\<rparr>]),
     ld_gates = (\<lambda>w node. Inr [sampleGateReceipt 1 Gate_passed ''new'']),
     ld_merge = (\<lambda>n sha m w. (Inr (Some ''m''), (True, snd w))),
     ld_prs = \<lparr>pl_list = (\<lambda>w h. Inr []), pl_update = (\<lambda>n base w. Inr w)\<rparr>,
     ld_stackRepo = ''tprei/minions'', ld_stackTrunk = ''main'', ld_now = (\<lambda>w. number_of_int 5),
     ld_dateParse = (\<lambda>text. number_of_int 5)\<rparr>"

definition sampleIntent :: landing_intent where
  "sampleIntent = \<lparr>in_prNumber = number_of_int 7, in_repositoryFullName = ''tprei/minions'',
     in_humanApproval = humanApproval ''eva'', in_expectedHeadSha = sampleSha (CHR ''a''), in_requestedAt = 0\<rparr>"

definition landingStart :: "sample_world landing_state" where
  "landingStart = \<lparr>ls_world = (False, []), ls_botLogin = None, ls_log = []\<rparr>"

definition afterLanding :: "bool \<Rightarrow> sample_world landing_state" where
  "afterLanding broken = snd (land (sampleLanding broken) sampleIntent landingStart)"

lemma sampleLanding_keeps: "keeps_receipts (sampleLanding b)"
  by (auto simp: keeps_receipts_def sampleLanding_def landingPr_def find_first_def)

lemma sample_lands:
  "fst (land (sampleLanding False) sampleIntent landingStart) = Inr \<lparr>lr_prNumber = 7,
     lr_repositoryFullName = ''tprei/minions'', lr_mergedSha = ''m'', lr_landedAt = 5, lr_mergeMethod = Squash,
     lr_parentRetargetPlan = [], lr_verdict = Landed\<rparr>"
  by code_simp


lemma sample_run: "land (sampleLanding False) sampleIntent landingStart =
    (Inr \<lparr>lr_prNumber = 7, lr_repositoryFullName = ''tprei/minions'', lr_mergedSha = ''m'', lr_landedAt = 5,
       lr_mergeMethod = Squash, lr_parentRetargetPlan = [], lr_verdict = Landed\<rparr>, afterLanding False)"
  using sample_lands by (cases "land (sampleLanding False) sampleIntent landingStart") (simp add: afterLanding_def)


theorem lands_once_witness:
  "\<exists>rc t'. land (sampleLanding False) sampleIntent (afterLanding False) = (Inr rc, t') \<and>
     lr_verdict rc = Duplicate_command \<and> Merge_call 7 (sampleSha (CHR ''a'')) Squash \<in> set (ls_log (afterLanding False))"
proof -
  have valid: "validateLandingIntent sampleIntent = Inr ()" by code_simp
  have repo: "in_repositoryFullName sampleIntent = ld_repo (sampleLanding False)" by code_simp
  have world: "ls_world (afterLanding False) = (ld_drift (sampleLanding False) ^^ 0) (ls_world (afterLanding False))" by simp
  have merge: "Merge_call 7 (sampleSha (CHR ''a'')) Squash \<in> set (ls_log (afterLanding False))" by code_simp
  obtain stored t' where "land (sampleLanding False) sampleIntent (afterLanding False) = (Inr (withVerdict
      \<lparr>lr_prNumber = 7, lr_repositoryFullName = ''tprei/minions'', lr_mergedSha = ''m'', lr_landedAt = 5,
       lr_mergeMethod = Squash, lr_parentRetargetPlan = [], lr_verdict = Landed\<rparr> Duplicate_command), t')"
    using lands_once [OF sampleLanding_keeps sample_run valid repo refl world] by blast
  then show ?thesis using merge by (auto simp: withVerdict_def)
qed

section \<open>Behaviour worth knowing\<close>

text \<open>
  \<open>retarget_failed\<close> is called recoverable, but only \<open>land\<close> retargets the children of a landed node: the
  repeated command finds the pull request merged, records a receipt with an empty plan, and retargets nothing.
\<close>

lemma failed_retarget_never_repeated:
  "let s = afterLanding True; again = land (sampleLanding True) sampleIntent (s\<lparr>ls_log := []\<rparr>) in
     fst (land (sampleLanding True) sampleIntent landingStart) = Inl (Landing_error Le_retarget_failed) \<and>
     map_sum (\<lambda>x. x) lr_verdict (fst again) = Inr Already_landed \<and>
     list_all (\<lambda>ev. case ev of Retarget_call _ \<Rightarrow> False | _ \<Rightarrow> True) (ls_log (snd again))"
  by code_simp

text \<open>
  Every failure is said to surface as a \<open>LandingError\<close>. A failed observation of the checks is thrown as
  it is.
\<close>

lemma check_failure_not_wrapped:
  "fst (land ((sampleLanding False)\<lparr>ld_ci := \<lambda>w n. (sampleAnswer (CHR ''a'') [])\<lparr>ca_auth := False\<rparr>\<rparr>)
      sampleIntent landingStart) = Inl Not_wrapped"
  by code_simp

end
