(* ===== verification/Context_Pack.thy ===== *)
theory Context_Pack
  imports Repair "HOL-Library.Multiset"
begin

text \<open>
  The context pack and the request of \<^verbatim>\<open>packages/core/src/execution.ts\<close>, with the handshake of
  \<^verbatim>\<open>packages/core/src/harness.ts\<close>: the canonical text that is sent to the harness, its digest, and the
  validation of a request. The digest function is a parameter. The attempt ordinal and the policy version are
  integers, as their producers make them.
\<close>

section \<open>Requests and packs\<close>

datatype harness_capability = Cap_steer | Cap_follow_up | Cap_interrupt | Cap_abort | Cap_resume | Cap_snapshot

record handshake =
  hs_harnessKind :: string
  hs_harnessVersion :: string
  hs_providerKind :: string
  hs_model :: string
  hs_reasoningLevel :: string
  hs_capabilities :: "harness_capability list"
  hs_tools :: "string list"
  hs_securityPolicyDigest :: string

definition missingHarnessCapabilities :: "handshake \<Rightarrow> harness_capability list \<Rightarrow> harness_capability list" where
  "missingHarnessCapabilities h required = filter (\<lambda>c. c \<notin> set (hs_capabilities h)) required"

record tool_policy =
  tp_allowedExecutables :: "string list"
  tp_allowedGitSubcommands :: "string list"
  tp_blockedGitSubcommands :: "string list"

record workspace_context =
  wc_repositoryId :: string
  wc_hostId :: string
  wc_workspacePath :: string
  wc_baseCommit :: string
  wc_headCommit :: string

record plan_context =
  plc_planGoal :: string
  plc_parentGoal :: "string option"
  plc_siblingSummaries :: "string list"

record context_pack_input =
  cx_nodeId :: string
  cx_treeId :: string
  cx_repositoryId :: string
  cx_hostId :: string
  cx_attemptOrdinal :: nat
  cx_goal :: string
  cx_plan :: plan_context
  cx_workspace :: workspace_context
  cx_allowedTools :: "string list"
  cx_toolPolicy :: tool_policy
  cx_securityPolicyDigest :: string
  cx_fingerprintDigest :: string
  cx_policyVersion :: nat
  cx_model :: string
  cx_reasoningLevel :: string

record execution_request =
  xr_attemptId :: string
  xr_attemptOrdinal :: nat
  xr_nodeId :: string
  xr_treeId :: string
  xr_repositoryId :: string
  xr_hostId :: string
  xr_ownerId :: string
  xr_leaseDurationMs :: number
  xr_maxActiveGlobal :: number
  xr_maxActivePerTree :: number
  xr_durableHarnessId :: string
  xr_goal :: string
  xr_plan :: plan_context
  xr_workspace :: workspace_context
  xr_toolPolicy :: tool_policy
  xr_fingerprintDigest :: string
  xr_policyVersion :: nat
  xr_model :: string
  xr_reasoningLevel :: string
  xr_actorSessionId :: string
  xr_expectedNodeVersion :: "number option"

definition positive_safe :: "number \<Rightarrow> bool" where
  "positive_safe v \<longleftrightarrow> isSafeInteger v \<and> 0 < int_of_number v"

definition validateNodeExecutionRequest :: "execution_request \<Rightarrow> unit checked" where
  "validateNodeExecutionRequest r =
     bindE (guardE (length (xr_attemptId r) \<noteq> 0) Invalid_value) (\<lambda>_.
     bindE (guardE (length (xr_ownerId r) \<noteq> 0) Invalid_value) (\<lambda>_.
     bindE (guardE (positive_safe (xr_leaseDurationMs r)) Invalid_value) (\<lambda>_.
     bindE (guardE (positive_safe (xr_maxActiveGlobal r) \<and> positive_safe (xr_maxActivePerTree r)) Invalid_value) (\<lambda>_.
     bindE (guardE (length (xr_durableHarnessId r) \<noteq> 0) Invalid_value) (\<lambda>_.
     bindE (guardE (length (xr_goal r) \<noteq> 0) Invalid_value) (\<lambda>_.
     bindE (guardE (length (plc_planGoal (xr_plan r)) \<noteq> 0) Invalid_value) (\<lambda>_.
     bindE (guardE (length (wc_workspacePath (xr_workspace r)) \<noteq> 0) Invalid_value) (\<lambda>_.
     bindE (guardE (length (xr_actorSessionId r) \<noteq> 0) Invalid_value) (\<lambda>_.
     guardE (case xr_expectedNodeVersion r of None \<Rightarrow> True | Some v \<Rightarrow> isSafeInteger v) Invalid_value)))))))))"

definition buildContextPackInput :: "execution_request \<Rightarrow> handshake \<Rightarrow> context_pack_input" where
  "buildContextPackInput r h = \<lparr>cx_nodeId = xr_nodeId r, cx_treeId = xr_treeId r, cx_repositoryId = xr_repositoryId r,
     cx_hostId = xr_hostId r, cx_attemptOrdinal = xr_attemptOrdinal r, cx_goal = xr_goal r, cx_plan = xr_plan r,
     cx_workspace = xr_workspace r, cx_allowedTools = hs_tools h, cx_toolPolicy = xr_toolPolicy r,
     cx_securityPolicyDigest = hs_securityPolicyDigest h, cx_fingerprintDigest = xr_fingerprintDigest r,
     cx_policyVersion = xr_policyVersion r, cx_model = xr_model r, cx_reasoningLevel = xr_reasoningLevel r\<rparr>"

section \<open>The canonical text\<close>

fun json_nat :: "nat \<Rightarrow> string" where
  "json_nat n = (if n < 10 then [char_of (48 + n)] else json_nat (n div 10) @ [char_of (48 + n mod 10)])"

declare json_nat.simps [simp del]

text \<open>A field of an object: its name and its rendered value; and the object of a list of fields.\<close>

definition json_object :: "(string \<times> string) list \<Rightarrow> string" where
  "json_object kvs = [CHR 0x7B] @ join '','' (map (\<lambda>(k, v). json_string k @ '':'' @ v) kvs) @ [CHR 0x7D]"

definition sorted_strings :: "string list \<Rightarrow> string" where
  "sorted_strings xs = json_array (map json_string (sort xs))"

definition canonicalContextPackJson :: "context_pack_input \<Rightarrow> string" where
  "canonicalContextPackJson i = json_object [
     (''attemptOrdinal'', json_nat (cx_attemptOrdinal i)),
     (''goal'', json_string (cx_goal i)),
     (''hostId'', json_string (cx_hostId i)),
     (''model'', json_object [(''model'', json_string (cx_model i)), (''reasoningLevel'', json_string (cx_reasoningLevel i))]),
     (''nodeId'', json_string (cx_nodeId i)),
     (''plan'', json_object [
        (''parentGoal'', json_string (case plc_parentGoal (cx_plan i) of None \<Rightarrow> [] | Some g \<Rightarrow> g)),
        (''planGoal'', json_string (plc_planGoal (cx_plan i))),
        (''siblingSummaries'', sorted_strings (plc_siblingSummaries (cx_plan i)))]),
     (''policy'', json_object [
        (''sandboxPolicyFingerprint'', json_object [
           (''digest'', json_string (cx_fingerprintDigest i)), (''policyVersion'', json_nat (cx_policyVersion i))]),
        (''securityPolicyDigest'', json_string (cx_securityPolicyDigest i))]),
     (''repositoryId'', json_string (cx_repositoryId i)),
     (''tools'', json_object [
        (''allowedTools'', sorted_strings (cx_allowedTools i)),
        (''toolPolicy'', json_object [
           (''allowedExecutables'', sorted_strings (tp_allowedExecutables (cx_toolPolicy i))),
           (''allowedGitSubcommands'', sorted_strings (tp_allowedGitSubcommands (cx_toolPolicy i))),
           (''blockedGitSubcommands'', sorted_strings (tp_blockedGitSubcommands (cx_toolPolicy i)))])]),
     (''treeId'', json_string (cx_treeId i)),
     (''workspace'', json_object [
        (''baseCommit'', json_string (wc_baseCommit (cx_workspace i))),
        (''headCommit'', json_string (wc_headCommit (cx_workspace i))),
        (''hostId'', json_string (wc_hostId (cx_workspace i))),
        (''repositoryId'', json_string (wc_repositoryId (cx_workspace i))),
        (''workspacePath'', json_string (wc_workspacePath (cx_workspace i)))])]"

definition computeContextPackDigest :: "(string \<Rightarrow> string) \<Rightarrow> context_pack_input \<Rightarrow> string" where
  "computeContextPackDigest digest i = digest (canonicalContextPackJson i)"

section \<open>The text determines the pack\<close>

text \<open>
  Two texts that start with renderings of values of one kind and are equal render the same value and go on
  equally: renderings are self-delimiting.
\<close>

definition delimited :: "('a \<Rightarrow> string) \<Rightarrow> bool" where
  "delimited f \<longleftrightarrow> (\<forall>a b x y. f a @ x = f b @ y \<longrightarrow> a = b \<and> x = y)"

definition hex_value :: "char \<Rightarrow> nat" where
  "hex_value c = (if of_char c < (58::nat) then of_char c - 48 else of_char c - 87)"

definition unescaped :: "char \<Rightarrow> char" where
  "unescaped d = (if d = CHR ''b'' then char_of (8::nat) else if d = CHR ''t'' then char_of (9::nat)
     else if d = CHR ''n'' then char_of (10::nat) else if d = CHR ''f'' then char_of (12::nat)
     else if d = CHR ''r'' then char_of (13::nat) else d)"

fun read_char :: "string \<Rightarrow> char \<times> string" where
  "read_char (c # cs) = (if c \<noteq> CHR 0x5C then (c, cs)
     else (case cs of
         d # ds \<Rightarrow> if d \<noteq> CHR ''u'' then (unescaped d, ds)
           else (case ds of _ # _ # h # l # rest \<Rightarrow> (char_of (16 * hex_value h + hex_value l), rest) | _ \<Rightarrow> (c, cs))
       | [] \<Rightarrow> (c, cs)))"
| "read_char [] = (CHR 0x00, [])"

lemma hex_value_of: "i < 16 \<Longrightarrow> hex_value (hex_of i) = i"
proof -
  assume "i < 16"
  then have "i \<in> set [0..<16]" by simp
  then show ?thesis
    by (simp add: upt_rec hex_value_def hex_of_def) (elim disjE; simp)
qed

lemma of_char_of_quote: "char_of (34::nat) = CHR 0x22" "char_of (92::nat) = CHR 0x5C"
  by (simp_all add: char_of_def bit_iff_odd)

lemma read_json_char: "read_char (json_char c @ x) = (c, x)"
proof -
  let ?n = "of_char c :: nat"
  have c: "c = char_of ?n" by simp
  have escape: "of_char c \<noteq> (92::nat) \<Longrightarrow> c \<noteq> CHR 0x5C" by auto
  consider "?n = 34" | "?n = 92" | "?n = 8" | "?n = 9" | "?n = 10" | "?n = 12" | "?n = 13"
    | "?n < 32" "?n \<notin> {8, 9, 10, 12, 13}" | "\<not> ?n < 32" "?n \<notin> {34, 92}" by blast
  then show ?thesis
  proof cases
    case 1
    then have "c = CHR 0x22" by (metis c of_char_of_quote)
    then show ?thesis by (simp add: json_char_def unescaped_def)
  next
    case 2
    then have "c = CHR 0x5C" by (metis c of_char_of_quote)
    then show ?thesis by (simp add: json_char_def unescaped_def)
  next
    case 3
    then have "char_of (8::nat) = c" by (metis c)
    then show ?thesis using 3 by (simp add: json_char_def unescaped_def)
  next
    case 4
    then have "char_of (9::nat) = c" by (metis c)
    then show ?thesis using 4 by (simp add: json_char_def unescaped_def)
  next
    case 5
    then have "char_of (10::nat) = c" by (metis c)
    then show ?thesis using 5 by (simp add: json_char_def unescaped_def)
  next
    case 6
    then have "char_of (12::nat) = c" by (metis c)
    then show ?thesis using 6 by (simp add: json_char_def unescaped_def)
  next
    case 7
    then have "char_of (13::nat) = c" by (metis c)
    then show ?thesis using 7 by (simp add: json_char_def unescaped_def)
  next
    case 8
    have "?n div 16 < 16" using 8 by simp
    then have "16 * hex_value (hex_of (?n div 16)) + hex_value (hex_of (?n mod 16)) = ?n"
      by (simp add: hex_value_of)
    then show ?thesis using 8 by (simp add: json_char_def Let_def)
  next
    case 9
    then show ?thesis using escape by (auto simp: json_char_def)
  qed
qed

lemma json_char_delimited: "json_char a @ x = json_char b @ y \<Longrightarrow> a = b \<and> x = y"
  by (metis read_json_char prod.inject)

lemma json_char_no_quote: "json_char a = CHR 0x22 # x \<Longrightarrow> False"
proof -
  have "of_char a \<noteq> (34::nat) \<Longrightarrow> a \<noteq> CHR 0x22" by auto
  then show "json_char a = CHR 0x22 # x \<Longrightarrow> False"
    unfolding json_char_def Let_def by (simp split: if_split_asm)
qed

lemma json_char_nonempty: "json_char a \<noteq> []"
  by (auto simp: json_char_def Let_def)

lemma json_string_delimited: "delimited json_string"
proof -
  have chars: "s = t \<and> x = y" if "concat (map json_char s) @ CHR 0x22 # x = concat (map json_char t) @ CHR 0x22 # y" for s t x y
    using that
  proof (induction s arbitrary: t)
    case Nil
    then show ?case
    proof (cases t)
      case (Cons b u)
      then obtain c d where cd: "json_char b = c # d" using json_char_nonempty by (meson neq_Nil_conv)
      then have "c = CHR 0x22" using Nil Cons by simp
      then show ?thesis using cd json_char_no_quote by blast
    qed simp
  next
    case (Cons a s)
    show ?case
    proof (cases t)
      case Nil
      obtain c d where cd: "json_char a = c # d" using json_char_nonempty by (meson neq_Nil_conv)
      then have "c = CHR 0x22" using Cons.prems Nil by simp
      then show ?thesis using cd json_char_no_quote by blast
    next
      case (Cons b u)
      then show ?thesis using Cons.prems Cons.IH [of u] json_char_delimited by auto
    qed
  qed
  show ?thesis
    unfolding delimited_def json_string_def append_assoc append_Cons append_Nil list.inject using chars by blast
qed


lemma json_string_append_iff [simp]: "json_string a @ x = json_string b @ y \<longleftrightarrow> a = b \<and> x = y"
  using json_string_delimited unfolding delimited_def by blast

lemma json_string_inject [simp]: "json_string a = json_string b \<longleftrightarrow> a = b"
  using json_string_append_iff [of a "[]" b "[]"] by simp

lemma json_string_head: "\<exists>t. json_string a = CHR 0x22 # t"
  by (simp add: json_string_def)

fun json_rest :: "string list \<Rightarrow> string" where
  "json_rest [] = []"
| "json_rest (a # as) = CHR '','' # json_string a @ json_rest as"

lemma join_json_strings: "join '','' (map json_string (a # as)) = json_string a @ json_rest as"
  by (induction as arbitrary: a) simp_all

lemma json_rest_delimited: "json_rest as @ CHR 0x5D # x = json_rest bs @ CHR 0x5D # y \<Longrightarrow> as = bs \<and> x = y"
proof (induction as arbitrary: bs)
  case Nil
  then show ?case by (cases bs) auto
next
  case (Cons a as)
  then show ?case by (cases bs) auto
qed

lemma json_array_delimited:
  "json_array (map json_string as) @ x = json_array (map json_string bs) @ y \<longleftrightarrow> as = bs \<and> x = y"
proof
  assume eq: "json_array (map json_string as) @ x = json_array (map json_string bs) @ y"
  show "as = bs \<and> x = y"
  proof (cases as; cases bs)
    fix a as' b bs' assume "as = a # as'" "bs = b # bs'"
    then show ?thesis
      using eq json_rest_delimited [of as' x bs' y] unfolding json_array_def
      by (simp only: join_json_strings append_assoc append_Cons append_Nil list.inject json_string_append_iff)
  next
    fix a as' assume "as = a # as'" "bs = []"
    then show ?thesis
      using eq unfolding json_array_def by (simp add: join_json_strings [simplified]) (simp add: json_string_def)
  next
    fix a as' assume "as = []" "bs = a # as'"
    then show ?thesis
      using eq unfolding json_array_def by (simp add: join_json_strings [simplified]) (simp add: json_string_def)
  qed (use eq in \<open>simp_all add: json_array_def\<close>)
qed simp

lemma sorted_strings_append_iff [simp]:
  "sorted_strings as @ x = sorted_strings bs @ y \<longleftrightarrow> mset as = mset bs \<and> x = y"
  unfolding sorted_strings_def json_array_delimited by (metis mset_sort properties_for_sort sorted_sort)

text \<open>Decimal numerals end where a character that is no digit stands.\<close>

definition digit :: "char \<Rightarrow> bool" where
  "digit c \<longleftrightarrow> 48 \<le> (of_char c :: nat) \<and> (of_char c :: nat) \<le> 57"

lemma json_nat_digits: "list_all digit (json_nat n)"
  proof (induction n rule: json_nat.induct)
  case (1 n)
  then show ?case
    by (subst json_nat.simps) (auto simp: digit_def [abs_def])
qed


lemma json_nat_nonempty: "json_nat n \<noteq> []"
  by (subst json_nat.simps) simp

lemma digit_char: "d < 10 \<Longrightarrow> (of_char (char_of (48 + d) :: char) :: nat) = 48 + d"
  by simp

lemma json_nat_inject: "json_nat m = json_nat n \<Longrightarrow> m = n"
proof (induction m arbitrary: n rule: json_nat.induct)
  case (1 m)
  have small: "m' = n'" if "char_of (48 + m') = (char_of (48 + n') :: char)" "m' < 10" "n' < 10" for m' n' :: nat
    using that digit_char [of m'] digit_char [of n'] by simp
  show ?case
  proof (cases "m < 10 \<or> n < 10")
    case True
    then show ?thesis
      using "1.prems" json_nat_nonempty [of "m div 10"] json_nat_nonempty [of "n div 10"] small [of m n]
      by (subst (asm) (1 2) json_nat.simps) (auto simp del: char_of_eq_iff split: if_split_asm)
  next
    case False
    then have eq: "json_nat (m div 10) @ [char_of (48 + m mod 10)] = json_nat (n div 10) @ [char_of (48 + n mod 10)]"
      using "1.prems" by (subst (asm) (1 2) json_nat.simps) simp
    then have "m div 10 = n div 10" using "1.IH" False by simp
    moreover have "m mod 10 = n mod 10" using eq by (intro small) simp_all
    ultimately show ?thesis by (metis div_mult_mod_eq)
  qed
qed

lemma json_nat_delimited:
  assumes "\<not> digit c"
  shows "json_nat m @ c # x = json_nat n @ c # y \<longleftrightarrow> m = n \<and> x = y"
proof
  assume eq: "json_nat m @ c # x = json_nat n @ c # y"
  have "takeWhile digit (json_nat k @ c # z) = json_nat k" for k z
    using json_nat_digits [of k] assms by (simp add: list_all_iff)
  then have "json_nat m = json_nat n" using eq by metis
  then show "m = n \<and> x = y" using eq json_nat_inject by simp
qed simp

lemma json_nat_comma [simp]: "json_nat m @ CHR '','' # x = json_nat n @ CHR '','' # y \<longleftrightarrow> m = n \<and> x = y"
  by (rule json_nat_delimited) (simp add: digit_def)

lemma json_nat_brace [simp]: "json_nat m @ CHR 0x7D # x = json_nat n @ CHR 0x7D # y \<longleftrightarrow> m = n \<and> x = y"
  by (rule json_nat_delimited) (simp add: digit_def)





text \<open>
  The sibling summaries are documented as ordered, oldest first; the text that carries them sorts them, so packs
  whose summaries differ in order only are indistinguishable to the harness.
\<close>

lemma sibling_order_lost:
  assumes "mset xs = mset ys"
  shows "canonicalContextPackJson (a\<lparr>cx_plan := p\<lparr>plc_siblingSummaries := xs\<rparr>\<rparr>)
    = canonicalContextPackJson (a\<lparr>cx_plan := p\<lparr>plc_siblingSummaries := ys\<rparr>\<rparr>)"
proof -
  have "sort xs = sort ys" using assms by (metis mset_sort properties_for_sort sorted_sort)
  then show ?thesis by (simp add: canonicalContextPackJson_def sorted_strings_def)
qed


end
