(* ===== verification/Scheduler_Store.thy ===== *)
theory Scheduler_Store
  imports Value_Objects "HOL-Library.Product_Lexorder" "HOL-Library.Sublist"
begin

text \<open>
  \<^verbatim>\<open>packages/core/src/scheduler.ts\<close> and \<^verbatim>\<open>packages/adapters/src/sqlite/scheduler-store.ts\<close>: claiming ready
  nodes under leases with fencing tokens, heartbeats, release, cancellation and the recovery of expired
  leases. The tables the statements touch are lists of rows in insertion order, with the columns they read or
  write. Each statement is the function its SQL computes; the checks, unique indexes and triggers of the
  migrations that these statements can violate are part of it, and a violated one aborts the transaction.
  Foreign keys hold because every row written copies the keys of a row just read.
\<close>

section \<open>Core values\<close>

definition scheduler_uuid :: "string \<Rightarrow> bool" where
  "scheduler_uuid s \<longleftrightarrow> fits (uuid_shape (\<lambda>c. c \<in> set ''12345678'')) s"

definition schedulerLeaseId :: "string \<Rightarrow> string checked" where
  "schedulerLeaseId s = (if \<not> scheduler_uuid s then Inl Invalid_value else Inr s)"

definition schedulerOwnerId :: "string \<Rightarrow> string checked" where
  "schedulerOwnerId s = (if length (js_trim s) = 0 then Inl Invalid_value else Inr s)"

definition fencingToken :: "int \<Rightarrow> int checked" where
  "fencingToken v = (if v \<le> 0 then Inl Invalid_value else Inr v)"

definition requirePositiveSafeInteger :: "number \<Rightarrow> int checked" where
  "requirePositiveSafeInteger v =
     (if \<not> isSafeInteger v \<or> int_of_number v \<le> 0 then Inl Invalid_value else Inr (int_of_number v))"

record capacity_policy =
  cp_maxActiveGlobal :: int
  cp_maxActivePerTree :: int

definition schedulerCapacityPolicy :: "number \<Rightarrow> number \<Rightarrow> capacity_policy checked" where
  "schedulerCapacityPolicy g t =
     bindE (requirePositiveSafeInteger g) (\<lambda>g'.
     bindE (requirePositiveSafeInteger t) (\<lambda>t'. Inr \<lparr>cp_maxActiveGlobal = g', cp_maxActivePerTree = t'\<rparr>))"

definition validateSchedulerTiming :: "number \<Rightarrow> number \<Rightarrow> unit checked" where
  "validateSchedulerTiming lease poll =
     bindE (requirePositiveSafeInteger lease) (\<lambda>l.
     bindE (requirePositiveSafeInteger poll) (\<lambda>p.
     guardE (p < l) Invalid_value))"

section \<open>Tables\<close>

datatype scheduler_error =
    Sce_invalid_request | Sce_lease_not_found | Sce_stale_lease | Sce_expired_lease | Sce_corrupt
  | Sce_arithmetic_overflow | Sce_domain domain_error_code | Sce_constraint

datatype node_kind =
    Nk_planned | Nk_ready | Nk_active | Nk_blocked | Nk_succeeded | Nk_failed | Nk_cancelled | Nk_superseded

datatype outcome_kind = Oc_artifact | Oc_commit | Oc_no_change

record blocker_row =
  bk_kind :: string
  bk_evidence :: string
  bk_parent :: "string option"
  bk_host :: "string option"

record node_row =
  nd_id :: string
  nd_tree :: string
  nd_repository :: string
  nd_host :: string
  nd_plan :: string
  nd_parent :: "string option"
  nd_state :: node_kind
  nd_resume :: "node_kind option"
  nd_blocker :: "blocker_row option"
  nd_outcomeKind :: "outcome_kind option"
  nd_outcomeArtifact :: "string option"
  nd_outcomeCommit :: "string option"
  nd_outcomeEvidence :: "string option"
  nd_outcomeExplanation :: "string option"
  nd_terminalEvidence :: "string option"
  nd_version :: int
  nd_created :: int
  nd_updated :: int

record outcome_row =
  oc_node :: string
  oc_kind :: outcome_kind
  oc_artifact :: "string option"
  oc_revision :: "string option"
  oc_evidence :: "string option"
  oc_explanation :: "string option"

record tree_row =
  te_id :: string
  te_root :: string
  te_activePlan :: string
  te_created :: int
  te_archived :: "int option"

record repository_row =
  rw_id :: string
  rw_archived :: "int option"

datatype plan_kind = Plan_draft | Plan_approved | Plan_superseded

record plan_row =
  pv_id :: string
  pv_tree :: string
  pv_state :: plan_kind

record budget_row =
  bg_tree :: string
  bg_maxConcurrency :: int
  bg_maxAttemptsPerNode :: int

record policy_row =
  np_node :: string
  np_maxAttempts :: int

datatype attempt_kind = Ak_active | Ak_succeeded | Ak_failed | Ak_cancelled

record attempt_row =
  at_id :: string
  at_node :: string
  at_tree :: string
  at_repository :: string
  at_host :: string
  at_plan :: string
  at_ordinal :: int
  at_state :: attempt_kind
  at_version :: int
  at_started :: int
  at_finished :: "int option"
  at_evidence :: "string option"

datatype lease_kind = Lk_active | Lk_released | Lk_expired | Lk_cancelled

record lease_row =
  sl_id :: string
  sl_attempt :: string
  sl_node :: string
  sl_tree :: string
  sl_repository :: string
  sl_host :: string
  sl_owner :: string
  sl_token :: int
  sl_state :: lease_kind
  sl_acquired :: int
  sl_heartbeat :: int
  sl_expires :: int
  sl_released :: "int option"

record harness_row =
  hp_attempt :: string
  hp_active :: bool
  hp_released :: "int option"

record sched_db =
  db_nodes :: "node_row list"
  db_outcomes :: "outcome_row list"
  db_trees :: "tree_row list"
  db_repositories :: "repository_row list"
  db_plans :: "plan_row list"
  db_budgets :: "budget_row list"
  db_policies :: "policy_row list"
  db_attempts :: "attempt_row list"
  db_leases :: "lease_row list"
  db_fences :: "(string \<times> int) list"
  db_harness :: "harness_row list"

section \<open>Transactions\<close>

type_synonym 'a tx = "sched_db \<Rightarrow> scheduler_error + 'a \<times> sched_db"

definition bindT :: "'a tx \<Rightarrow> ('a \<Rightarrow> 'b tx) \<Rightarrow> 'b tx" where
  "bindT m f db = (case m db of Inl e \<Rightarrow> Inl e | Inr (x, db') \<Rightarrow> f x db')"

definition returnT :: "'a \<Rightarrow> 'a tx" where
  "returnT x db = Inr (x, db)"

definition throwT :: "scheduler_error \<Rightarrow> 'a tx" where
  "throwT e db = Inl e"

definition liftT :: "scheduler_error + 'a \<Rightarrow> 'a tx" where
  "liftT m db = (case m of Inl e \<Rightarrow> Inl e | Inr x \<Rightarrow> Inr (x, db))"

definition queryT :: "(sched_db \<Rightarrow> 'a) \<Rightarrow> 'a tx" where
  "queryT q db = Inr (q db, db)"

text \<open>A write transaction that throws leaves the database as it was.\<close>

definition executeWrite :: "'a tx \<Rightarrow> sched_db \<Rightarrow> (scheduler_error + 'a) \<times> sched_db" where
  "executeWrite m db = (case m db of Inl e \<Rightarrow> (Inl e, db) | Inr (x, db') \<Rightarrow> (Inr x, db'))"

definition domainT :: "'a checked \<Rightarrow> 'a tx" where
  "domainT c = liftT (case c of Inl e \<Rightarrow> Inl (Sce_domain e) | Inr x \<Rightarrow> Inr x)"

lemma bindT_Inr_iff [res_simps]: "bindT m f db = Inr r \<longleftrightarrow> (\<exists>x db'. m db = Inr (x, db') \<and> f x db' = Inr r)"
  by (auto simp: bindT_def split: sum.splits prod.splits)

lemma returnT_iff [res_simps]: "returnT x db = Inr r \<longleftrightarrow> r = (x, db)"
  by (auto simp: returnT_def)

lemma throwT_iff [res_simps]: "throwT e db = Inr r \<longleftrightarrow> False"
  by (simp add: throwT_def)

lemma liftT_iff [res_simps]: "liftT m db = Inr r \<longleftrightarrow> (\<exists>x. m = Inr x \<and> r = (x, db))"
  by (auto simp: liftT_def split: sum.splits)

lemma queryT_iff [res_simps]: "queryT q db = Inr r \<longleftrightarrow> r = (q db, db)"
  by (auto simp: queryT_def)

lemma domainT_iff [res_simps]: "domainT c db = Inr r \<longleftrightarrow> (\<exists>x. c = Inr x \<and> r = (x, db))"
  by (auto simp: domainT_def liftT_def split: sum.splits)

section \<open>Statements on the tables\<close>

text \<open>The row checks of the migrations: nodes, attempts, leases.\<close>

definition node_check :: "node_row \<Rightarrow> bool" where
  "node_check r \<longleftrightarrow> nd_created r \<le> nd_updated r \<and>
     (nd_state r = Nk_blocked \<longleftrightarrow> nd_blocker r \<noteq> None) \<and> (nd_state r = Nk_blocked \<longleftrightarrow> nd_resume r \<noteq> None) \<and>
     (nd_terminalEvidence r \<noteq> None \<longleftrightarrow> nd_state r = Nk_failed \<or> nd_state r = Nk_cancelled)"

definition attempt_check :: "attempt_row \<Rightarrow> bool" where
  "attempt_check r \<longleftrightarrow> (case at_finished r of
      None \<Rightarrow> at_state r = Ak_active
    | Some t \<Rightarrow> at_state r \<noteq> Ak_active \<and> at_started r \<le> t)"

definition lease_check :: "lease_row \<Rightarrow> bool" where
  "lease_check r \<longleftrightarrow> 0 < sl_token r \<and> sl_acquired r \<le> sl_heartbeat r \<and> sl_heartbeat r < sl_expires r \<and>
     (case sl_released r of None \<Rightarrow> sl_state r = Lk_active
      | Some t \<Rightarrow> sl_state r \<noteq> Lk_active \<and> sl_heartbeat r \<le> t)"

definition update_nodes :: "(node_row \<Rightarrow> bool) \<Rightarrow> (node_row \<Rightarrow> node_row) \<Rightarrow> nat tx" where
  "update_nodes p f db =
     (if list_all (\<lambda>r. node_check (f r)) (filter p (db_nodes db))
      then Inr (length (filter p (db_nodes db)), db\<lparr>db_nodes := map (\<lambda>r. if p r then f r else r) (db_nodes db)\<rparr>)
      else Inl Sce_constraint)"

definition insert_attempt :: "attempt_row \<Rightarrow> unit tx" where
  "insert_attempt a db =
     (if attempt_check a \<and> at_id a \<notin> set (map at_id (db_attempts db)) \<and>
        (at_node a, at_ordinal a) \<notin> set (map (\<lambda>b. (at_node b, at_ordinal b)) (db_attempts db))
      then Inr ((), db\<lparr>db_attempts := db_attempts db @ [a]\<rparr>) else Inl Sce_constraint)"

definition insert_lease :: "lease_row \<Rightarrow> unit tx" where
  "insert_lease l db =
     (if lease_check l \<and> sl_id l \<notin> set (map sl_id (db_leases db)) \<and>
        sl_attempt l \<notin> set (map sl_attempt (db_leases db)) \<and>
        (sl_node l, sl_token l) \<notin> set (map (\<lambda>k. (sl_node k, sl_token k)) (db_leases db)) \<and>
        (sl_state l = Lk_active \<longrightarrow> sl_node l \<notin> set (map sl_node (filter (\<lambda>k. sl_state k = Lk_active) (db_leases db))))
      then Inr ((), db\<lparr>db_leases := db_leases db @ [l]\<rparr>) else Inl Sce_constraint)"

text \<open>The triggers on leases: only an active lease changes, a heartbeat advances, an end is not before it.\<close>

definition heartbeat_legal :: "lease_row \<Rightarrow> lease_row \<Rightarrow> bool" where
  "heartbeat_legal old new \<longleftrightarrow> sl_state old = Lk_active \<and> sl_state new = Lk_active \<and>
     sl_heartbeat old < sl_heartbeat new \<and> sl_expires old < sl_expires new"

definition ending_legal :: "lease_row \<Rightarrow> lease_row \<Rightarrow> bool" where
  "ending_legal old new \<longleftrightarrow> sl_state old = Lk_active \<and> sl_state new \<noteq> Lk_active \<and>
     (case sl_released new of None \<Rightarrow> False | Some t \<Rightarrow> sl_heartbeat old \<le> t)"

definition update_lease ::
    "(lease_row \<Rightarrow> lease_row \<Rightarrow> bool) \<Rightarrow> string \<Rightarrow> (lease_row \<Rightarrow> lease_row) \<Rightarrow> unit tx" where
  "update_lease legal i f db =
     (if list_all (\<lambda>l. legal l (f l) \<and> lease_check (f l)) (filter (\<lambda>l. sl_id l = i) (db_leases db))
      then Inr ((), db\<lparr>db_leases := map (\<lambda>l. if sl_id l = i then f l else l) (db_leases db)\<rparr>)
      else Inl Sce_constraint)"

text \<open>The trigger on attempts: none ends while its harness process holds a lease.\<close>

definition finishActiveAttempt :: "string \<Rightarrow> attempt_kind \<Rightarrow> int \<Rightarrow> string \<Rightarrow> bool tx" where
  "finishActiveAttempt attempt state now evidence db =
     (let hit = (\<lambda>a. at_id a = attempt \<and> at_state a = Ak_active);
          f = (\<lambda>a. a\<lparr>at_state := state, at_version := at_version a + 1, at_finished := Some now, at_evidence := Some evidence\<rparr>);
          rows = filter hit (db_attempts db)
      in if list_all (\<lambda>a. attempt_check (f a)) rows \<and>
           (rows = [] \<or> \<not> list_ex (\<lambda>h. hp_attempt h = attempt \<and> hp_active h) (db_harness db))
         then Inr (length rows = 1, db\<lparr>db_attempts := map (\<lambda>a. if hit a then f a else a) (db_attempts db)\<rparr>)
         else Inl Sce_constraint)"

definition releaseHarnessProcessLease :: "string \<Rightarrow> int \<Rightarrow> unit tx" where
  "releaseHarnessProcessLease attempt now db = Inr ((), db\<lparr>db_harness := map (\<lambda>h.
     if hp_attempt h = attempt \<and> hp_active h then h\<lparr>hp_active := False, hp_released := Some now\<rparr> else h) (db_harness db)\<rparr>)"

section \<open>Projections and selection\<close>

text \<open>Equality of SQL, false on \<open>NULL\<close>.\<close>

definition sql_eq :: "'a option \<Rightarrow> 'a option \<Rightarrow> bool" where
  "sql_eq x y \<longleftrightarrow> x \<noteq> None \<and> x = y"

definition normalizedOutcomePredicate :: "node_row \<Rightarrow> outcome_row \<Rightarrow> bool" where
  "normalizedOutcomePredicate p oc \<longleftrightarrow>
     (oc_kind oc = Oc_artifact \<and> nd_outcomeKind p = Some Oc_artifact \<and> sql_eq (nd_outcomeArtifact p) (oc_artifact oc)) \<or>
     (oc_kind oc = Oc_commit \<and> nd_outcomeKind p = Some Oc_commit \<and> sql_eq (nd_outcomeCommit p) (oc_revision oc) \<and>
        sql_eq (nd_outcomeEvidence p) (oc_evidence oc) \<and> nd_outcomeExplanation p = None) \<or>
     (oc_kind oc = Oc_no_change \<and> nd_outcomeKind p = Some Oc_no_change \<and> sql_eq (nd_outcomeEvidence p) (oc_evidence oc) \<and>
        sql_eq (nd_outcomeExplanation p) (oc_explanation oc))"

definition parent_succeeded :: "sched_db \<Rightarrow> node_row \<Rightarrow> bool" where
  "parent_succeeded db n \<longleftrightarrow> list_ex (\<lambda>p. nd_parent n = Some (nd_id p) \<and> nd_tree p = nd_tree n \<and>
     nd_state p = Nk_succeeded \<and>
     list_ex (\<lambda>oc. oc_node oc = nd_id p \<and> normalizedOutcomePredicate p oc) (db_outcomes db)) (db_nodes db)"

text \<open>The joins on the tree, the repository and the active, approved plan revision of a node.\<close>

definition tree_of :: "sched_db \<Rightarrow> node_row \<Rightarrow> tree_row option" where
  "tree_of db n = find_first (\<lambda>t. te_id t = nd_tree n) (db_trees db)"

definition in_active_plan :: "sched_db \<Rightarrow> node_row \<Rightarrow> bool" where
  "in_active_plan db n = (case tree_of db n of
      None \<Rightarrow> False
    | Some t \<Rightarrow> nd_plan n = te_activePlan t \<and> te_archived t = None \<and>
        list_ex (\<lambda>r. rw_id r = nd_repository n \<and> rw_archived r = None) (db_repositories db) \<and>
        list_ex (\<lambda>p. pv_id p = te_activePlan t \<and> pv_tree p = te_id t \<and> pv_state p = Plan_approved) (db_plans db))"

definition active_leases :: "sched_db \<Rightarrow> lease_row list" where
  "active_leases db = filter (\<lambda>l. sl_state l = Lk_active) (db_leases db)"

definition tree_leases :: "sched_db \<Rightarrow> string \<Rightarrow> lease_row list" where
  "tree_leases db t = filter (\<lambda>l. sl_tree l = t) (active_leases db)"

definition attempts_of :: "sched_db \<Rightarrow> string \<Rightarrow> attempt_row list" where
  "attempts_of db n = filter (\<lambda>a. at_node a = n) (db_attempts db)"

definition budget_of :: "sched_db \<Rightarrow> string \<Rightarrow> budget_row option" where
  "budget_of db t = find_first (\<lambda>b. bg_tree b = t) (db_budgets db)"

definition policy_of :: "sched_db \<Rightarrow> string \<Rightarrow> policy_row option" where
  "policy_of db n = find_first (\<lambda>p. np_node p = n) (db_policies db)"

text \<open>The \<open>WHERE\<close> clause of \<open>selectEligibleNode\<close>.\<close>

definition eligible :: "int \<Rightarrow> int \<Rightarrow> sched_db \<Rightarrow> node_row \<Rightarrow> bool" where
  "eligible maxGlobal maxPerTree db n = (case (tree_of db n, budget_of db (nd_tree n), policy_of db (nd_id n)) of
      (Some t, Some b, Some p) \<Rightarrow>
        nd_state n = Nk_ready \<and> in_active_plan db n \<and>
        (nd_parent n = Some (te_root t) \<or> parent_succeeded db n) \<and>
        int (length (active_leases db)) < maxGlobal \<and>
        int (length (tree_leases db (nd_tree n))) < min maxPerTree (bg_maxConcurrency b) \<and>
        \<not> list_ex (\<lambda>l. sl_node l = nd_id n) (active_leases db) \<and>
        int (length (attempts_of db (nd_id n))) < min (np_maxAttempts p) (bg_maxAttemptsPerNode b)
    | _ \<Rightarrow> False)"

text \<open>\<open>ORDER BY\<close> and \<open>LIMIT 1\<close>.\<close>

definition claim_key :: "sched_db \<Rightarrow> node_row \<Rightarrow> int \<times> string \<times> int \<times> string" where
  "claim_key db n = (case tree_of db n of
      None \<Rightarrow> (0, [], nd_created n, nd_id n)
    | Some t \<Rightarrow> (te_created t, te_id t, nd_created n, nd_id n))"

definition selectEligibleNode :: "int \<Rightarrow> int \<Rightarrow> sched_db \<Rightarrow> node_row option" where
  "selectEligibleNode g t db = (case sort_key (claim_key db) (filter (eligible g t db) (db_nodes db)) of
      [] \<Rightarrow> None
    | n # _ \<Rightarrow> Some n)"

definition projectReadyChildren :: "int \<Rightarrow> nat tx" where
  "projectReadyChildren now db = update_nodes
     (\<lambda>n. nd_state n = Nk_planned \<and> parent_succeeded db n \<and> in_active_plan db n)
     (\<lambda>n. n\<lparr>nd_state := Nk_ready, nd_version := nd_version n + 1, nd_updated := now\<rparr>) db"

text \<open>
  The recursive query of \<open>blockDescendants\<close>: the nodes whose chain of parents reaches the given one. A chain
  has at most one step per node, since no node is its own ancestor.
\<close>

primrec below :: "node_row list \<Rightarrow> nat \<Rightarrow> string \<Rightarrow> string option \<Rightarrow> bool" where
  "below rows 0 ancestor parent = False"
| "below rows (Suc k) ancestor parent = (case parent of
      None \<Rightarrow> False
    | Some p \<Rightarrow> p = ancestor \<or> (case find_first (\<lambda>r. nd_id r = p) rows of
        None \<Rightarrow> False
      | Some r \<Rightarrow> below rows k ancestor (nd_parent r)))"

definition blockDescendants :: "string \<Rightarrow> string \<Rightarrow> int \<Rightarrow> unit tx" where
  "blockDescendants parent evidence now = (\<lambda>db. bindT (update_nodes
     (\<lambda>n. below (db_nodes db) (length (db_nodes db)) parent (nd_parent n) \<and>
        (nd_state n = Nk_planned \<or> nd_state n = Nk_ready \<or> nd_state n = Nk_active))
     (\<lambda>n. n\<lparr>nd_state := Nk_blocked, nd_resume := Some (if nd_state n = Nk_active then Nk_active else Nk_ready),
        nd_blocker := Some \<lparr>bk_kind = ''parent'', bk_evidence = evidence, bk_parent = Some parent, bk_host = None\<rparr>,
        nd_version := nd_version n + 1, nd_updated := now\<rparr>)) (\<lambda>_. returnT ()) db)"

fun block_loop :: "(string \<times> string) list \<Rightarrow> int \<Rightarrow> unit tx" where
  "block_loop [] now = returnT ()"
| "block_loop ((n, evidence) # rest) now = bindT (blockDescendants n evidence now) (\<lambda>_. block_loop rest now)"

definition failed_nodes :: "sched_db \<Rightarrow> (string \<times> string) list" where
  "failed_nodes db = map (\<lambda>n. (nd_id n, the (nd_terminalEvidence n)))
     (sort_key (\<lambda>n. (nd_updated n, nd_id n))
       (filter (\<lambda>n. (nd_state n = Nk_failed \<or> nd_state n = Nk_cancelled) \<and> nd_terminalEvidence n \<noteq> None) (db_nodes db)))"

definition projectFailedDescendants :: "int \<Rightarrow> unit tx" where
  "projectFailedDescendants now = bindT (queryT failed_nodes) (\<lambda>failed. block_loop failed now)"

definition allocateFence :: "string \<Rightarrow> int tx" where
  "allocateFence n db = (case map_of (db_fences db) n of
      None \<Rightarrow> Inr (1, db\<lparr>db_fences := db_fences db @ [(n, 2)]\<rparr>)
    | Some token \<Rightarrow>
        if token \<ge> max_safe_integer then Inl Sce_arithmetic_overflow
        else Inr (token, db\<lparr>db_fences := map (\<lambda>(k, t). if k = n then (k, token + 1) else (k, t)) (db_fences db)\<rparr>))"

definition nextAttemptOrdinal :: "string \<Rightarrow> int tx" where
  "nextAttemptOrdinal n db =
     (let ordinal = fold (\<lambda>a m. max m (at_ordinal a)) (attempts_of db n) 0 + 1
      in if ordinal > max_safe_integer then Inl Sce_arithmetic_overflow else Inr (ordinal, db))"

section \<open>Requests\<close>

record lease_reference =
  lf_id :: string
  lf_owner :: string
  lf_token :: int

definition timestampNumber :: "int \<Rightarrow> scheduler_error + int" where
  "timestampNumber v = (if \<not> safe_int v \<or> v < 0 then Inl Sce_invalid_request else Inr v)"

definition addDuration :: "int \<Rightarrow> number \<Rightarrow> scheduler_error + int" where
  "addDuration now duration =
     (if \<not> isSafeInteger duration \<or> int_of_number duration \<le> 0 then Inl Sce_invalid_request
      else let result = now + int_of_number duration in
        if \<not> safe_int result then Inl Sce_arithmetic_overflow else Inr result)"

definition requireCapacity :: "int \<Rightarrow> scheduler_error + unit" where
  "requireCapacity v = guardE (safe_int v \<and> 0 < v) Sce_invalid_request"

definition readLease :: "string \<Rightarrow> lease_row tx" where
  "readLease i = bindT (queryT (\<lambda>db. find_first (\<lambda>l. sl_id l = i) (db_leases db))) (\<lambda>found. case found of
      None \<Rightarrow> throwT Sce_corrupt
    | Some l \<Rightarrow>
        bindT (domainT (attemptId (sl_attempt l))) (\<lambda>_.
        bindT (domainT (fencingToken (sl_token l))) (\<lambda>_. returnT l)))"

definition requireLeaseReference :: "lease_reference \<Rightarrow> lease_row tx" where
  "requireLeaseReference ref = bindT (queryT (\<lambda>db. find_first (\<lambda>l. sl_id l = lf_id ref) (db_leases db))) (\<lambda>found. case found of
      None \<Rightarrow> throwT Sce_lease_not_found
    | Some l \<Rightarrow> if sl_owner l \<noteq> lf_owner ref \<or> sl_token l \<noteq> lf_token ref then throwT Sce_stale_lease else returnT l)"

definition requireActiveUnexpired :: "lease_row \<Rightarrow> int \<Rightarrow> scheduler_error + unit" where
  "requireActiveUnexpired l now = guardE (sl_state l = Lk_active \<and> now < sl_expires l) Sce_expired_lease"

fun isTerminalNodeState :: "node_kind \<Rightarrow> bool" where
  "isTerminalNodeState Nk_succeeded = True"
| "isTerminalNodeState Nk_failed = True"
| "isTerminalNodeState Nk_cancelled = True"
| "isTerminalNodeState Nk_superseded = True"
| "isTerminalNodeState _ = False"

section \<open>Operations\<close>

record claim_request =
  cq_owner :: string
  cq_at :: int
  cq_leaseDurationMs :: number
  cq_capacity :: capacity_policy

definition new_attempt :: "string \<Rightarrow> node_row \<Rightarrow> int \<Rightarrow> int \<Rightarrow> attempt_row" where
  "new_attempt i n ordinal now = \<lparr>at_id = i, at_node = nd_id n, at_tree = nd_tree n, at_repository = nd_repository n,
     at_host = nd_host n, at_plan = nd_plan n, at_ordinal = ordinal, at_state = Ak_active, at_version = 0,
     at_started = now, at_finished = None, at_evidence = None\<rparr>"

definition new_lease :: "string \<Rightarrow> string \<Rightarrow> node_row \<Rightarrow> string \<Rightarrow> int \<Rightarrow> int \<Rightarrow> int \<Rightarrow> lease_row" where
  "new_lease i attempt n owner token now expires = \<lparr>sl_id = i, sl_attempt = attempt, sl_node = nd_id n,
     sl_tree = nd_tree n, sl_repository = nd_repository n, sl_host = nd_host n, sl_owner = owner, sl_token = token,
     sl_state = Lk_active, sl_acquired = now, sl_heartbeat = now, sl_expires = expires, sl_released = None\<rparr>"

text \<open>Claiming the node that was selected, with the ids drawn for the attempt and the lease.\<close>

definition claim_node :: "string \<Rightarrow> string \<Rightarrow> string \<Rightarrow> int \<Rightarrow> int \<Rightarrow> node_row \<Rightarrow> lease_row tx" where
  "claim_node freshAttempt freshLease owner now expires n =
     bindT (nextAttemptOrdinal (nd_id n)) (\<lambda>ordinal.
     bindT (allocateFence (nd_id n)) (\<lambda>token.
     bindT (domainT (attemptId freshAttempt)) (\<lambda>newAttempt.
     bindT (domainT (schedulerLeaseId freshLease)) (\<lambda>newLease.
     bindT (update_nodes (\<lambda>r. nd_id r = nd_id n \<and> nd_state r = Nk_ready)
        (\<lambda>r. r\<lparr>nd_state := Nk_active, nd_version := nd_version r + 1, nd_updated := now\<rparr>)) (\<lambda>changed.
     bindT (liftT (guardE (changed = 1) Sce_corrupt)) (\<lambda>_.
     bindT (insert_attempt (new_attempt newAttempt n ordinal now)) (\<lambda>_.
     bindT (insert_lease (new_lease newLease newAttempt n owner token now expires)) (\<lambda>_.
     readLease newLease))))))))"

definition claimNext :: "string \<Rightarrow> string \<Rightarrow> claim_request \<Rightarrow> sched_db \<Rightarrow> (scheduler_error + lease_row option) \<times> sched_db" where
  "claimNext freshAttempt freshLease rq db =
     (let cap = cq_capacity rq in
      case bindE (timestampNumber (cq_at rq)) (\<lambda>now.
           bindE (addDuration now (cq_leaseDurationMs rq)) (\<lambda>expires.
           bindE (requireCapacity (cp_maxActiveGlobal cap)) (\<lambda>_.
           bindE (requireCapacity (cp_maxActivePerTree cap)) (\<lambda>_. Inr (now, expires))))) of
        Inl e \<Rightarrow> (Inl e, db)
      | Inr (now, expires) \<Rightarrow> executeWrite (
          bindT (projectReadyChildren now) (\<lambda>_.
          bindT (projectFailedDescendants now) (\<lambda>_.
          bindT (queryT (selectEligibleNode (cp_maxActiveGlobal cap) (cp_maxActivePerTree cap))) (\<lambda>candidate.
          case candidate of
            None \<Rightarrow> returnT None
          | Some n \<Rightarrow> bindT (claim_node freshAttempt freshLease (cq_owner rq) now expires n) (\<lambda>l. returnT (Some l)))))) db)"

definition heartbeat :: "lease_reference \<Rightarrow> int \<Rightarrow> number \<Rightarrow> sched_db \<Rightarrow> (scheduler_error + lease_row) \<times> sched_db" where
  "heartbeat ref at0 duration db =
     (case bindE (timestampNumber at0) (\<lambda>now. bindE (addDuration now duration) (\<lambda>expires. Inr (now, expires))) of
        Inl e \<Rightarrow> (Inl e, db)
      | Inr (now, expires) \<Rightarrow> executeWrite (
          bindT (requireLeaseReference ref) (\<lambda>row.
          bindT (liftT (requireActiveUnexpired row now)) (\<lambda>_.
          bindT (liftT (guardE (sl_heartbeat row < now) Sce_invalid_request)) (\<lambda>_.
          bindT (update_lease heartbeat_legal (lf_id ref) (\<lambda>l. l\<lparr>sl_heartbeat := now, sl_expires := expires\<rparr>)) (\<lambda>_.
          readLease (lf_id ref)))))) db)"

definition retryOrFailNode :: "string \<Rightarrow> int \<Rightarrow> string \<Rightarrow> bool tx" where
  "retryOrFailNode n now evidence =
     bindT (queryT (\<lambda>db. (find_first (\<lambda>r. nd_id r = n) (db_nodes db), policy_of db n, length (attempts_of db n), db))) (\<lambda>(row, policy, used, db).
     case (row, policy) of
       (Some r, Some p) \<Rightarrow> (case budget_of db (nd_tree r) of
          None \<Rightarrow> throwT Sce_corrupt
        | Some b \<Rightarrow>
            if int used < min (np_maxAttempts p) (bg_maxAttemptsPerNode b)
            then bindT (update_nodes (\<lambda>r. nd_id r = n \<and> nd_state r = Nk_active)
                   (\<lambda>r. r\<lparr>nd_state := Nk_ready, nd_resume := None, nd_blocker := None,
                      nd_version := nd_version r + 1, nd_updated := now\<rparr>)) (\<lambda>_. returnT True)
            else bindT (update_nodes (\<lambda>r. nd_id r = n \<and> nd_state r = Nk_active)
                   (\<lambda>r. r\<lparr>nd_state := Nk_failed, nd_terminalEvidence := Some evidence, nd_resume := None,
                      nd_blocker := None, nd_version := nd_version r + 1, nd_updated := now\<rparr>)) (\<lambda>_.
                 bindT (blockDescendants n evidence now) (\<lambda>_. returnT False)))
     | _ \<Rightarrow> throwT Sce_corrupt)"

definition end_lease :: "string \<Rightarrow> lease_kind \<Rightarrow> int \<Rightarrow> unit tx" where
  "end_lease i state now = update_lease ending_legal i (\<lambda>l. l\<lparr>sl_state := state, sl_released := Some now\<rparr>)"

definition release :: "string \<Rightarrow> lease_reference \<Rightarrow> int \<Rightarrow> sched_db \<Rightarrow> (scheduler_error + unit) \<times> sched_db" where
  "release freshEvidence ref at0 db = (case timestampNumber at0 of
      Inl e \<Rightarrow> (Inl e, db)
    | Inr now \<Rightarrow> executeWrite (
        bindT (requireLeaseReference ref) (\<lambda>row.
        bindT (liftT (requireActiveUnexpired row now)) (\<lambda>_.
        bindT (queryT (\<lambda>db. find_first (\<lambda>a. at_id a = sl_attempt row) (db_attempts db))) (\<lambda>attempt. case attempt of
          None \<Rightarrow> throwT Sce_corrupt
        | Some a \<Rightarrow>
            bindT (end_lease (lf_id ref) Lk_released now) (\<lambda>_.
            if at_state a = Ak_active then
              bindT (domainT (evidenceId freshEvidence)) (\<lambda>evidence.
              bindT (finishActiveAttempt (sl_attempt row) Ak_failed now evidence) (\<lambda>_.
              bindT (retryOrFailNode (sl_node row) now evidence) (\<lambda>_. returnT ())))
            else returnT ()))))) db)"

definition cancelNode :: "string \<Rightarrow> string \<Rightarrow> int \<Rightarrow> sched_db \<Rightarrow> (scheduler_error + unit) \<times> sched_db" where
  "cancelNode n evidence at0 db = (case timestampNumber at0 of
      Inl e \<Rightarrow> (Inl e, db)
    | Inr now \<Rightarrow> executeWrite (
        bindT (queryT (\<lambda>db. find_first (\<lambda>r. nd_id r = n) (db_nodes db))) (\<lambda>found. case found of
          None \<Rightarrow> throwT Sce_invalid_request
        | Some r \<Rightarrow>
            bindT (liftT (guardE (\<not> isTerminalNodeState (nd_state r)) Sce_invalid_request)) (\<lambda>_.
            bindT (queryT (\<lambda>db. find_first (\<lambda>l. sl_node l = n) (active_leases db))) (\<lambda>activeLease.
            bindT (case activeLease of
                None \<Rightarrow> returnT ()
              | Some l \<Rightarrow>
                  bindT (end_lease (sl_id l) Lk_cancelled now) (\<lambda>_.
                  bindT (releaseHarnessProcessLease (sl_attempt l) now) (\<lambda>_.
                  bindT (finishActiveAttempt (sl_attempt l) Ak_cancelled now evidence) (\<lambda>_. returnT ())))) (\<lambda>_.
            bindT (update_nodes (\<lambda>r. nd_id r = n)
               (\<lambda>r. r\<lparr>nd_state := Nk_cancelled, nd_terminalEvidence := Some evidence, nd_resume := None,
                  nd_blocker := None, nd_version := nd_version r + 1, nd_updated := now\<rparr>)) (\<lambda>_.
            blockDescendants n evidence now)))))) db)"

record lease_recovery =
  ly_recovered :: bool
  ly_retryScheduled :: bool
  ly_error :: bool

definition recoverOneExpired :: "string \<Rightarrow> int \<Rightarrow> string \<Rightarrow> lease_recovery tx" where
  "recoverOneExpired i now evidence =
     bindT (queryT (\<lambda>db. find_first (\<lambda>l. sl_id l = i) (db_leases db))) (\<lambda>found. case found of
       None \<Rightarrow> throwT Sce_corrupt
     | Some l \<Rightarrow>
         if sl_state l \<noteq> Lk_active \<or> now < sl_expires l
         then returnT \<lparr>ly_recovered = True, ly_retryScheduled = False, ly_error = False\<rparr>
         else bindT (end_lease i Lk_expired now) (\<lambda>_.
              bindT (releaseHarnessProcessLease (sl_attempt l) now) (\<lambda>_.
              bindT (finishActiveAttempt (sl_attempt l) Ak_failed now evidence) (\<lambda>changed.
              if \<not> changed then returnT \<lparr>ly_recovered = False, ly_retryScheduled = False, ly_error = True\<rparr>
              else bindT (retryOrFailNode (sl_node l) now evidence) (\<lambda>retry.
                   returnT \<lparr>ly_recovered = True, ly_retryScheduled = retry, ly_error = False\<rparr>)))))"

definition expired_leases :: "int \<Rightarrow> sched_db \<Rightarrow> lease_row list" where
  "expired_leases now db = sort_key (\<lambda>l. (sl_expires l, sl_node l, sl_id l))
     (filter (\<lambda>l. sl_state l = Lk_active \<and> sl_expires l \<le> now) (db_leases db))"

text \<open>One lease of the loop; a failure of any step, the parsing of its ids included, becomes its result.\<close>

definition recover_lease :: "string \<Rightarrow> int \<Rightarrow> lease_row \<Rightarrow> sched_db \<Rightarrow> lease_recovery \<times> sched_db" where
  "recover_lease freshEvidence now l db =
     (if \<not> is_ok (schedulerLeaseId (sl_id l)) \<or> \<not> is_ok (attemptId (sl_attempt l)) \<or> \<not> is_ok (taskNodeId (sl_node l))
      then (\<lparr>ly_recovered = False, ly_retryScheduled = False, ly_error = True\<rparr>, db)
      else case executeWrite (bindT (domainT (evidenceId freshEvidence)) (recoverOneExpired (sl_id l) now)) db of
        (Inl _, db') \<Rightarrow> (\<lparr>ly_recovered = False, ly_retryScheduled = False, ly_error = True\<rparr>, db')
      | (Inr r, db') \<Rightarrow> (r, db'))"

fun recover_loop :: "(nat \<Rightarrow> string) \<Rightarrow> nat \<Rightarrow> int \<Rightarrow> lease_row list \<Rightarrow> sched_db \<Rightarrow> lease_recovery list \<times> sched_db" where
  "recover_loop ids k now [] db = ([], db)"
| "recover_loop ids k now (l # ls) db =
     (case recover_lease (ids k) now l db of (r, db') \<Rightarrow>
      case recover_loop ids (Suc k) now ls db' of (rs, db'') \<Rightarrow> (r # rs, db''))"

definition recoverExpired :: "(nat \<Rightarrow> string) \<Rightarrow> int \<Rightarrow> sched_db \<Rightarrow> (scheduler_error + lease_recovery list) \<times> sched_db" where
  "recoverExpired ids at0 db = (case timestampNumber at0 of
      Inl e \<Rightarrow> (Inl e, db)
    | Inr now \<Rightarrow> (case recover_loop ids 0 now (expired_leases now db) db of (rs, db') \<Rightarrow> (Inr rs, db')))"


section \<open>Effect on leases and fences\<close>

text \<open>Statements that leave the leases and the fences alone.\<close>

definition keeps_leases :: "'a tx \<Rightarrow> bool" where
  "keeps_leases m \<longleftrightarrow> (\<forall>db x db'. m db = Inr (x, db') \<longrightarrow> db_leases db' = db_leases db \<and> db_fences db' = db_fences db)"

named_theorems keeps_intro "statements that leave the leases and the fences alone"

lemma keeps_bindT [keeps_intro]: "keeps_leases m \<Longrightarrow> (\<And>x. keeps_leases (f x)) \<Longrightarrow> keeps_leases (bindT m f)"
  unfolding keeps_leases_def by (auto simp: res_simps)

lemma keeps_returnT [keeps_intro]: "keeps_leases (returnT x)"
  by (auto simp: keeps_leases_def res_simps)

lemma keeps_throwT [keeps_intro]: "keeps_leases (throwT e)"
  by (auto simp: keeps_leases_def res_simps)

lemma keeps_liftT [keeps_intro]: "keeps_leases (liftT m)"
  by (auto simp: keeps_leases_def res_simps)

lemma keeps_domainT [keeps_intro]: "keeps_leases (domainT m)"
  by (auto simp: keeps_leases_def res_simps)

lemma keeps_queryT [keeps_intro]: "keeps_leases (queryT q)"
  by (auto simp: keeps_leases_def res_simps)

lemma keeps_update_nodes [keeps_intro]: "keeps_leases (update_nodes p f)"
  by (auto simp: keeps_leases_def update_nodes_def split: if_splits)

lemma keeps_insert_attempt [keeps_intro]: "keeps_leases (insert_attempt a)"
  by (auto simp: keeps_leases_def insert_attempt_def split: if_splits)

lemma keeps_finish [keeps_intro]: "keeps_leases (finishActiveAttempt a st now ev)"
  by (auto simp: keeps_leases_def finishActiveAttempt_def Let_def split: if_splits)

lemma keeps_harness [keeps_intro]: "keeps_leases (releaseHarnessProcessLease a now)"
  by (auto simp: keeps_leases_def releaseHarnessProcessLease_def)

lemma keeps_if [keeps_intro]: "keeps_leases m \<Longrightarrow> keeps_leases m' \<Longrightarrow> keeps_leases (if b then m else m')"
  by simp

lemma keeps_option [keeps_intro]:
  "keeps_leases m \<Longrightarrow> (\<And>x. keeps_leases (f x)) \<Longrightarrow> keeps_leases (case v of None \<Rightarrow> m | Some x \<Rightarrow> f x)"
  by (cases v) auto

lemma keeps_project_ready [keeps_intro]: "keeps_leases (projectReadyChildren now)"
  using keeps_update_nodes unfolding keeps_leases_def projectReadyChildren_def by blast

lemma keeps_block [keeps_intro]: "keeps_leases (blockDescendants p e now)"
proof -
  have "keeps_leases (bindT (update_nodes q f) (\<lambda>_. returnT ()))" for q f
    by (intro keeps_intro)
  then show ?thesis unfolding keeps_leases_def blockDescendants_def by blast
qed

lemma keeps_block_loop [keeps_intro]: "keeps_leases (block_loop ns now)"
  by (induction ns now rule: block_loop.induct) (auto intro: keeps_intro)

lemma keeps_project_failed [keeps_intro]: "keeps_leases (projectFailedDescendants now)"
  unfolding projectFailedDescendants_def by (intro keeps_intro)

lemma keeps_retry [keeps_intro]: "keeps_leases (retryOrFailNode n now ev)"
  unfolding retryOrFailNode_def by (auto intro!: keeps_intro split: option.splits)

lemma keeps_ordinal [keeps_intro]: "keeps_leases (nextAttemptOrdinal n)"
  by (auto simp: keeps_leases_def nextAttemptOrdinal_def Let_def split: if_splits)

lemma keeps_readLease [keeps_intro]: "keeps_leases (readLease i)"
  unfolding readLease_def by (intro keeps_intro)

lemma keeps_reference [keeps_intro]: "keeps_leases (requireLeaseReference r)"
  unfolding requireLeaseReference_def by (intro keeps_intro)

lemma keepsD: "keeps_leases m \<Longrightarrow> m db = Inr (x, db') \<Longrightarrow> db_leases db' = db_leases db \<and> db_fences db' = db_fences db"
  by (auto simp: keeps_leases_def)

text \<open>How a lease row may change: its identity is fixed, and once it has ended it stays as it is.\<close>

definition lease_next :: "lease_row \<Rightarrow> lease_row \<Rightarrow> bool" where
  "lease_next l l' \<longleftrightarrow> sl_id l' = sl_id l \<and> sl_node l' = sl_node l \<and> sl_tree l' = sl_tree l \<and> sl_token l' = sl_token l \<and>
     (sl_state l \<noteq> Lk_active \<longrightarrow> l' = l)"

lemma lease_next_refl [simp]: "lease_next l l"
  by (simp add: lease_next_def)

lemma lease_next_trans: "lease_next a b \<Longrightarrow> lease_next b c \<Longrightarrow> lease_next a c"
  by (auto simp: lease_next_def)

definition only_changes :: "'a tx \<Rightarrow> bool" where
  "only_changes m \<longleftrightarrow> (\<forall>db x db'. m db = Inr (x, db') \<longrightarrow>
     list_all2 lease_next (db_leases db) (db_leases db') \<and> db_fences db' = db_fences db)"

lemma list_all2_lease_refl [simp]: "list_all2 lease_next ls ls"
  by (simp add: list_all2_refl)

lemma keeps_only_changes: "keeps_leases m \<Longrightarrow> only_changes m"
  by (auto simp: keeps_leases_def only_changes_def)

lemma only_changes_bindT: "only_changes m \<Longrightarrow> (\<And>x. only_changes (f x)) \<Longrightarrow> only_changes (bindT m f)"
  unfolding only_changes_def by (auto simp: res_simps) (metis list_all2_trans [of lease_next lease_next lease_next] lease_next_trans)+

lemma only_changes_if: "only_changes m \<Longrightarrow> only_changes m' \<Longrightarrow> only_changes (if b then m else m')"
  by simp

lemma only_changes_option:
  "only_changes m \<Longrightarrow> (\<And>x. only_changes (f x)) \<Longrightarrow> only_changes (case v of None \<Rightarrow> m | Some x \<Rightarrow> f x)"
  by (cases v) auto

lemma only_changes_update_lease:
  assumes "\<And>l. legal l (f l) \<Longrightarrow> lease_next l (f l)"
  shows "only_changes (update_lease legal i f)"
  using assms unfolding only_changes_def update_lease_def
  by (auto simp: list_all2_conv_all_nth list_all_iff split: if_splits)

lemma only_changes_heartbeat:
  "only_changes (update_lease heartbeat_legal i (\<lambda>l. l\<lparr>sl_heartbeat := now, sl_expires := expires\<rparr>))"
  by (rule only_changes_update_lease) (auto simp: heartbeat_legal_def lease_next_def)

lemma only_changes_end: "only_changes (end_lease i st now)"
  unfolding end_lease_def by (rule only_changes_update_lease) (auto simp: ending_legal_def lease_next_def)

lemmas changes_intro = only_changes_bindT only_changes_if only_changes_option only_changes_heartbeat
  only_changes_end

lemma only_changesD: "only_changes m \<Longrightarrow> m db = Inr (x, db') \<Longrightarrow>
    list_all2 lease_next (db_leases db) (db_leases db') \<and> db_fences db' = db_fences db"
  by (auto simp: only_changes_def)

lemma executeWrite_changes:
  assumes "only_changes m" "executeWrite m db = (r, db')"
  shows "list_all2 lease_next (db_leases db) (db_leases db') \<and> db_fences db' = db_fences db"
  using assms by (auto simp: executeWrite_def dest: only_changesD split: sum.splits)


lemmas only_leaves = keeps_returnT [THEN keeps_only_changes] keeps_throwT [THEN keeps_only_changes]
  keeps_liftT [THEN keeps_only_changes] keeps_domainT [THEN keeps_only_changes] keeps_queryT [THEN keeps_only_changes]
  keeps_update_nodes [THEN keeps_only_changes] keeps_finish [THEN keeps_only_changes]
  keeps_harness [THEN keeps_only_changes] keeps_block [THEN keeps_only_changes] keeps_retry [THEN keeps_only_changes]
  keeps_readLease [THEN keeps_only_changes] keeps_reference [THEN keeps_only_changes]

lemma heartbeat_changes:
  "heartbeat ref t d db = (r, db') \<Longrightarrow>
     list_all2 lease_next (db_leases db) (db_leases db') \<and> db_fences db' = db_fences db"
  unfolding heartbeat_def
  by (auto elim!: executeWrite_changes [rotated] intro!: changes_intro only_leaves
      split: sum.splits prod.splits)

lemma release_changes:
  "release ev ref t db = (r, db') \<Longrightarrow>
     list_all2 lease_next (db_leases db) (db_leases db') \<and> db_fences db' = db_fences db"
  unfolding release_def
  by (auto elim!: executeWrite_changes [rotated] intro!: changes_intro only_leaves
      split: sum.splits)

lemma cancel_changes:
  "cancelNode n ev t db = (r, db') \<Longrightarrow>
     list_all2 lease_next (db_leases db) (db_leases db') \<and> db_fences db' = db_fences db"
  unfolding cancelNode_def
  by (auto elim!: executeWrite_changes [rotated] intro!: changes_intro only_leaves
      split: sum.splits)

lemma recover_one_changes: "only_changes (recoverOneExpired i now ev)"
  unfolding recoverOneExpired_def
  by (intro changes_intro only_leaves)

lemma recover_lease_changes:
  assumes "recover_lease ev now l db = (r, db')"
  shows "list_all2 lease_next (db_leases db) (db_leases db') \<and> db_fences db' = db_fences db"
proof -
  have "only_changes (bindT (domainT (evidenceId ev)) (recoverOneExpired (sl_id l) now))"
    by (intro only_changes_bindT recover_one_changes keeps_only_changes keeps_intro)
  then show ?thesis using assms unfolding recover_lease_def
    by (auto dest: executeWrite_changes split: if_splits sum.splits prod.splits)
qed

lemma recover_loop_changes:
  "recover_loop ids k now ls db = (rs, db') \<Longrightarrow>
     list_all2 lease_next (db_leases db) (db_leases db') \<and> db_fences db' = db_fences db"
proof (induction ids k now ls db arbitrary: rs db' rule: recover_loop.induct)
  case (2 ids k now l ls db)
  obtain r db1 where one: "recover_lease (ids k) now l db = (r, db1)" by fastforce
  obtain rs2 db2 where rest: "recover_loop ids (Suc k) now ls db1 = (rs2, db2)" by fastforce
  have "db' = db2" using 2(2) one rest by simp
  then show ?case using recover_lease_changes [OF one] 2(1) [OF one [symmetric] rest]
    by (metis list_all2_trans [of lease_next lease_next lease_next] lease_next_trans)
qed auto

lemma recover_changes:
  "recoverExpired ids t db = (r, db') \<Longrightarrow>
     list_all2 lease_next (db_leases db) (db_leases db') \<and> db_fences db' = db_fences db"
  unfolding recoverExpired_def by (auto dest: recover_loop_changes split: sum.splits prod.splits)

section \<open>The invariant of leases and fences\<close>

definition one_active :: "sched_db \<Rightarrow> bool" where
  "one_active db \<longleftrightarrow> distinct (map sl_node (active_leases db))"

definition leases_ok :: "sched_db \<Rightarrow> bool" where
  "leases_ok db \<longleftrightarrow> distinct (map sl_id (db_leases db)) \<and> one_active db \<and>
     sorted_wrt (\<lambda>k l. sl_node k = sl_node l \<longrightarrow> sl_token k < sl_token l) (db_leases db) \<and>
     list_all (\<lambda>l. case map_of (db_fences db) (sl_node l) of None \<Rightarrow> False | Some t \<Rightarrow> sl_token l < t) (db_leases db)"

definition within_capacity :: "capacity_policy \<Rightarrow> sched_db \<Rightarrow> bool" where
  "within_capacity cap db \<longleftrightarrow> int (length (active_leases db)) \<le> cp_maxActiveGlobal cap \<and>
     (\<forall>t. int (length (tree_leases db t)) \<le> cp_maxActivePerTree cap)"

lemma active_subset:
  assumes "list_all2 lease_next ls ls'"
  shows "\<exists>xs. map (\<lambda>l. (sl_node l, sl_tree l)) (filter (\<lambda>l. sl_state l = Lk_active) ls') = xs \<and>
     subseq xs (map (\<lambda>l. (sl_node l, sl_tree l)) (filter (\<lambda>l. sl_state l = Lk_active) ls))"
  using assms
proof (induction rule: list_all2_induct)
  case (Cons l ls l' ls')
  then show ?case by (cases "sl_state l = Lk_active") (auto simp: lease_next_def)
qed simp

lemma map_ids_next: "list_all2 lease_next ls ls' \<Longrightarrow> map sl_id ls' = map sl_id ls \<and> map sl_node ls' = map sl_node ls \<and>
    map sl_token ls' = map sl_token ls"
  by (induction rule: list_all2_induct) (auto simp: lease_next_def)


lemma follow_ok:
  assumes ok: "leases_ok db" and next_: "list_all2 lease_next (db_leases db) (db_leases db')"
    and fences: "db_fences db' = db_fences db"
  shows "leases_ok db'"
proof -
  note same = map_ids_next [OF next_]
  have len: "length (db_leases db') = length (db_leases db)" using next_ list_all2_lengthD by fastforce
  have at_: "sl_node (db_leases db' ! i) = sl_node (db_leases db ! i)" "sl_token (db_leases db' ! i) = sl_token (db_leases db ! i)"
    if "i < length (db_leases db)" for i
    using same that len by (metis nth_map)+
  obtain xs where "map (\<lambda>l. (sl_node l, sl_tree l)) (active_leases db') = xs"
      "subseq xs (map (\<lambda>l. (sl_node l, sl_tree l)) (active_leases db))"
    using active_subset [OF next_] unfolding active_leases_def by blast
  then have "subseq (map fst (map (\<lambda>l. (sl_node l, sl_tree l)) (active_leases db')))
      (map fst (map (\<lambda>l. (sl_node l, sl_tree l)) (active_leases db)))"
    by (metis subseq_map)
  then have sub: "subseq (map sl_node (active_leases db')) (map sl_node (active_leases db))"
    by (simp add: comp_def)
  then have "one_active db'" using ok unfolding leases_ok_def one_active_def by (metis subseq_conv_nths distinct_nthsI)
  moreover have "sorted_wrt (\<lambda>k l. sl_node k = sl_node l \<longrightarrow> sl_token k < sl_token l) (db_leases db')"
    using ok at_ len unfolding leases_ok_def sorted_wrt_iff_nth_less by simp
  moreover have "list_all (\<lambda>l. case map_of (db_fences db') (sl_node l) of None \<Rightarrow> False | Some t \<Rightarrow> sl_token l < t) (db_leases db')"
    using ok at_ len unfolding leases_ok_def list_all_length fences by (simp cong: option.case_cong)
  ultimately show ?thesis using ok same unfolding leases_ok_def by simp
qed

lemma follow_capacity:
  assumes cap: "within_capacity cap db" and next_: "list_all2 lease_next (db_leases db) (db_leases db')"
  shows "within_capacity cap db'"
proof -
  obtain xs where xs: "map (\<lambda>l. (sl_node l, sl_tree l)) (active_leases db') = xs"
      "subseq xs (map (\<lambda>l. (sl_node l, sl_tree l)) (active_leases db))"
    using active_subset [OF next_] unfolding active_leases_def by blast
  then have "length (active_leases db') \<le> length (active_leases db)"
    by (metis length_map list_emb_length)
  moreover have "length (tree_leases db' t) \<le> length (tree_leases db t)" for t
  proof -
    have f: "length (tree_leases d t) = length (filter (\<lambda>p. snd p = t) (map (\<lambda>l. (sl_node l, sl_tree l)) (active_leases d)))" for d
      by (simp add: tree_leases_def filter_map comp_def)
    have "subseq (filter (\<lambda>p. snd p = t) (map (\<lambda>l. (sl_node l, sl_tree l)) (active_leases db')))
        (filter (\<lambda>p. snd p = t) (map (\<lambda>l. (sl_node l, sl_tree l)) (active_leases db)))"
      using xs subseq_filter by blast
    then show ?thesis unfolding f by (rule list_emb_length)
  qed
  ultimately show ?thesis using cap unfolding within_capacity_def by (meson dual_order.trans of_nat_mono)
qed

section \<open>Claims\<close>

lemma selectEligible_Some:
  "selectEligibleNode g t db = Some n \<Longrightarrow> n \<in> set (db_nodes db) \<and> eligible g t db n"
proof -
  assume "selectEligibleNode g t db = Some n"
  then obtain ns where "sort_key (claim_key db) (filter (eligible g t db) (db_nodes db)) = n # ns"
    by (auto simp: selectEligibleNode_def split: list.splits)
  then have "n \<in> set (sort_key (claim_key db) (filter (eligible g t db) (db_nodes db)))" by simp
  then show ?thesis by simp
qed

lemma allocateFence_Inr:
  assumes "allocateFence n db = Inr (token, db')"
  shows "db_leases db' = db_leases db \<and> token = (case map_of (db_fences db) n of None \<Rightarrow> 1 | Some t \<Rightarrow> t) \<and>
     map_of (db_fences db') n = Some (token + 1) \<and> (\<forall>m. m \<noteq> n \<longrightarrow> map_of (db_fences db') m = map_of (db_fences db) m)"
proof -
  have upd: "map_of (map (\<lambda>(k, t). if k = n then (k, c) else (k, t)) fs) m =
      (if m = n \<and> map_of fs n \<noteq> None then Some c else map_of fs m)" for fs :: "(string \<times> int) list" and c m
    by (induction fs) auto
  show ?thesis
    using assms by (auto simp: allocateFence_def upd map_of_append map_add_def split: option.splits if_splits)
qed

lemma find_appended: "\<forall>x\<in>set xs. \<not> p x \<Longrightarrow> p y \<Longrightarrow> find_first p (xs @ [y]) = Some y"
  by (induction xs) (auto simp: find_first_def)

lemma claim_node_Inr:
  assumes "claim_node a i owner now expires n db = Inr (l, db')"
  shows "l = new_lease i a n owner (case map_of (db_fences db) (nd_id n) of None \<Rightarrow> 1 | Some t \<Rightarrow> t) now expires \<and>
     db_leases db' = db_leases db @ [l] \<and> i \<notin> set (map sl_id (db_leases db)) \<and>
     map_of (db_fences db') (nd_id n) = Some (sl_token l + 1) \<and>
     (\<forall>m. m \<noteq> nd_id n \<longrightarrow> map_of (db_fences db') m = map_of (db_fences db) m)"
proof -
  obtain ordinal db1 token db2 changed db3 db4 db5 where steps:
      "nextAttemptOrdinal (nd_id n) db = Inr (ordinal, db1)" "allocateFence (nd_id n) db1 = Inr (token, db2)"
      "attemptId a = Inr a" "schedulerLeaseId i = Inr i"
      "update_nodes (\<lambda>r. nd_id r = nd_id n \<and> nd_state r = Nk_ready)
         (\<lambda>r. r\<lparr>nd_state := Nk_active, nd_version := nd_version r + 1, nd_updated := now\<rparr>) db2 = Inr (changed, db3)"
      "insert_attempt (new_attempt a n ordinal now) db3 = Inr ((), db4)"
      "insert_lease (new_lease i a n owner token now expires) db4 = Inr ((), db5)"
      "readLease i db5 = Inr (l, db')"
    using assms by (auto simp: claim_node_def res_simps attemptId_def parseUuidV7_def schedulerLeaseId_def split: if_splits)
  have k1: "db_leases db1 = db_leases db" "db_fences db1 = db_fences db" using keepsD [OF keeps_ordinal steps(1)] by auto
  have k2: "db_leases db2 = db_leases db" "token = (case map_of (db_fences db) (nd_id n) of None \<Rightarrow> 1 | Some t \<Rightarrow> t)"
      "map_of (db_fences db2) (nd_id n) = Some (token + 1)"
      "\<forall>m. m \<noteq> nd_id n \<longrightarrow> map_of (db_fences db2) m = map_of (db_fences db) m"
    using allocateFence_Inr [OF steps(2)] k1 by auto
  have k4: "db_leases db4 = db_leases db" "db_fences db4 = db_fences db2"
    using keepsD [OF keeps_update_nodes steps(5)] keepsD [OF keeps_insert_attempt steps(6)] k2(1) by auto
  let ?new = "new_lease i a n owner token now expires"
  have fresh: "i \<notin> set (map sl_id (db_leases db))" and app: "db_leases db5 = db_leases db @ [?new]" "db_fences db5 = db_fences db2"
    using steps(7) k4 by (auto simp: insert_lease_def new_lease_def split: if_splits)
  have "find_first (\<lambda>l. sl_id l = i) (db_leases db5) = Some ?new"
    unfolding app by (rule find_appended) (use fresh in \<open>auto simp: new_lease_def\<close>)
  then have "l = ?new" "db' = db5" using steps(8) by (auto simp: readLease_def res_simps)
  then show ?thesis using k2 app fresh by (simp add: new_lease_def)
qed

text \<open>A claim that returns a lease, taken apart; any other outcome leaves leases and fences alone.\<close>

lemma claimed:
  assumes "claimNext a i rq db = (Inr (Some l), db')"
  obtains db1 n where "db_leases db1 = db_leases db" "db_fences db1 = db_fences db"
    "eligible (cp_maxActiveGlobal (cq_capacity rq)) (cp_maxActivePerTree (cq_capacity rq)) db1 n"
    "sl_token l = (case map_of (db_fences db) (nd_id n) of None \<Rightarrow> 1 | Some t \<Rightarrow> t)"
    "sl_node l = nd_id n" "sl_tree l = nd_tree n" "sl_state l = Lk_active" "sl_id l = i" "sl_attempt l = a" "sl_owner l = cq_owner rq"
    "db_leases db' = db_leases db @ [l]" "i \<notin> set (map sl_id (db_leases db))"
    "map_of (db_fences db') (nd_id n) = Some (sl_token l + 1)"
    "\<forall>m. m \<noteq> nd_id n \<longrightarrow> map_of (db_fences db') m = map_of (db_fences db) m"
proof -
  let ?cap = "cq_capacity rq"
  obtain now expires db0 db1 n u v where run:
      "projectReadyChildren now db = Inr (u, db0)" "projectFailedDescendants now db0 = Inr (v, db1)"
      "selectEligibleNode (cp_maxActiveGlobal ?cap) (cp_maxActivePerTree ?cap) db1 = Some n"
      "claim_node a i (cq_owner rq) now expires n db1 = Inr (l, db')"
    using assms by (auto simp: claimNext_def executeWrite_def Let_def res_simps split: sum.splits prod.splits option.splits)
  have same: "db_leases db1 = db_leases db" "db_fences db1 = db_fences db"
    using keepsD [OF keeps_project_ready run(1)] keepsD [OF keeps_project_failed run(2)] by auto
  note c = claim_node_Inr [OF run(4)]
  show thesis
    by (rule that [of db1 n]) (use same selectEligible_Some [OF run(3)] c in \<open>auto simp: new_lease_def\<close>)
qed

lemma not_claimed:
  assumes "claimNext a i rq db = (r, db')" "\<And>l. r \<noteq> Inr (Some l)"
  shows "db_leases db' = db_leases db \<and> db_fences db' = db_fences db"
  using assms
  by (auto simp: claimNext_def executeWrite_def Let_def res_simps split: sum.splits prod.splits option.splits
      dest!: keepsD [OF keeps_project_ready] keepsD [OF keeps_project_failed])

lemma claim_ok:
  assumes ok: "leases_ok db" and run: "claimNext a i rq db = (r, db')"
  shows "leases_ok db'"
proof (cases "\<exists>l. r = Inr (Some l)")
  case False
  then have "db_leases db' = db_leases db \<and> db_fences db' = db_fences db" using not_claimed [OF run] by blast
  then show ?thesis using follow_ok [OF ok] by simp
next
  case True
  then obtain l where "claimNext a i rq db = (Inr (Some l), db')" using run by blast
  then show ?thesis
  proof (rule claimed)
    fix db1 n
    assume same: "db_leases db1 = db_leases db" "db_fences db1 = db_fences db"
      and el: "eligible (cp_maxActiveGlobal (cq_capacity rq)) (cp_maxActivePerTree (cq_capacity rq)) db1 n"
      and tok: "sl_token l = (case map_of (db_fences db) (nd_id n) of None \<Rightarrow> 1 | Some t \<Rightarrow> t)"
      and l: "sl_node l = nd_id n" "sl_state l = Lk_active" "sl_id l = i"
      and app: "db_leases db' = db_leases db @ [l]" and fresh: "i \<notin> set (map sl_id (db_leases db))"
      and fence: "map_of (db_fences db') (nd_id n) = Some (sl_token l + 1)"
        "\<forall>m. m \<noteq> nd_id n \<longrightarrow> map_of (db_fences db') m = map_of (db_fences db) m"
    have idle: "nd_id n \<notin> set (map sl_node (active_leases db))"
      using el same by (auto simp: eligible_def active_leases_def list_ex_iff split: option.splits)
    have below_fence: "sl_token k < sl_token l" if "k \<in> set (db_leases db)" "sl_node k = nd_id n" for k
      using ok that tok by (auto simp: leases_ok_def list_all_iff split: option.splits)
    have "one_active db'" using ok idle l app by (simp add: leases_ok_def one_active_def active_leases_def)
    moreover have "sorted_wrt (\<lambda>k l. sl_node k = sl_node l \<longrightarrow> sl_token k < sl_token l) (db_leases db')"
      using ok below_fence l app by (auto simp: leases_ok_def sorted_wrt_append)
    moreover have "list_all (\<lambda>l. case map_of (db_fences db') (sl_node l) of None \<Rightarrow> False | Some t \<Rightarrow> sl_token l < t) (db_leases db')"
      unfolding list_all_iff app
    proof
      fix k assume k: "k \<in> set (db_leases db @ [l])"
      show "case map_of (db_fences db') (sl_node k) of None \<Rightarrow> False | Some t \<Rightarrow> sl_token k < t"
      proof (cases "sl_node k = nd_id n")
        case True
        then show ?thesis using k fence(1) below_fence l by fastforce
      next
        case False
        then have "k \<in> set (db_leases db)" using k l by auto
        then show ?thesis using ok fence(2) False by (auto simp: leases_ok_def list_all_iff)
      qed
    qed
    ultimately show ?thesis using ok fresh l app by (auto simp: leases_ok_def)
  qed
qed

lemma claim_capacity:
  assumes cap: "within_capacity cap db" and rq: "cq_capacity rq = cap" and run: "claimNext a i rq db = (r, db')"
  shows "within_capacity cap db'"
proof (cases "\<exists>l. r = Inr (Some l)")
  case False
  then have "db_leases db' = db_leases db" using not_claimed [OF run] by blast
  then show ?thesis using cap by (simp add: within_capacity_def tree_leases_def active_leases_def)
next
  case True
  then obtain l where "claimNext a i rq db = (Inr (Some l), db')" using run by blast
  then show ?thesis
  proof (rule claimed)
    fix db1 n
    assume same: "db_leases db1 = db_leases db"
      and el: "eligible (cp_maxActiveGlobal (cq_capacity rq)) (cp_maxActivePerTree (cq_capacity rq)) db1 n"
      and l: "sl_tree l = nd_tree n" "sl_state l = Lk_active" and app: "db_leases db' = db_leases db @ [l]"
    have room: "int (length (active_leases db)) < cp_maxActiveGlobal cap"
        "int (length (tree_leases db (nd_tree n))) < cp_maxActivePerTree cap"
      using el rq same by (auto simp: eligible_def active_leases_def tree_leases_def split: option.splits)
    show ?thesis using cap room l app
      by (auto simp: within_capacity_def tree_leases_def active_leases_def)
  qed
qed


section \<open>Runs\<close>

text \<open>
  What can happen to the database: the five operations, with whatever result, and any change by other
  components, which never write the leases or the fences. All claims use the same capacity.
\<close>

inductive sched_step :: "capacity_policy \<Rightarrow> sched_db \<Rightarrow> sched_db \<Rightarrow> bool" for cap where
  claim: "claimNext a i rq db = (r, db') \<Longrightarrow> cq_capacity rq = cap \<Longrightarrow> sched_step cap db db'"
| beat: "heartbeat ref t d db = (r, db') \<Longrightarrow> sched_step cap db db'"
| releases: "release ev ref t db = (r, db') \<Longrightarrow> sched_step cap db db'"
| cancels: "cancelNode n ev t db = (r, db') \<Longrightarrow> sched_step cap db db'"
| recovers: "recoverExpired ids t db = (r, db') \<Longrightarrow> sched_step cap db db'"
| others: "db_leases db' = db_leases db \<Longrightarrow> db_fences db' = db_fences db \<Longrightarrow> sched_step cap db db'"

inductive sched_runs :: "capacity_policy \<Rightarrow> sched_db \<Rightarrow> sched_db \<Rightarrow> bool" for cap where
  start: "sched_runs cap db db"
| more: "sched_runs cap db db' \<Longrightarrow> sched_step cap db' db'' \<Longrightarrow> sched_runs cap db db''"

lemma follow_prefix:
  assumes "list_all2 lease_next xs ys"
  shows "\<exists>new. list_all2 lease_next xs (take (length xs) ys) \<and> ys = take (length xs) ys @ new"
  using assms list_all2_lengthD [OF assms] by simp

lemma step_follow:
  assumes "sched_step cap db db'"
  shows "(\<exists>new. list_all2 lease_next (db_leases db) (take (length (db_leases db)) (db_leases db')) \<and>
     db_leases db' = take (length (db_leases db)) (db_leases db') @ new)"
  using assms
proof cases
  case (claim a i rq r)
  show ?thesis
  proof (cases "\<exists>l. r = Inr (Some l)")
    case True
    then obtain l where "claimNext a i rq db = (Inr (Some l), db')" using claim(1) by blast
    then show ?thesis by (rule claimed) auto
  next
    case False
    then have "db_leases db' = db_leases db" using not_claimed [OF claim(1)] by blast
    then show ?thesis by simp
  qed
next
  case (beat ref t d r)
  then show ?thesis using heartbeat_changes [OF beat] follow_prefix by blast
next
  case (releases ev ref t r)
  then show ?thesis using release_changes [OF releases] follow_prefix by blast
next
  case (cancels n ev t r)
  then show ?thesis using cancel_changes [OF cancels] follow_prefix by blast
next
  case (recovers ids t r)
  then show ?thesis using recover_changes [OF recovers] follow_prefix by blast
qed simp

lemma step_ok:
  assumes "sched_step cap db db'" "leases_ok db" "within_capacity cap db"
  shows "leases_ok db' \<and> within_capacity cap db'"
  using assms(1)
proof cases
  case (claim a i rq r)
  then show ?thesis using claim_ok [OF assms(2)] claim_capacity [OF assms(3)] by blast
next
  case (beat ref t d r)
  then show ?thesis using heartbeat_changes follow_ok [OF assms(2)] follow_capacity [OF assms(3)] by blast
next
  case (releases ev ref t r)
  then show ?thesis using release_changes follow_ok [OF assms(2)] follow_capacity [OF assms(3)] by blast
next
  case (cancels n ev t r)
  then show ?thesis using cancel_changes follow_ok [OF assms(2)] follow_capacity [OF assms(3)] by blast
next
  case (recovers ids t r)
  then show ?thesis using recover_changes follow_ok [OF assms(2)] follow_capacity [OF assms(3)] by blast
next
  case others
  then show ?thesis using follow_ok [OF assms(2), of db'] follow_capacity [OF assms(3), of db'] by simp
qed

lemma runs_ok:
  "sched_runs cap db db' \<Longrightarrow> leases_ok db \<Longrightarrow> within_capacity cap db \<Longrightarrow> leases_ok db' \<and> within_capacity cap db'"
  by (induction rule: sched_runs.induct) (auto dest: step_ok)

lemma step_ended:
  assumes "sched_step cap db db'" "l \<in> set (db_leases db)" "sl_state l \<noteq> Lk_active"
  shows "l \<in> set (db_leases db')"
proof -
  obtain new where new: "list_all2 lease_next (db_leases db) (take (length (db_leases db)) (db_leases db'))"
      "db_leases db' = take (length (db_leases db)) (db_leases db') @ new"
    using step_follow [OF assms(1)] by blast
  obtain i where i: "i < length (db_leases db)" "db_leases db ! i = l" using assms(2) by (metis in_set_conv_nth)
  then have "lease_next l (take (length (db_leases db)) (db_leases db') ! i)" using new(1) list_all2_nthD by blast
  then have "take (length (db_leases db)) (db_leases db') ! i = l" using assms(3) by (simp add: lease_next_def)
  then have "l \<in> set (take (length (db_leases db)) (db_leases db'))"
    using i(1) new(1) by (metis list_all2_lengthD nth_mem)
  then show ?thesis by (meson in_set_takeD)
qed

lemma runs_ended:
  "sched_runs cap db db' \<Longrightarrow> l \<in> set (db_leases db) \<Longrightarrow> sl_state l \<noteq> Lk_active \<Longrightarrow> l \<in> set (db_leases db')"
  by (induction rule: sched_runs.induct) (auto dest: step_ended)

definition reference_of :: "lease_row \<Rightarrow> lease_reference" where
  "reference_of l = \<lparr>lf_id = sl_id l, lf_owner = sl_owner l, lf_token = sl_token l\<rparr>"

lemma find_by_id:
  assumes "distinct (map sl_id ls)" "l \<in> set ls"
  shows "find_first (\<lambda>k. sl_id k = sl_id l) ls = Some l"
  using assms by (induction ls) (auto simp: find_first_def image_iff)

text \<open>A holder of a lease that has ended is refused.\<close>

lemma ended_refused:
  assumes ok: "leases_ok db" and l: "l \<in> set (db_leases db)" "sl_state l \<noteq> Lk_active"
  shows "(\<exists>e. heartbeat (reference_of l) t d db = (Inl e, db)) \<and> (\<exists>e. release ev (reference_of l) t db = (Inl e, db))"
proof -
  have found: "find_first (\<lambda>k. sl_id k = sl_id l) (db_leases db) = Some l"
    using find_by_id [OF _ l(1)] ok by (simp add: leases_ok_def)
  show ?thesis using found l(2)
    by (auto simp: heartbeat_def release_def executeWrite_def requireLeaseReference_def requireActiveUnexpired_def
        reference_of_def bindT_def queryT_def returnT_def liftT_def guardE_def split: sum.splits)
qed


lemma fresh_database_ok: "db_leases db = [] \<Longrightarrow> leases_ok db"
  by (simp add: leases_ok_def one_active_def active_leases_def)

lemma fresh_database_capacity:
  "db_leases db = [] \<Longrightarrow> 0 < cp_maxActiveGlobal cap \<Longrightarrow> 0 < cp_maxActivePerTree cap \<Longrightarrow> within_capacity cap db"
  by (simp add: within_capacity_def tree_leases_def active_leases_def)

text \<open>C3: The scheduler never exceeds its capacity and never runs a node twice. Whatever sequence of claims,
  heartbeats, releases, cancellations, recoveries and changes by other components follows, from a database
  without leases: the active leases are at most the global capacity, those of any tree at most the per-tree
  capacity, no two active leases are for the same node, and the fencing tokens a node's leases were given
  increase in the order they were given.\<close>

theorem scheduler_capacity_kept:
  assumes start: "db_leases db0 = []" and cap: "0 < cp_maxActiveGlobal cap" "0 < cp_maxActivePerTree cap"
    and runs: "sched_runs cap db0 db"
  shows "int (length (active_leases db)) \<le> cp_maxActiveGlobal cap \<and>
     int (length (tree_leases db t)) \<le> cp_maxActivePerTree cap \<and>
     distinct (map sl_node (active_leases db)) \<and>
     sorted_wrt (\<lambda>k l. sl_node k = sl_node l \<longrightarrow> sl_token k < sl_token l) (db_leases db)"
proof -
  have "leases_ok db" "within_capacity cap db"
    using runs_ok [OF runs fresh_database_ok [OF start] fresh_database_capacity [OF start cap]] by auto
  then show ?thesis by (simp add: leases_ok_def within_capacity_def one_active_def)
qed

text \<open>C4: A holder that lost its node is fenced off. If a node that was leased before is claimed again, then the
  new lease has a greater fencing token than every earlier lease of the node, and from then on, whatever else
  happens and whatever time they name, a heartbeat and a release with an earlier lease are refused and change
  nothing.\<close>

theorem stale_holder_is_fenced:
  assumes start: "db_leases db0 = []" and cap: "0 < cp_maxActiveGlobal cap" "0 < cp_maxActivePerTree cap"
    and before: "sched_runs cap db0 db"
    and claim: "claimNext a i rq db = (Inr (Some new), db1)" "cq_capacity rq = cap"
    and after: "sched_runs cap db1 db2"
    and old: "k \<in> set (db_leases db)" "sl_node k = sl_node new"
  shows "sl_token k < sl_token new \<and> (\<exists>err. heartbeat (reference_of k) t d db2 = (Inl err, db2)) \<and>
     (\<exists>err. release ev (reference_of k) t db2 = (Inl err, db2))"
proof -
  have ok: "leases_ok db" "within_capacity cap db"
    using runs_ok [OF before fresh_database_ok [OF start] fresh_database_capacity [OF start cap]] by auto
  have step: "sched_step cap db db1" using claim by (rule sched_step.claim)
  then have "sched_runs cap db0 db1" using before by (rule sched_runs.more [rotated])
  then have ok1: "leases_ok db1" "within_capacity cap db1" using step_ok [OF step ok] by auto
  have ok2: "leases_ok db2" using runs_ok [OF after ok1] by blast
  have ended: "sl_state k \<noteq> Lk_active" and token: "sl_token k < sl_token new"
  proof -
    obtain db' n where c: "db_leases db' = db_leases db"
        "eligible (cp_maxActiveGlobal (cq_capacity rq)) (cp_maxActivePerTree (cq_capacity rq)) db' n"
        "sl_node new = nd_id n" "db_leases db1 = db_leases db @ [new]"
      using claim(1) by (rule claimed)
    show "sl_state k \<noteq> Lk_active" using c old
      by (auto simp: eligible_def active_leases_def list_ex_iff split: option.splits)
    show "sl_token k < sl_token new" using ok1(1) c(4) old by (auto simp: leases_ok_def sorted_wrt_append)
  qed
  have "k \<in> set (db_leases db1)" using step_ended [OF step old(1) ended] .
  then have "k \<in> set (db_leases db2)" using runs_ended [OF after] ended by blast
  then show ?thesis using ended_refused [OF ok2 _ ended] token by blast
qed

text \<open>The attempt of a lease is the one drawn by the claim, whatever attempt its caller had in mind.\<close>

lemma claim_draws_attempt: "claimNext a i rq db = (Inr (Some l), db') \<Longrightarrow> sl_attempt l = a"
  by (elim claimed)

section \<open>A concrete database\<close>

definition schedId :: "char \<Rightarrow> string" where
  "schedId c = replicate 8 (CHR ''0'') @ ''-'' @ replicate 4 (CHR ''0'') @ ''-7000-8000-'' @ replicate 12 c"

definition sampleNode :: "char \<Rightarrow> string option \<Rightarrow> node_kind \<Rightarrow> node_row" where
  "sampleNode c parent st = \<lparr>nd_id = schedId c, nd_tree = schedId (CHR ''9''), nd_repository = schedId (CHR ''8''),
     nd_host = schedId (CHR ''7''), nd_plan = schedId (CHR ''6''), nd_parent = parent, nd_state = st, nd_resume = None,
     nd_blocker = None, nd_outcomeKind = None, nd_outcomeArtifact = None, nd_outcomeCommit = None,
     nd_outcomeEvidence = None, nd_outcomeExplanation = None, nd_terminalEvidence = None, nd_version = 0,
     nd_created = 0, nd_updated = 0\<rparr>"

definition sampleDb :: sched_db where
  "sampleDb = \<lparr>db_nodes = [sampleNode (CHR ''1'') None Nk_planned, sampleNode (CHR ''2'') (Some (schedId (CHR ''1''))) Nk_ready,
       sampleNode (CHR ''3'') (Some (schedId (CHR ''2''))) Nk_planned],
     db_outcomes = [],
     db_trees = [\<lparr>te_id = schedId (CHR ''9''), te_root = schedId (CHR ''1''), te_activePlan = schedId (CHR ''6''), te_created = 0,
        te_archived = None\<rparr>],
     db_repositories = [\<lparr>rw_id = schedId (CHR ''8''), rw_archived = None\<rparr>],
     db_plans = [\<lparr>pv_id = schedId (CHR ''6''), pv_tree = schedId (CHR ''9''), pv_state = Plan_approved\<rparr>],
     db_budgets = [\<lparr>bg_tree = schedId (CHR ''9''), bg_maxConcurrency = 2, bg_maxAttemptsPerNode = 3\<rparr>],
     db_policies = map (\<lambda>c. \<lparr>np_node = schedId c, np_maxAttempts = 3\<rparr>) ''123'',
     db_attempts = [], db_leases = [], db_fences = [], db_harness = []\<rparr>"

definition sampleCap :: capacity_policy where
  "sampleCap = \<lparr>cp_maxActiveGlobal = 1, cp_maxActivePerTree = 1\<rparr>"

definition sampleClaim :: "int \<Rightarrow> claim_request" where
  "sampleClaim t = \<lparr>cq_owner = ''worker'', cq_at = t, cq_leaseDurationMs = number_of_int 10, cq_capacity = sampleCap\<rparr>"

text \<open>Claimed at 1 until 11, lost at 11, claimed again at 12.\<close>

definition firstClaim :: "(scheduler_error + lease_row option) \<times> sched_db" where
  "firstClaim = claimNext (schedId (CHR ''a'')) (schedId (CHR ''b'')) (sampleClaim 1) sampleDb"

definition firstLease :: lease_row where
  "firstLease = hd (db_leases (snd firstClaim))"

definition recoveredDb :: sched_db where
  "recoveredDb = snd (recoverExpired (\<lambda>k. schedId (CHR ''e'')) 11 (snd firstClaim))"

definition secondClaim :: "(scheduler_error + lease_row option) \<times> sched_db" where
  "secondClaim = claimNext (schedId (CHR ''c'')) (schedId (CHR ''d'')) (sampleClaim 12) recoveredDb"

lemma second_claim_ok:
  "case fst secondClaim of Inr (Some l) \<Rightarrow> sl_token l = 2 \<and> sl_node l = schedId (CHR ''2'') | _ \<Rightarrow> False"
  by code_simp


lemma first_run: "firstClaim = (Inr (Some firstLease), snd firstClaim)"
proof -
  have "fst firstClaim = Inr (Some firstLease)" by code_simp
  then show ?thesis by (metis prod.collapse)
qed

lemma sample_runs: "sched_runs sampleCap sampleDb recoveredDb"
proof -
  have "sched_step sampleCap sampleDb (snd firstClaim)"
    using first_run sched_step.claim [of "schedId (CHR ''a'')" "schedId (CHR ''b'')" "sampleClaim 1" sampleDb]
    by (simp add: firstClaim_def sampleClaim_def)
  moreover have "sched_step sampleCap (snd firstClaim) recoveredDb"
    unfolding recoveredDb_def by (rule sched_step.recovers) (rule prod.collapse [symmetric])
  ultimately show ?thesis by (meson sched_runs.intros)
qed

theorem scheduler_capacity_kept_witness:
  "int (length (active_leases recoveredDb)) \<le> 1 \<and> length (db_leases recoveredDb) = 1"
proof -
  have start: "db_leases sampleDb = []" and cap: "0 < cp_maxActiveGlobal sampleCap" "0 < cp_maxActivePerTree sampleCap"
    by (simp_all add: sampleDb_def sampleCap_def)
  have "length (db_leases recoveredDb) = 1" by code_simp
  then show ?thesis using scheduler_capacity_kept [OF start cap sample_runs] by (simp add: sampleCap_def)
qed

theorem stale_holder_is_fenced_witness:
  "(\<exists>err. heartbeat (reference_of (hd (db_leases recoveredDb))) 13 (number_of_int 10) (snd secondClaim) = (Inl err, snd secondClaim)) \<and>
   sl_token (hd (db_leases recoveredDb)) = 1"
proof -
  have start: "db_leases sampleDb = []" and cap: "0 < cp_maxActiveGlobal sampleCap" "0 < cp_maxActivePerTree sampleCap"
    by (simp_all add: sampleDb_def sampleCap_def)
  obtain new where new: "fst secondClaim = Inr (Some new)" "sl_node new = schedId (CHR ''2'')"
    using second_claim_ok by (auto split: sum.splits option.splits)
  then have claim: "claimNext (schedId (CHR ''c'')) (schedId (CHR ''d'')) (sampleClaim 12) recoveredDb =
      (Inr (Some new), snd secondClaim)"
    by (metis prod.collapse secondClaim_def)
  have rq: "cq_capacity (sampleClaim 12) = sampleCap" by (simp add: sampleClaim_def)
  have old: "db_leases recoveredDb \<noteq> []" "sl_node (hd (db_leases recoveredDb)) = schedId (CHR ''2'')"
    "sl_token (hd (db_leases recoveredDb)) = 1" by code_simp+
  have k: "hd (db_leases recoveredDb) \<in> set (db_leases recoveredDb)" "sl_node (hd (db_leases recoveredDb)) = sl_node new"
    using old new by auto
  show ?thesis using stale_holder_is_fenced [OF start cap sample_runs claim rq sched_runs.start k] old by blast
qed

section \<open>Behaviour worth knowing\<close>

text \<open>
  Recovery and cancellation release the harness process of the attempt before they end it, because the
  database refuses to end an attempt whose process holds a lease. \<open>release\<close> does not, so a holder that
  releases while its process lease is active is refused and the node stays leased until it expires.
\<close>

lemma release_blocked_by_harness:
  "let db = (snd firstClaim)\<lparr>db_harness := [\<lparr>hp_attempt = sl_attempt firstLease, hp_active = True, hp_released = None\<rparr>]\<rparr> in
     release (schedId (CHR ''e'')) (reference_of firstLease) 5 db = (Inl Sce_constraint, db) \<and>
     fst (cancelNode (sl_node firstLease) (schedId (CHR ''e'')) 5 db) = Inr ()"
  by code_simp

end
