(* ===== verification/Execution.thy ===== *)
theory Execution
  imports Context_Pack Scheduler_Store
begin

text \<open>
  \<^verbatim>\<open>packages/adapters/src/execution-coordinator.ts\<close>: one attempt of a node from the claim of its lease to the
  recorded outcome, with the failure paths. The scheduler, the sandbox, the harness, the working copy, the stores,
  the clock and the id generator are functions on a world of their own (\<open>exec_ports\<close>); \<open>None\<close> is a rejected
  call. What a port throws is never an error of the coordinator itself. An event stream is what the session
  delivered until the run stopped reading, each event with whether the run had been interrupted when it arrived; a
  stream that never ends is a run that never answers. Token counts are integers. The log has the calls that change
  something, in order; calls whose failure is only reported to the logger are logged whatever comes of them.
\<close>

section \<open>Data\<close>

datatype execution_phase =
    Ph_claimed | Ph_sandbox_created | Ph_workspace_prepared | Ph_harness_started | Ph_context_sent
  | Ph_streaming | Ph_finalizing

datatype sandbox_backend = Sb_macos_lima | Sb_linux_podman | Sb_wsl2_podman | Sb_test

record sandbox_handle =
  sh_instanceId :: string
  sh_backendKind :: sandbox_backend
  sh_policyVersion :: nat
  sh_policyDigest :: string
  sh_state :: string

record session_identity =
  si_durableHarnessId :: string
  si_sessionId :: string

record attempt_checkpoint =
  ck_attemptId :: string
  ck_nodeId :: string
  ck_sequence :: int
  ck_phase :: execution_phase
  ck_harnessIdentity :: session_identity
  ck_sandboxInstanceId :: string
  ck_sandboxBackendKind :: sandbox_backend
  ck_sandboxPolicyDigest :: string
  ck_sandboxState :: string
  ck_contextDigest :: string
  ck_recordedAt :: int

type_synonym harness_usage = "int \<times> int \<times> int"

datatype harness_payload =
    Message string string | Thinking string | Tool_call string string json | Tool_result string json bool
  | Prompt_started string | Prompt_finished string | Turn_started string | Turn_finished string
  | Usage harness_usage | Retry_event number string | Question string string "string list"
  | Error_event string string bool | Result_event node_outcome_kind string

record harness_event =
  hv_sequence :: int
  hv_occurredAt :: int
  hv_payload :: harness_payload

record transcript_chunk =
  tc_attemptId :: string
  tc_sequence :: int
  tc_occurredAt :: int
  tc_payload :: harness_payload

definition toTranscriptChunk :: "string \<Rightarrow> harness_event \<Rightarrow> transcript_chunk" where
  "toTranscriptChunk attempt e = \<lparr>tc_attemptId = attempt, tc_sequence = hv_sequence e,
     tc_occurredAt = hv_occurredAt e, tc_payload = hv_payload e\<rparr>"

datatype success_kind = Success_commit | Success_artifact | Success_no_change

datatype recorded_outcome =
    Commit_outcome string string
  | Artifact_outcome string
  | No_change_outcome string string string

record outcome_command =
  oq_commandId :: string
  oq_actorSessionId :: string
  oq_nodeId :: string
  oq_expectedNodeVersion :: number
  oq_outcome :: recorded_outcome
  oq_at :: int

record resolved_outcome =
  ru_outcome :: node_outcome
  ru_successKind :: "success_kind option"

record transcript_summary =
  ts_firstSequence :: int
  ts_lastSequence :: int
  ts_chunkCount :: nat

record exec_result =
  er_attemptId :: string
  er_nodeId :: string
  er_outcome :: node_outcome
  er_successKind :: "success_kind option"
  er_transcript :: transcript_summary
  er_initial :: attempt_checkpoint
  er_final :: attempt_checkpoint
  er_contextDigest :: string
  er_recordedAt :: int

record exec_setup =
  su_lease :: lease_row
  su_sandbox :: sandbox_handle
  su_session :: session_identity
  su_handshake :: handshake
  su_pack :: context_pack_input
  su_digest :: string
  su_initialCheckpoint :: attempt_checkpoint

section \<open>Ports, errors and the log\<close>

text \<open>
  What a session streamed: the events with the interrupt flag each met, whether the stream ended or broke after
  them, whether closing it early succeeds, and the interrupt flag at the end.
\<close>

record event_stream =
  es_items :: "(bool \<times> harness_event) list"
  es_ended :: bool
  es_closes :: bool
  es_aborted :: bool

record 'w exec_ports =
  xp_claim :: "claim_request \<Rightarrow> 'w \<Rightarrow> lease_row option option \<times> 'w"
  xp_release :: "lease_reference \<Rightarrow> int \<Rightarrow> 'w \<Rightarrow> 'w"
  xp_probe :: "'w \<Rightarrow> bool option \<times> 'w"
  xp_create :: "execution_request \<Rightarrow> 'w \<Rightarrow> sandbox_handle option \<times> 'w"
  xp_destroy :: "sandbox_handle \<Rightarrow> 'w \<Rightarrow> 'w"
  xp_workingCopy :: "execution_request \<Rightarrow> 'w \<Rightarrow> unit option \<times> 'w"
  xp_handshake :: "'w \<Rightarrow> handshake option \<times> 'w"
  xp_start :: "execution_request \<Rightarrow> 'w \<Rightarrow> session_identity option \<times> 'w"
  xp_resume :: "execution_request \<Rightarrow> session_identity \<Rightarrow> int \<Rightarrow> 'w \<Rightarrow> session_identity option \<times> 'w"
  xp_prompt :: "session_identity \<Rightarrow> string \<Rightarrow> string \<Rightarrow> 'w \<Rightarrow> unit option \<times> 'w"
  xp_dispose :: "session_identity \<Rightarrow> 'w \<Rightarrow> 'w"
  xp_events :: "session_identity \<Rightarrow> int \<Rightarrow> 'w \<Rightarrow> event_stream \<times> 'w"
  xp_append :: "transcript_chunk \<Rightarrow> 'w \<Rightarrow> unit option \<times> 'w"
  xp_latest :: "string \<Rightarrow> 'w \<Rightarrow> int option \<times> 'w"
  xp_readAll :: "string \<Rightarrow> 'w \<Rightarrow> transcript_chunk list option \<times> 'w"
  xp_checkpoint :: "attempt_checkpoint \<Rightarrow> 'w \<Rightarrow> unit option \<times> 'w"
  xp_diff :: "string \<Rightarrow> 'w \<Rightarrow> string option \<times> 'w"
  xp_commit :: "string \<Rightarrow> 'w \<Rightarrow> string option \<times> 'w"
  xp_head :: "string \<Rightarrow> 'w \<Rightarrow> string option \<times> 'w"
  xp_record :: "outcome_command \<Rightarrow> 'w \<Rightarrow> unit option \<times> 'w"
  xp_now :: "'w \<Rightarrow> int \<times> 'w"
  xp_nextId :: "'w \<Rightarrow> string \<times> 'w"
  xp_digest :: "string \<Rightarrow> string"

datatype exec_error = Coordinator coordinator_error_code | Unexpected | Domain_thrown domain_error_code

datatype exec_event =
    E_claimed lease_row | E_released string | E_created string | E_destroyed string | E_started string | E_prompted string
  | E_disposed string | E_appended int | E_checkpoint attempt_checkpoint | E_committed string
  | E_outcome outcome_command

record 'w exec_state =
  xs_world :: 'w
  xs_log :: "exec_event list"

type_synonym ('w, 'a) exec = "'w exec_state \<Rightarrow> (exec_error + 'a) \<times> 'w exec_state"

text \<open>A call that may be rejected, a call that may not, and a call whose rejection goes to the logger.\<close>

definition callX :: "exec_error \<Rightarrow> ('a \<Rightarrow> exec_event list) \<Rightarrow> ('w \<Rightarrow> 'a option \<times> 'w) \<Rightarrow> ('w, 'a) exec" where
  "callX failure ev f s = (case f (xs_world s) of
      (None, w) \<Rightarrow> (Inl failure, s\<lparr>xs_world := w\<rparr>)
    | (Some x, w) \<Rightarrow> (Inr x, s\<lparr>xs_world := w, xs_log := xs_log s @ ev x\<rparr>))"

definition drawX :: "('w \<Rightarrow> 'a \<times> 'w) \<Rightarrow> ('w, 'a) exec" where
  "drawX f s = (case f (xs_world s) of (x, w) \<Rightarrow> (Inr x, s\<lparr>xs_world := w\<rparr>))"

definition tryX :: "exec_event \<Rightarrow> ('w \<Rightarrow> 'w) \<Rightarrow> ('w, unit) exec" where
  "tryX ev f s = (Inr (), s\<lparr>xs_world := f (xs_world s), xs_log := xs_log s @ [ev]\<rparr>)"

definition catchX :: "('w, 'a) exec \<Rightarrow> (exec_error \<Rightarrow> ('w, 'a) exec) \<Rightarrow> ('w, 'a) exec" where
  "catchX m h s = (case m s of (Inl e, s') \<Rightarrow> h e s' | (Inr x, s') \<Rightarrow> (Inr x, s'))"

definition finallyX :: "('w, 'a) exec \<Rightarrow> ('w, unit) exec \<Rightarrow> ('w, 'a) exec" where
  "finallyX m f s = (case m s of (r, s') \<Rightarrow> (case f s' of (Inl e, s'') \<Rightarrow> (Inl e, s'') | (Inr _, s'') \<Rightarrow> (r, s'')))"

abbreviation unlogged :: "'a \<Rightarrow> exec_event list" where
  "unlogged \<equiv> \<lambda>_. []"

definition liftD :: "'a checked \<Rightarrow> exec_error \<Rightarrow> ('w, 'a) exec" where
  "liftD c failure s = (case c of Inl _ \<Rightarrow> (Inl failure, s) | Inr x \<Rightarrow> (Inr x, s))"

section \<open>Lease and sandbox\<close>

definition REQUIRED_HARNESS_CAPABILITIES :: "harness_capability list" where
  "REQUIRED_HARNESS_CAPABILITIES = [Cap_interrupt, Cap_abort, Cap_snapshot]"

definition SPAWN_TOOL_PREFIXES :: "string list" where
  "SPAWN_TOOL_PREFIXES = [''task'', ''spawn'', ''subagent'', ''dispatch'', ''launch_agent'']"

definition isSpawnTool :: "string \<Rightarrow> bool" where
  "isSpawnTool tool = (let name = js_lower tool in
     list_ex (\<lambda>prefix. name = prefix \<or> starts_with (prefix @ ''_'') name) SPAWN_TOOL_PREFIXES)"

definition checkpointSandboxHandle :: "attempt_checkpoint \<Rightarrow> sandbox_handle" where
  "checkpointSandboxHandle ck = \<lparr>sh_instanceId = ck_sandboxInstanceId ck, sh_backendKind = ck_sandboxBackendKind ck,
     sh_policyVersion = 1, sh_policyDigest = ck_sandboxPolicyDigest ck, sh_state = ck_sandboxState ck\<rparr>"

definition lease_reference_of :: "lease_row \<Rightarrow> lease_reference" where
  "lease_reference_of l = \<lparr>lf_id = sl_id l, lf_owner = sl_owner l, lf_token = sl_token l\<rparr>"

definition releaseLease :: "'w exec_ports \<Rightarrow> lease_row \<Rightarrow> ('w, unit) exec" where
  "releaseLease p l = bindS (drawX (xp_now p)) (\<lambda>now.
     tryX (E_released (sl_id l)) (xp_release p (lease_reference_of l) now))"

definition destroySandbox :: "'w exec_ports \<Rightarrow> sandbox_handle \<Rightarrow> ('w, unit) exec" where
  "destroySandbox p sb = tryX (E_destroyed (sh_instanceId sb)) (xp_destroy p sb)"

definition dispose :: "'w exec_ports \<Rightarrow> session_identity \<Rightarrow> ('w, unit) exec" where
  "dispose p se = tryX (E_disposed (si_sessionId se)) (xp_dispose p se)"

definition claim_of :: "execution_request \<Rightarrow> int \<Rightarrow> claim_request" where
  "claim_of rq now = \<lparr>cq_owner = xr_ownerId rq, cq_at = now, cq_leaseDurationMs = xr_leaseDurationMs rq,
     cq_capacity = \<lparr>cp_maxActiveGlobal = int_of_number (xr_maxActiveGlobal rq),
       cp_maxActivePerTree = int_of_number (xr_maxActivePerTree rq)\<rparr>\<rparr>"

fun claim_events :: "lease_row option \<Rightarrow> exec_event list" where
  "claim_events None = []"
| "claim_events (Some l) = [E_claimed l]"

definition claimForNode :: "'w exec_ports \<Rightarrow> execution_request \<Rightarrow> ('w, lease_row) exec" where
  "claimForNode p rq = bindS (drawX (xp_now p)) (\<lambda>now.
     bindS (callX Unexpected claim_events (xp_claim p (claim_of rq now))) (\<lambda>lease.
     case lease of
       None \<Rightarrow> throwS (Coordinator Not_leased)
     | Some l \<Rightarrow> if sl_node l \<noteq> xr_nodeId rq \<or> sl_attempt l \<noteq> xr_attemptId rq
         then bindS (releaseLease p l) (\<lambda>_. throwS (Coordinator Not_leased))
         else returnS l))"

definition createSandbox :: "'w exec_ports \<Rightarrow> execution_request \<Rightarrow> ('w, sandbox_handle) exec" where
  "createSandbox p rq = bindS (callX (Coordinator Sandbox_unavailable) unlogged (xp_probe p)) (\<lambda>available.
     if \<not> available then throwS (Coordinator Sandbox_unavailable)
     else callX (Coordinator Sandbox_unavailable) (\<lambda>sb. [E_created (sh_instanceId sb)]) (xp_create p rq))"

section \<open>Harness\<close>

definition prepareWorkspace :: "'w exec_ports \<Rightarrow> execution_request \<Rightarrow> ('w, unit) exec" where
  "prepareWorkspace p rq = callX Unexpected unlogged (xp_workingCopy p rq)"

definition getHandshake :: "'w exec_ports \<Rightarrow> ('w, handshake) exec" where
  "getHandshake p = callX (Coordinator Harness_unavailable) unlogged (xp_handshake p)"

definition assertHarnessPolicy :: "handshake \<Rightarrow> ('w, unit) exec" where
  "assertHarnessPolicy h =
     (if list_ex isSpawnTool (hs_tools h) then throwS (Coordinator Policy_violation)
      else if length (missingHarnessCapabilities h REQUIRED_HARNESS_CAPABILITIES) > 0
      then throwS (Coordinator Harness_unavailable) else returnS ())"

definition startHarness :: "'w exec_ports \<Rightarrow> execution_request \<Rightarrow> ('w, handshake \<times> session_identity) exec" where
  "startHarness p rq = bindS (getHandshake p) (\<lambda>h. bindS (assertHarnessPolicy h) (\<lambda>_.
     bindS (callX (Coordinator Harness_unavailable) (\<lambda>se. [E_started (si_sessionId se)]) (xp_start p rq)) (\<lambda>se. returnS (h, se))))"

definition resumeHarness :: "'w exec_ports \<Rightarrow> execution_request \<Rightarrow> attempt_checkpoint \<Rightarrow> ('w, session_identity) exec" where
  "resumeHarness p rq ck = callX (Coordinator Harness_unavailable) (\<lambda>se. [E_started (si_sessionId se)])
     (xp_resume p rq (ck_harnessIdentity ck) (ck_sequence ck))"

definition sendContextPack :: "'w exec_ports \<Rightarrow> session_identity \<Rightarrow> context_pack_input \<Rightarrow> ('w, unit) exec" where
  "sendContextPack p se pack = bindS (drawX (xp_nextId p)) (\<lambda>promptId.
     callX (Coordinator Harness_unavailable) (\<lambda>_. [E_prompted (canonicalContextPackJson pack)])
       (xp_prompt p se promptId (canonicalContextPackJson pack)))"

definition make_checkpoint ::
    "'w exec_ports \<Rightarrow> execution_request \<Rightarrow> session_identity \<Rightarrow> sandbox_handle \<Rightarrow> string \<Rightarrow> int \<Rightarrow> execution_phase
      \<Rightarrow> ('w, attempt_checkpoint) exec" where
  "make_checkpoint p rq se sb digest sequence phase = bindS (drawX (xp_now p)) (\<lambda>now. returnS
     \<lparr>ck_attemptId = xr_attemptId rq, ck_nodeId = xr_nodeId rq, ck_sequence = sequence, ck_phase = phase,
      ck_harnessIdentity = se, ck_sandboxInstanceId = sh_instanceId sb, ck_sandboxBackendKind = sh_backendKind sb,
      ck_sandboxPolicyDigest = sh_policyDigest sb, ck_sandboxState = sh_state sb, ck_contextDigest = digest,
      ck_recordedAt = now\<rparr>)"

definition recordCheckpoint :: "'w exec_ports \<Rightarrow> attempt_checkpoint \<Rightarrow> ('w, unit) exec" where
  "recordCheckpoint p ck = callX Unexpected (\<lambda>_. [E_checkpoint ck]) (xp_checkpoint p ck)"

section \<open>Setup\<close>

text \<open>
  The one \<open>catch\<close> of \<open>#setup\<close>: it disposes of the session when there is one, destroys the sandbox when this setup
  created it, and releases the lease. Each part of the setup runs under it with what exists at that point.
\<close>

definition undone ::
    "'w exec_ports \<Rightarrow> lease_row \<Rightarrow> sandbox_handle option \<Rightarrow> session_identity option \<Rightarrow> ('w, 'a) exec \<Rightarrow> ('w, 'a) exec" where
  "undone p l created session m = catchX m (\<lambda>e.
     bindS (case session of None \<Rightarrow> returnS () | Some se \<Rightarrow> dispose p se) (\<lambda>_.
     bindS (case created of None \<Rightarrow> returnS () | Some sb \<Rightarrow> destroySandbox p sb) (\<lambda>_.
     bindS (releaseLease p l) (\<lambda>_. throwS e))))"

definition introduce ::
    "'w exec_ports \<Rightarrow> execution_request \<Rightarrow> attempt_checkpoint option \<Rightarrow> lease_row \<Rightarrow> sandbox_handle \<Rightarrow> session_identity
      \<Rightarrow> handshake \<Rightarrow> ('w, exec_setup) exec" where
  "introduce p rq resume l sb se h =
     (let pack = buildContextPackInput rq h; digest = computeContextPackDigest (xp_digest p) pack in
      if (case resume of None \<Rightarrow> False | Some ck \<Rightarrow> digest \<noteq> ck_contextDigest ck)
      then throwS (Coordinator Policy_violation)
      else bindS (sendContextPack p se pack) (\<lambda>_.
        bindS (make_checkpoint p rq se sb digest (case resume of None \<Rightarrow> 0 | Some ck \<Rightarrow> ck_sequence ck)
            (if resume = None then Ph_context_sent else Ph_streaming)) (\<lambda>ck.
        bindS (recordCheckpoint p ck) (\<lambda>_.
        returnS \<lparr>su_lease = l, su_sandbox = sb, su_session = se, su_handshake = h, su_pack = pack, su_digest = digest,
          su_initialCheckpoint = ck\<rparr>))))"

definition setupAttempt :: "'w exec_ports \<Rightarrow> execution_request \<Rightarrow> attempt_checkpoint option \<Rightarrow> ('w, exec_setup) exec" where
  "setupAttempt p rq resume = bindS (claimForNode p rq) (\<lambda>l.
     case resume of
       None \<Rightarrow>
         bindS (undone p l None None (createSandbox p rq)) (\<lambda>sb.
         bindS (undone p l (Some sb) None (bindS (prepareWorkspace p rq) (\<lambda>_. startHarness p rq))) (\<lambda>(h, se).
         undone p l (Some sb) (Some se) (introduce p rq None l sb se h)))
     | Some ck \<Rightarrow>
         bindS (undone p l None None (resumeHarness p rq ck)) (\<lambda>se.
         undone p l None (Some se) (bindS (getHandshake p) (\<lambda>h.
           introduce p rq resume l (checkpointSandboxHandle ck) se h))))"

section \<open>Streaming\<close>

text \<open>The bounded capture: how much text was seen, and whether some of it was over the limit.\<close>

record capture =
  ca_bytes :: int
  ca_truncated :: bool

fun messageText :: "harness_payload \<Rightarrow> string option" where
  "messageText (Message role t) = Some t"
| "messageText (Thinking t) = Some t"
| "messageText (Result_event outcome t) = Some t"
| "messageText (Tool_result i output failed) = (case output of JStr t \<Rightarrow> Some t | _ \<Rightarrow> None)"
| "messageText (Error_event code t again) = Some t"
| "messageText _ = None"

definition capture_payload :: "int \<Rightarrow> harness_payload \<Rightarrow> capture \<Rightarrow> capture" where
  "capture_payload limit payload c = (if ca_truncated c then c else
     (case messageText payload of
        None \<Rightarrow> c
      | Some t \<Rightarrow> (let remaining = limit - ca_bytes c in
          if remaining \<le> 0 then c\<lparr>ca_truncated := True\<rparr>
          else if int (length t) \<le> remaining then c\<lparr>ca_bytes := ca_bytes c + int (length t)\<rparr>
          else \<lparr>ca_bytes = limit, ca_truncated = True\<rparr>)))"

fun accumulateUsage :: "harness_usage \<Rightarrow> harness_payload \<Rightarrow> harness_usage" where
  "accumulateUsage (i, out, cached) (Usage (i', out', cached')) = (i + i', out + out', cached + cached')"
| "accumulateUsage u _ = u"

record stream_outcome =
  so_chunks :: "transcript_chunk list"
  so_lastSequence :: int
  so_usage :: harness_usage
  so_output :: capture
  so_result :: "(node_outcome_kind \<times> string) option"
  so_aborted :: bool

fun result_of :: "harness_payload \<Rightarrow> (node_outcome_kind \<times> string) option" where
  "result_of (Result_event outcome t) = Some (outcome, t)"
| "result_of _ = None"

text \<open>What the loop does with an event before the calls it makes for it.\<close>

definition take_event :: "int \<Rightarrow> execution_request \<Rightarrow> harness_event \<Rightarrow> stream_outcome \<Rightarrow> stream_outcome" where
  "take_event limit rq ev a = a\<lparr>so_chunks := so_chunks a @ [toTranscriptChunk (xr_attemptId rq) ev],
     so_lastSequence := hv_sequence ev, so_usage := accumulateUsage (so_usage a) (hv_payload ev),
     so_output := capture_payload limit (hv_payload ev) (so_output a)\<rparr>"

text \<open>The second component says whether the loop left the stream before its end.\<close>

fun stream_loop ::
    "'w exec_ports \<Rightarrow> int \<Rightarrow> execution_request \<Rightarrow> exec_setup \<Rightarrow> (bool \<times> harness_event) list \<Rightarrow> stream_outcome
      \<Rightarrow> ('w, stream_outcome \<times> bool) exec" where
  "stream_loop p limit rq su [] a = returnS (a, False)"
| "stream_loop p limit rq su ((aborted, ev) # rest) a =
     (if aborted then returnS (a\<lparr>so_aborted := True\<rparr>, True) else
      (let chunk = toTranscriptChunk (xr_attemptId rq) ev; a' = take_event limit rq ev a in
       bindS (callX Unexpected (\<lambda>_. [E_appended (tc_sequence chunk)]) (xp_append p chunk)) (\<lambda>_.
       bindS (make_checkpoint p rq (su_session su) (su_sandbox su) (su_digest su) (so_lastSequence a') Ph_streaming) (\<lambda>ck.
       bindS (recordCheckpoint p ck) (\<lambda>_.
       case result_of (hv_payload ev) of
         Some r \<Rightarrow> returnS (a'\<lparr>so_result := Some r\<rparr>, True)
       | None \<Rightarrow> stream_loop p limit rq su rest a')))))"

definition start_sequence :: "attempt_checkpoint option \<Rightarrow> int" where
  "start_sequence resume = (case resume of None \<Rightarrow> 0 | Some ck \<Rightarrow> ck_sequence ck)"

definition stream_start :: "int \<Rightarrow> stream_outcome" where
  "stream_start after = \<lparr>so_chunks = [], so_lastSequence = after, so_usage = (0, 0, 0),
     so_output = \<lparr>ca_bytes = 0, ca_truncated = False\<rparr>, so_result = None, so_aborted = False\<rparr>"

definition streamAttempt ::
    "'w exec_ports \<Rightarrow> int \<Rightarrow> execution_request \<Rightarrow> attempt_checkpoint option \<Rightarrow> exec_setup \<Rightarrow> ('w, stream_outcome) exec" where
  "streamAttempt p limit rq resume su = bindS (drawX (xp_events p (su_session su) (start_sequence resume))) (\<lambda>es.
     bindS (catchX (bindS (stream_loop p limit rq su (es_items es) (stream_start (start_sequence resume))) (\<lambda>(a, early).
         if (if early then es_closes es else es_ended es) then returnS a else throwS Unexpected))
       (\<lambda>_. throwS (Coordinator Harness_unavailable))) (\<lambda>a.
     returnS (a\<lparr>so_aborted := so_aborted a \<or> es_aborted es\<rparr>)))"

section \<open>The outcome\<close>

definition artifactRefFromOutput :: "json \<Rightarrow> (string \<times> string) option" where
  "artifactRefFromOutput output = (case output of
      JObj _ \<Rightarrow> (case (json_field output ''artifactId'', json_field output ''contentDigest'') of
          (JStr i, JStr d) \<Rightarrow> if uuidV7Pattern i \<and> contentHashPattern d then Some (i, d) else None
        | _ \<Rightarrow> None)
    | _ \<Rightarrow> None)"

fun artifact_of :: "harness_payload \<Rightarrow> (string \<times> string) option" where
  "artifact_of (Tool_result i output failed) = artifactRefFromOutput output"
| "artifact_of _ = None"

definition collectArtifactRefs :: "transcript_chunk list \<Rightarrow> (string \<times> string) list" where
  "collectArtifactRefs chunks = List.map_filter (\<lambda>c. artifact_of (tc_payload c)) chunks"

definition outcome ::
    "execution_request \<Rightarrow> node_outcome_kind \<Rightarrow> string \<Rightarrow> (string \<times> string) list \<Rightarrow> string option \<Rightarrow> harness_usage \<Rightarrow> node_outcome" where
  "outcome rq k text artifacts revision used = \<lparr>no_nodeId = xr_nodeId rq, no_attemptId = xr_attemptId rq, no_kind = k,
     no_text = text, no_artifacts = artifacts, no_revision = revision, no_usage = used\<rparr>"

definition resolveSucceededOutcome ::
    "'w exec_ports \<Rightarrow> execution_request \<Rightarrow> stream_outcome \<Rightarrow> string \<Rightarrow> ('w, resolved_outcome) exec" where
  "resolveSucceededOutcome p rq st text =
     (let artifacts = collectArtifactRefs (so_chunks st);
          found = (\<lambda>revision k. \<lparr>ru_outcome = outcome rq Outcome_succeeded text artifacts revision (so_usage st),
             ru_successKind = Some k\<rparr>) in
      bindS (callX (Coordinator Outcome_failed_code) unlogged (xp_diff p (xr_attemptId rq))) (\<lambda>diff.
      if length diff > 0 then
        bindS (callX (Coordinator Outcome_failed_code) (\<lambda>h. [E_committed h]) (xp_commit p (xr_attemptId rq))) (\<lambda>h.
        returnS (found (Some h) Success_commit))
      else if length artifacts > 0 then returnS (found None Success_artifact)
      else bindS (callX (Coordinator Outcome_failed_code) unlogged (xp_head p (xr_attemptId rq))) (\<lambda>h.
        returnS (found (Some h) Success_no_change))))"

definition resolveOutcome :: "'w exec_ports \<Rightarrow> execution_request \<Rightarrow> stream_outcome \<Rightarrow> ('w, resolved_outcome) exec" where
  "resolveOutcome p rq st = (let ended = (\<lambda>k text. returnS
       \<lparr>ru_outcome = outcome rq k text [] None (so_usage st), ru_successKind = None\<rparr>) in
     case so_result st of
       Some (Outcome_cancelled, text) \<Rightarrow> ended Outcome_cancelled text
     | Some (Outcome_failed, text) \<Rightarrow> ended Outcome_failed text
     | Some (Outcome_succeeded, text) \<Rightarrow> resolveSucceededOutcome p rq st text
     | None \<Rightarrow> if so_aborted st then ended Outcome_cancelled ''node execution interrupted''
         else throwS (Coordinator Harness_unavailable))"

definition toRecordedOutcome ::
    "'w exec_ports \<Rightarrow> execution_request \<Rightarrow> success_kind \<Rightarrow> node_outcome \<Rightarrow> ('w, recorded_outcome) exec" where
  "toRecordedOutcome p rq k out = bindS (drawX (xp_nextId p)) (\<lambda>i.
     bindS (liftD (evidenceId i) Unexpected) (\<lambda>evidence.
     let revision = (case no_revision out of None \<Rightarrow> wc_headCommit (xr_workspace rq) | Some r \<Rightarrow> r) in
     case k of
       Success_commit \<Rightarrow> returnS (Commit_outcome revision evidence)
     | Success_artifact \<Rightarrow> (case no_artifacts out of
           [] \<Rightarrow> throwS (Coordinator Outcome_failed_code)
         | (a, _) # _ \<Rightarrow> returnS (Artifact_outcome a))
     | Success_no_change \<Rightarrow> bindS (liftD (nonEmptyText (no_text out)) Unexpected) (\<lambda>explanation.
         returnS (No_change_outcome revision evidence explanation))))"

definition recordOutcome :: "'w exec_ports \<Rightarrow> execution_request \<Rightarrow> node_outcome \<Rightarrow> success_kind option \<Rightarrow> ('w, unit) exec" where
  "recordOutcome p rq out successKind = (case successKind of
      None \<Rightarrow> returnS ()
    | Some k \<Rightarrow> bindS (toRecordedOutcome p rq k out) (\<lambda>recorded.
        bindS (drawX (xp_nextId p)) (\<lambda>i.
        bindS (liftD (commandId i) (Coordinator Outcome_failed_code)) (\<lambda>command.
        bindS (drawX (xp_now p)) (\<lambda>now.
        let cmd = \<lparr>oq_commandId = command, oq_actorSessionId = xr_actorSessionId rq, oq_nodeId = xr_nodeId rq,
          oq_expectedNodeVersion = (case xr_expectedNodeVersion rq of None \<Rightarrow> JsNum 0 | Some v \<Rightarrow> v),
          oq_outcome = recorded, oq_at = now\<rparr>
        in callX (Coordinator Outcome_failed_code) (\<lambda>_. [E_outcome cmd]) (xp_record p cmd))))))"

definition transcriptSummary :: "'w exec_ports \<Rightarrow> string \<Rightarrow> ('w, transcript_summary) exec" where
  "transcriptSummary p attempt = bindS (callX Unexpected unlogged (xp_readAll p attempt)) (\<lambda>all.
     returnS \<lparr>ts_firstSequence = (if all = [] then 0 else tc_sequence (hd all)),
       ts_lastSequence = (if all = [] then 0 else tc_sequence (last all)), ts_chunkCount = length all\<rparr>)"

definition completeAttempt ::
    "'w exec_ports \<Rightarrow> execution_request \<Rightarrow> bool \<Rightarrow> exec_setup \<Rightarrow> stream_outcome \<Rightarrow> ('w, exec_result) exec" where
  "completeAttempt p rq defer su st = bindS (resolveOutcome p rq st) (\<lambda>resolved.
     bindS (make_checkpoint p rq (su_session su) (su_sandbox su) (su_digest su) (so_lastSequence st) Ph_finalizing) (\<lambda>final.
     bindS (finallyX
       (bindS (recordCheckpoint p final) (\<lambda>_.
        bindS (if defer then returnS () else recordOutcome p rq (ru_outcome resolved) (ru_successKind resolved)) (\<lambda>_.
        releaseLease p (su_lease su))))
       (dispose p (su_session su))) (\<lambda>_.
     bindS (destroySandbox p (su_sandbox su)) (\<lambda>_.
     bindS (transcriptSummary p (xr_attemptId rq)) (\<lambda>summary.
     bindS (drawX (xp_now p)) (\<lambda>now.
     returnS \<lparr>er_attemptId = xr_attemptId rq, er_nodeId = xr_nodeId rq, er_outcome = ru_outcome resolved,
       er_successKind = ru_successKind resolved, er_transcript = summary, er_initial = su_initialCheckpoint su,
       er_final = final, er_contextDigest = su_digest su, er_recordedAt = now\<rparr>))))))"

section \<open>Failure and the whole attempt\<close>

definition recordFailureCheckpoint :: "'w exec_ports \<Rightarrow> execution_request \<Rightarrow> exec_setup \<Rightarrow> ('w, unit) exec" where
  "recordFailureCheckpoint p rq su =
     bindS (catchX (callX Unexpected unlogged (xp_latest p (xr_attemptId rq))) (\<lambda>_. returnS 0)) (\<lambda>sequence.
     bindS (make_checkpoint p rq (su_session su) (su_sandbox su) (su_digest su) sequence Ph_streaming) (\<lambda>ck.
     catchX (recordCheckpoint p ck) (\<lambda>_. returnS ())))"

text \<open>\<open>setup\<close> is defined exactly when the phase is beyond \<open>claimed\<close>.\<close>

definition failClosed :: "'w exec_ports \<Rightarrow> execution_request \<Rightarrow> exec_setup option \<Rightarrow> execution_phase \<Rightarrow> ('w, unit) exec" where
  "failClosed p rq su0 phase = (case su0 of
      None \<Rightarrow> returnS ()
    | Some su \<Rightarrow> bindS (finallyX
        (bindS (if phase \<noteq> Ph_claimed then recordFailureCheckpoint p rq su else returnS ()) (\<lambda>_.
         releaseLease p (su_lease su)))
        (dispose p (su_session su))) (\<lambda>_.
        if phase = Ph_claimed then destroySandbox p (su_sandbox su) else returnS ()))"

fun toCoordinatorError :: "exec_error \<Rightarrow> exec_error" where
  "toCoordinatorError (Coordinator c) = Coordinator c"
| "toCoordinatorError _ = Coordinator Harness_unavailable"

definition runAttempt ::
    "'w exec_ports \<Rightarrow> int \<Rightarrow> execution_request \<Rightarrow> attempt_checkpoint option \<Rightarrow> bool \<Rightarrow> ('w, exec_result) exec" where
  "runAttempt p limit rq resume defer =
     bindS (catchX (setupAttempt p rq resume) (\<lambda>e.
       bindS (failClosed p rq None Ph_claimed) (\<lambda>_. throwS (toCoordinatorError e)))) (\<lambda>su.
     bindS (catchX (streamAttempt p limit rq resume su) (\<lambda>e.
       bindS (failClosed p rq (Some su) Ph_streaming) (\<lambda>_. throwS (toCoordinatorError e)))) (\<lambda>st.
     catchX (completeAttempt p rq defer su st) (\<lambda>e.
       bindS (failClosed p rq (Some su) Ph_finalizing) (\<lambda>_. throwS (toCoordinatorError e)))))"

definition runNode ::
    "'w exec_ports \<Rightarrow> int \<Rightarrow> execution_request \<Rightarrow> bool \<Rightarrow> ('w, exec_result) exec" where
  "runNode p limit rq defer = (case validateNodeExecutionRequest rq of
      Inl e \<Rightarrow> throwS (Domain_thrown e)
    | Inr _ \<Rightarrow> runAttempt p limit rq None defer)"

definition resumeFromCheckpoint ::
    "'w exec_ports \<Rightarrow> int \<Rightarrow> attempt_checkpoint \<Rightarrow> execution_request \<Rightarrow> ('w, exec_result) exec" where
  "resumeFromCheckpoint p limit ck rq = (case validateNodeExecutionRequest rq of
      Inl e \<Rightarrow> throwS (Domain_thrown e)
    | Inr _ \<Rightarrow> if ck_attemptId ck \<noteq> xr_attemptId rq then throwS (Coordinator Not_leased)
        else runAttempt p limit rq (Some ck) False)"

definition recordDeferredOutcome :: "'w exec_ports \<Rightarrow> execution_request \<Rightarrow> exec_result \<Rightarrow> ('w, unit) exec" where
  "recordDeferredOutcome p rq r = recordOutcome p rq (er_outcome r) (er_successKind r)"

text \<open>The runs in progress: whether each was interrupted, and its session once there is one.\<close>

record run_handle =
  rh_aborted :: bool
  rh_session :: "session_identity option"

definition interrupt ::
    "(string \<Rightarrow> run_handle option) \<Rightarrow> string \<Rightarrow> exec_error + (string \<Rightarrow> run_handle option) \<times> session_identity option" where
  "interrupt runs attempt = (case runs attempt of
      None \<Rightarrow> Inl (Coordinator Not_leased)
    | Some h \<Rightarrow> Inr (runs(attempt \<mapsto> h\<lparr>rh_aborted := True\<rparr>), rh_session h))"


section \<open>What an operation logs\<close>

text \<open>
  \<open>emits q m\<close>: whatever the world answers, the events \<open>m\<close> appends to the log are related by \<open>q\<close> to its result.
  The rules compute a sufficient condition backwards over the text of an operation.
\<close>

definition emits :: "(exec_error + 'a \<Rightarrow> exec_event list \<Rightarrow> bool) \<Rightarrow> ('w, 'a) exec \<Rightarrow> bool" where
  "emits q m \<longleftrightarrow> (\<forall>s r s'. m s = (r, s') \<longrightarrow> (\<exists>new. xs_log s' = xs_log s @ new \<and> q r new))"

named_theorems emits_intro "backward rules for the events an operation logs"

lemma emitsI: "(\<And>s r s'. m s = (r, s') \<Longrightarrow> \<exists>new. xs_log s' = xs_log s @ new \<and> q r new) \<Longrightarrow> emits q m"
  by (simp add: emits_def)

lemma emitsD: "emits q m \<Longrightarrow> m s = (r, s') \<Longrightarrow> \<exists>new. xs_log s' = xs_log s @ new \<and> q r new"
  by (simp add: emits_def)

lemma emits_mono: "emits q m \<Longrightarrow> (\<And>r new. q r new \<Longrightarrow> q' r new) \<Longrightarrow> emits q' m"
  unfolding emits_def by blast

lemma emits_bind [emits_intro]:
  assumes "emits (\<lambda>r new. case r of Inl e \<Rightarrow> q (Inl e) new
      | Inr x \<Rightarrow> emits (\<lambda>r' new'. q r' (new @ new')) (f x)) m"
  shows "emits q (bindS m f)"
proof (rule emitsI)
  fix s r s' assume run: "bindS m f s = (r, s')"
  obtain r1 s1 where m: "m s = (r1, s1)" by fastforce
  obtain new where new: "xs_log s1 = xs_log s @ new"
    and q: "case r1 of Inl e \<Rightarrow> q (Inl e) new | Inr x \<Rightarrow> emits (\<lambda>r' new'. q r' (new @ new')) (f x)"
    using emitsD [OF assms m] by blast
  show "\<exists>new. xs_log s' = xs_log s @ new \<and> q r new"
  proof (cases r1)
    case (Inl e)
    then show ?thesis using run m new q by (auto simp: bindS_def)
  next
    case (Inr x)
    then have "f x s1 = (r, s')" using run m by (simp add: bindS_def)
    moreover have "emits (\<lambda>r' new'. q r' (new @ new')) (f x)" using q Inr by simp
    ultimately show ?thesis using emitsD new by fastforce
  qed
qed

lemma emits_catch [emits_intro]:
  assumes "emits (\<lambda>r new. case r of Inr x \<Rightarrow> q (Inr x) new
      | Inl e \<Rightarrow> emits (\<lambda>r' new'. q r' (new @ new')) (h e)) m"
  shows "emits q (catchX m h)"
proof (rule emitsI)
  fix s r s' assume run: "catchX m h s = (r, s')"
  obtain r1 s1 where m: "m s = (r1, s1)" by fastforce
  obtain new where new: "xs_log s1 = xs_log s @ new"
    and q: "case r1 of Inr x \<Rightarrow> q (Inr x) new | Inl e \<Rightarrow> emits (\<lambda>r' new'. q r' (new @ new')) (h e)"
    using emitsD [OF assms m] by blast
  show "\<exists>new. xs_log s' = xs_log s @ new \<and> q r new"
  proof (cases r1)
    case (Inr x)
    then show ?thesis using run m new q by (auto simp: catchX_def)
  next
    case (Inl e)
    then have "h e s1 = (r, s')" using run m by (simp add: catchX_def)
    moreover have "emits (\<lambda>r' new'. q r' (new @ new')) (h e)" using q Inl by simp
    ultimately show ?thesis using emitsD new by fastforce
  qed
qed

lemma emits_finally [emits_intro]:
  assumes "emits (\<lambda>r new. emits (\<lambda>r' new'. case r' of Inl e \<Rightarrow> q (Inl e) (new @ new') | Inr _ \<Rightarrow> q r (new @ new')) f) m"
  shows "emits q (finallyX m f)"
proof (rule emitsI)
  fix s r s' assume run: "finallyX m f s = (r, s')"
  obtain r1 s1 where m: "m s = (r1, s1)" by fastforce
  obtain r2 s2 where f: "f s1 = (r2, s2)" by fastforce
  obtain new where new: "xs_log s1 = xs_log s @ new"
    and q: "emits (\<lambda>r' new'. case r' of Inl e \<Rightarrow> q (Inl e) (new @ new') | Inr _ \<Rightarrow> q r1 (new @ new')) f"
    using emitsD [OF assms m] by blast
  from emitsD [OF q f] obtain new' where "xs_log s2 = xs_log s1 @ new'"
    "case r2 of Inl e \<Rightarrow> q (Inl e) (new @ new') | Inr _ \<Rightarrow> q r1 (new @ new')" by blast
  then show "\<exists>new. xs_log s' = xs_log s @ new \<and> q r new"
    using run m f new by (cases r2) (auto simp: finallyX_def)
qed

lemma emits_return [emits_intro]: "q (Inr x) [] \<Longrightarrow> emits q (returnS x)"
  by (auto simp: emits_def res_simps)

lemma emits_throw [emits_intro]: "q (Inl e) [] \<Longrightarrow> emits q (throwS e)"
  by (auto simp: emits_def res_simps)

lemma emits_call [emits_intro]: "q (Inl failure) [] \<Longrightarrow> (\<And>x. q (Inr x) (ev x)) \<Longrightarrow> emits q (callX failure ev f)"
  by (auto simp: emits_def callX_def split: prod.splits option.splits)

lemma emits_draw [emits_intro]: "(\<And>x. q (Inr x) []) \<Longrightarrow> emits q (drawX f)"
  by (auto simp: emits_def drawX_def split: prod.splits)

lemma emits_try [emits_intro]: "q (Inr ()) [ev] \<Longrightarrow> emits q (tryX ev f)"
  by (auto simp: emits_def tryX_def)

lemma emits_liftD [emits_intro]: "q (Inl failure) [] \<Longrightarrow> (\<And>x. c = Inr x \<Longrightarrow> q (Inr x) []) \<Longrightarrow> emits q (liftD c failure)"
  by (auto simp: emits_def liftD_def split: sum.splits)

lemma emits_if [emits_intro]: "(b \<Longrightarrow> emits q m) \<Longrightarrow> (\<not> b \<Longrightarrow> emits q m') \<Longrightarrow> emits q (if b then m else m')"
  by simp

lemma emits_option [emits_intro]:
  "(v = None \<Longrightarrow> emits q m) \<Longrightarrow> (\<And>x. v = Some x \<Longrightarrow> emits q (f x)) \<Longrightarrow> emits q (case v of None \<Rightarrow> m | Some x \<Rightarrow> f x)"
  by (cases v) auto

lemma emits_prod [emits_intro]: "(\<And>x y. v = (x, y) \<Longrightarrow> emits q (f x y)) \<Longrightarrow> emits q (case v of (x, y) \<Rightarrow> f x y)"
  by (cases v) auto

lemma emits_let [emits_intro]: "(\<And>x. x = v \<Longrightarrow> emits q (f x)) \<Longrightarrow> emits q (Let v f)"
  by simp

text \<open>The condition a rule leaves for the result of the first part of an operation.\<close>

lemma sum_caseI [emits_intro]:
  "p e \<Longrightarrow> case Inl e of Inl e \<Rightarrow> p e | Inr x \<Rightarrow> q x"
  "q x \<Longrightarrow> case Inr x of Inl e \<Rightarrow> p e | Inr x \<Rightarrow> q x"
  by simp_all

lemma sum_splitI:
  "(\<And>e. r = Inl e \<Longrightarrow> p e) \<Longrightarrow> (\<And>x. r = Inr x \<Longrightarrow> q x) \<Longrightarrow> case r of Inl e \<Rightarrow> p e | Inr x \<Rightarrow> q x"
  by (cases r) simp_all

section \<open>Parts of a run\<close>

definition settled :: "exec_event list \<Rightarrow> bool" where
  "settled new \<longleftrightarrow> (\<forall>l. E_claimed l \<in> set new \<longrightarrow> E_released (sl_id l) \<in> set new) \<and>
     (\<forall>i. E_started i \<in> set new \<longrightarrow> E_disposed i \<in> set new) \<and>
     (\<forall>i. E_created i \<in> set new \<longrightarrow> E_destroyed i \<in> set new)"

definition no_result :: "exec_event list \<Rightarrow> bool" where
  "no_result new \<longleftrightarrow> (\<forall>c. E_outcome c \<notin> set new) \<and> (\<forall>h. E_committed h \<notin> set new)"

lemma settled_simps [simp]: "settled []" "no_result []"
  by (simp_all add: settled_def no_result_def)

lemma claim_emits:
  "emits (\<lambda>r new. case r of Inl _ \<Rightarrow> settled new \<and> no_result new
     | Inr l \<Rightarrow> new = [E_claimed l] \<and> sl_node l = xr_nodeId rq \<and> sl_attempt l = xr_attemptId rq) (claimForNode p rq)"
  unfolding claimForNode_def releaseLease_def
  by (intro emits_intro) (auto simp: settled_def no_result_def)

lemma create_emits:
  "emits (\<lambda>r new. case r of Inl _ \<Rightarrow> new = [] | Inr sb \<Rightarrow> new = [E_created (sh_instanceId sb)]) (createSandbox p rq)"
  unfolding createSandbox_def by (intro emits_intro) auto

lemma start_emits:
  "emits (\<lambda>r new. case r of Inl _ \<Rightarrow> new = [] | Inr (h, se) \<Rightarrow> new = [E_started (si_sessionId se)] \<and>
     \<not> list_ex isSpawnTool (hs_tools h) \<and> set REQUIRED_HARNESS_CAPABILITIES \<subseteq> set (hs_capabilities h)) (startHarness p rq)"
  unfolding startHarness_def getHandshake_def assertHarnessPolicy_def
  by (intro emits_intro) (auto simp: missingHarnessCapabilities_def filter_empty_conv)

lemma undone_emits:
  assumes "emits (\<lambda>r new. case r of Inr x \<Rightarrow> q (Inr x) new
      | Inl e \<Rightarrow> q (Inl e) (new @ (case session of None \<Rightarrow> [] | Some se \<Rightarrow> [E_disposed (si_sessionId se)])
          @ (case created of None \<Rightarrow> [] | Some sb \<Rightarrow> [E_destroyed (sh_instanceId sb)]) @ [E_released (sl_id l)])) m"
  shows "emits q (undone p l created session m)"
  unfolding undone_def
proof (rule emits_catch, rule emits_mono [OF assms])
  fix r new
  assume a: "case r of Inr x \<Rightarrow> q (Inr x) new
      | Inl e \<Rightarrow> q (Inl e) (new @ (case session of None \<Rightarrow> [] | Some se \<Rightarrow> [E_disposed (si_sessionId se)])
          @ (case created of None \<Rightarrow> [] | Some sb \<Rightarrow> [E_destroyed (sh_instanceId sb)]) @ [E_released (sl_id l)])"
  show "case r of Inr x \<Rightarrow> q (Inr x) new | Inl e \<Rightarrow> emits (\<lambda>r' new'. q r' (new @ new'))
     (bindS (case session of None \<Rightarrow> returnS () | Some se \<Rightarrow> dispose p se) (\<lambda>_.
     bindS (case created of None \<Rightarrow> returnS () | Some sb \<Rightarrow> destroySandbox p sb) (\<lambda>_.
     bindS (releaseLease p l) (\<lambda>_. throwS e))))"
  proof (cases r)
    case (Inl e)
    then show ?thesis
      using a unfolding dispose_def destroySandbox_def releaseLease_def
      by (cases session; cases created; simp; intro emits_intro; simp)
  qed (use a in simp)
qed

definition introduced :: "attempt_checkpoint option \<Rightarrow> exec_setup \<Rightarrow> exec_event list" where
  "introduced resume su = [E_prompted (canonicalContextPackJson (su_pack su)), E_checkpoint (su_initialCheckpoint su)]"

lemma introduce_emits:
  "emits (\<lambda>r new. case r of
       Inl _ \<Rightarrow> new = [] \<or> new = [E_prompted (canonicalContextPackJson (buildContextPackInput rq h))]
     | Inr su \<Rightarrow> new = introduced resume su \<and> su_lease su = l \<and> su_sandbox su = sb \<and> su_session su = se \<and>
         su_handshake su = h \<and> su_pack su = buildContextPackInput rq h \<and>
         su_digest su = computeContextPackDigest (xp_digest p) (su_pack su) \<and>
         ck_sandboxInstanceId (su_initialCheckpoint su) = sh_instanceId (su_sandbox su) \<and>
         (\<forall>ck. resume = Some ck \<longrightarrow> su_digest su = ck_contextDigest ck))
     (introduce p rq resume l sb se h)"
  unfolding introduce_def sendContextPack_def make_checkpoint_def recordCheckpoint_def introduced_def Let_def
  by (intro emits_intro) (auto split: option.splits)

definition setup_events :: "attempt_checkpoint option \<Rightarrow> exec_setup \<Rightarrow> exec_event list" where
  "setup_events resume su = [E_claimed (su_lease su)] @
     (if resume = None then [E_created (sh_instanceId (su_sandbox su))] else []) @
     [E_started (si_sessionId (su_session su))] @ introduced resume su"

lemma emits_conj: "emits q m \<Longrightarrow> emits q' m \<Longrightarrow> emits (\<lambda>r new. q r new \<and> q' r new) m"
  unfolding emits_def by (metis same_append_eq)

definition entered ::
    "'w exec_ports \<Rightarrow> execution_request \<Rightarrow> attempt_checkpoint option \<Rightarrow> exec_setup \<Rightarrow> exec_event list \<Rightarrow> bool" where
  "entered p rq resume su new \<longleftrightarrow> new = setup_events resume su \<and> sl_node (su_lease su) = xr_nodeId rq \<and>
     sl_attempt (su_lease su) = xr_attemptId rq \<and> su_pack su = buildContextPackInput rq (su_handshake su) \<and>
     su_digest su = computeContextPackDigest (xp_digest p) (su_pack su) \<and>
     ck_sandboxInstanceId (su_initialCheckpoint su) = sh_instanceId (su_sandbox su) \<and>
     (case resume of
        None \<Rightarrow> \<not> list_ex isSpawnTool (hs_tools (su_handshake su)) \<and>
          set REQUIRED_HARNESS_CAPABILITIES \<subseteq> set (hs_capabilities (su_handshake su))
      | Some ck \<Rightarrow> su_digest su = ck_contextDigest ck)"

lemma setup_emits:
  "emits (\<lambda>r new. case r of Inl _ \<Rightarrow> settled new \<and> no_result new | Inr su \<Rightarrow> entered p rq resume su new)
     (setupAttempt p rq resume)"
  unfolding setupAttempt_def resumeHarness_def prepareWorkspace_def getHandshake_def
  by (intro emits_intro sum_splitI emits_mono [OF claim_emits] undone_emits emits_mono [OF create_emits]
      emits_mono [OF start_emits] emits_mono [OF introduce_emits])
    (auto simp: settled_def no_result_def setup_events_def entered_def)

text \<open>Streaming appends chunks and records streaming checkpoints; the last appended one is where it stopped.\<close>

fun appended :: "exec_event list \<Rightarrow> int list" where
  "appended [] = []"
| "appended (E_appended n # es) = n # appended es"
| "appended (_ # es) = appended es"

lemma appended_append [simp]: "appended (a @ b) = appended a @ appended b"
  by (induction a rule: appended.induct) auto

fun streaming_event :: "exec_event \<Rightarrow> bool" where
  "streaming_event (E_appended _) = True"
| "streaming_event (E_checkpoint ck) = (ck_phase ck = Ph_streaming)"
| "streaming_event _ = False"

lemma stream_loop_emits:
  "emits (\<lambda>r new. list_all streaming_event new \<and> (case r of Inl _ \<Rightarrow> True
     | Inr (st, early) \<Rightarrow> so_lastSequence st = last (so_lastSequence a # appended new)))
   (stream_loop p limit rq su items a)"
proof (induction items arbitrary: a)
  case Nil
  show ?case by (simp, intro emits_intro) auto
next
  case (Cons i items)
  obtain aborted ev where i: "i = (aborted, ev)" by fastforce
  have last: "so_lastSequence (take_event limit rq ev a) = hv_sequence ev" for a
    by (simp add: take_event_def)
  show ?case
    unfolding i stream_loop.simps Let_def make_checkpoint_def recordCheckpoint_def
    by (intro emits_intro emits_mono [OF Cons.IH])
      (auto simp: last toTranscriptChunk_def split: sum.splits)
qed

lemma stream_emits:
  "emits (\<lambda>r new. list_all streaming_event new \<and> (case r of Inl e \<Rightarrow> e = Coordinator Harness_unavailable
     | Inr st \<Rightarrow> so_lastSequence st = last (start_sequence resume # appended new))) (streamAttempt p limit rq resume su)"
  unfolding streamAttempt_def
  by (intro emits_intro sum_splitI emits_mono [OF stream_loop_emits]) (auto simp: stream_start_def)

section \<open>Completion\<close>

fun holds_event :: "exec_event \<Rightarrow> bool" where
  "holds_event (E_claimed _) = True"
| "holds_event (E_started _) = True"
| "holds_event (E_created _) = True"
| "holds_event (E_prompted _) = True"
| "holds_event _ = False"

fun outcome_event :: "exec_event \<Rightarrow> bool" where
  "outcome_event (E_outcome _) = True"
| "outcome_event _ = False"

text \<open>Every recorded outcome comes after a final checkpoint at the given sequence.\<close>

fun after_final :: "int \<Rightarrow> bool \<Rightarrow> exec_event list \<Rightarrow> bool" where
  "after_final n seen [] = True"
| "after_final n seen (E_checkpoint ck # es) =
     after_final n (seen \<or> ck_phase ck = Ph_finalizing \<and> ck_sequence ck = n) es"
| "after_final n seen (E_outcome c # es) = (seen \<and> after_final n seen es)"
| "after_final n seen (_ # es) = after_final n seen es"

lemma record_emits:
  "emits (\<lambda>r new. case r of Inl _ \<Rightarrow> new = []
     | Inr _ \<Rightarrow> (successKind = None \<and> new = []) \<or>
         (successKind \<noteq> None \<and> (\<exists>c. new = [E_outcome c] \<and> oq_nodeId c = xr_nodeId rq))) (recordOutcome p rq out successKind)"
  unfolding recordOutcome_def toRecordedOutcome_def Let_def
  by (intro emits_intro) (auto intro!: emits_intro split: success_kind.splits list.splits)

lemma resolve_emits:
  "emits (\<lambda>r new. (new = [] \<or> (\<exists>h. new = [E_committed h])) \<and> (case r of Inl _ \<Rightarrow> True
     | Inr ru \<Rightarrow> ru_successKind ru \<noteq> None \<longrightarrow> (\<exists>t. so_result st = Some (Outcome_succeeded, t)))) (resolveOutcome p rq st)"
  unfolding resolveOutcome_def resolveSucceededOutcome_def Let_def
  by (cases "so_result st") (auto intro!: emits_intro split: node_outcome_kind.splits)

definition completed :: "bool \<Rightarrow> exec_setup \<Rightarrow> stream_outcome \<Rightarrow> exec_error + exec_result \<Rightarrow> exec_event list \<Rightarrow> bool" where
  "completed defer su st r new \<longleftrightarrow> \<not> list_ex holds_event new \<and> appended new = [] \<and>
     after_final (so_lastSequence st) False new \<and> length (filter outcome_event new) \<le> 1 \<and>
     (list_ex outcome_event new \<longrightarrow> \<not> defer \<and> (\<exists>t. so_result st = Some (Outcome_succeeded, t))) \<and>
     (case r of Inl _ \<Rightarrow> True
      | Inr res \<Rightarrow> E_released (sl_id (su_lease su)) \<in> set new \<and> E_disposed (si_sessionId (su_session su)) \<in> set new \<and>
          E_destroyed (sh_instanceId (su_sandbox su)) \<in> set new \<and>
          (list_ex outcome_event new \<longleftrightarrow> \<not> defer \<and> er_successKind res \<noteq> None))"

lemma complete_emits: "emits (completed defer su st) (completeAttempt p rq defer su st)"
  unfolding completed_def completeAttempt_def make_checkpoint_def recordCheckpoint_def releaseLease_def dispose_def
    destroySandbox_def transcriptSummary_def
  by (intro emits_intro sum_splitI emits_mono [OF resolve_emits] emits_mono [OF record_emits]) auto

definition gave_up :: "exec_setup \<Rightarrow> exec_event list \<Rightarrow> bool" where
  "gave_up su new \<longleftrightarrow> \<not> list_ex holds_event new \<and> list_all (\<lambda>e. \<not> outcome_event e) new \<and>
     E_released (sl_id (su_lease su)) \<in> set new \<and> E_disposed (si_sessionId (su_session su)) \<in> set new"

lemma fail_emits: "emits (\<lambda>r new. r = Inr () \<and> gave_up su new) (failClosed p rq (Some su) phase)"
  unfolding gave_up_def failClosed_def recordFailureCheckpoint_def make_checkpoint_def recordCheckpoint_def
    releaseLease_def dispose_def destroySandbox_def option.case
  by (intro emits_intro sum_splitI) auto

section \<open>A whole run\<close>

text \<open>A run is its setup, then streamed events, then a completion, and the closing when a part of it failed.\<close>

lemma run_rule:
  assumes early: "\<And>e new. settled new \<Longrightarrow> no_result new \<Longrightarrow> q (Inl e) new"
    and broken: "\<And>e su mid tail. entered p rq resume su (setup_events resume su) \<Longrightarrow> list_all streaming_event mid \<Longrightarrow>
        gave_up su tail \<Longrightarrow> q (Inl e) (setup_events resume su @ mid @ tail)"
    and late: "\<And>e e' su st mid c tail. entered p rq resume su (setup_events resume su) \<Longrightarrow> list_all streaming_event mid \<Longrightarrow>
        so_lastSequence st = last (start_sequence resume # appended mid) \<Longrightarrow> completed defer su st (Inl e') c \<Longrightarrow>
        gave_up su tail \<Longrightarrow> q (Inl e) (setup_events resume su @ mid @ c @ tail)"
    and fine: "\<And>res su st mid c. entered p rq resume su (setup_events resume su) \<Longrightarrow> list_all streaming_event mid \<Longrightarrow>
        so_lastSequence st = last (start_sequence resume # appended mid) \<Longrightarrow> completed defer su st (Inr res) c \<Longrightarrow>
        q (Inr res) (setup_events resume su @ mid @ c)"
  shows "emits q (runAttempt p limit rq resume defer)"
proof -
  have fail: "emits q' (bindS (failClosed p rq (Some su) phase) (\<lambda>_. throwS e))"
    if "\<And>tail. gave_up su tail \<Longrightarrow> q' (Inl e) tail" for q' :: "exec_error + 'x \<Rightarrow> exec_event list \<Rightarrow> bool" and su phase e
    by (intro emits_intro emits_mono [OF fail_emits]) (use that in \<open>auto intro!: emits_intro\<close>)
  have none: "emits q' (bindS (failClosed p rq None phase) (\<lambda>_. throwS e))"
    if "q' (Inl e) []" for q' :: "exec_error + 'x \<Rightarrow> exec_event list \<Rightarrow> bool" and phase e
    using that by (auto simp: failClosed_def intro!: emits_intro)
  show ?thesis
    unfolding runAttempt_def
    by (intro emits_intro sum_splitI fail none emits_mono [OF setup_emits] emits_mono [OF stream_emits]
        emits_mono [OF complete_emits])
      (auto simp: entered_def intro: early broken late fine)
qed



lemma streaming_plain:
  "list_all streaming_event new \<Longrightarrow> \<not> list_ex holds_event new \<and> list_all (\<lambda>e. \<not> outcome_event e) new"
  by (induction new rule: appended.induct) auto

lemma setup_plain: "filter outcome_event (setup_events resume su) = []" "appended (setup_events resume su) = []"
  by (simp_all add: setup_events_def introduced_def)

lemma after_final_event:
  "after_final n seen es \<Longrightarrow> E_outcome c \<in> set es \<Longrightarrow> \<not> seen \<Longrightarrow>
     \<exists>a b fin. es = a @ E_outcome c # b \<and> E_checkpoint fin \<in> set a \<and> ck_phase fin = Ph_finalizing \<and> ck_sequence fin = n"
proof (induction n seen es rule: after_final.induct)
  case (2 n seen ck es)
  show ?case
  proof (cases "ck_phase ck = Ph_finalizing \<and> ck_sequence ck = n")
    case True
    obtain a b where "es = a @ E_outcome c # b" using 2 by (auto dest: split_list)
    then show ?thesis using True by (intro exI [of _ "E_checkpoint ck # a"] exI [of _ b] exI [of _ ck]) simp
  next
    case False
    then obtain a b fin where "es = a @ E_outcome c # b \<and> E_checkpoint fin \<in> set a \<and> ck_phase fin = Ph_finalizing \<and>
        ck_sequence fin = n" using 2 by fastforce
    then show ?thesis by (intro exI [of _ "E_checkpoint ck # a"] exI [of _ b] exI [of _ fin]) simp
  qed
qed (auto, (metis Cons_eq_append_conv append_Cons list.set_intros(2))+)



definition outcome_guarded :: "attempt_checkpoint option \<Rightarrow> bool \<Rightarrow> exec_error + exec_result \<Rightarrow> exec_event list \<Rightarrow> bool" where
  "outcome_guarded resume defer r new \<longleftrightarrow> length (filter outcome_event new) \<le> 1 \<and>
     (\<forall>c. E_outcome c \<in> set new \<longrightarrow> \<not> defer \<and> (\<exists>a b fin. new = a @ E_outcome c # b \<and> E_checkpoint fin \<in> set a \<and>
        ck_phase fin = Ph_finalizing \<and> ck_sequence fin = last (start_sequence resume # appended a))) \<and>
     (\<forall>res. r = Inr res \<longrightarrow> (list_ex outcome_event new \<longleftrightarrow> \<not> defer \<and> er_successKind res \<noteq> None))"

lemma guarded_none:
  "list_all (\<lambda>e. \<not> outcome_event e) new \<Longrightarrow> outcome_guarded resume defer (Inl e) new"
  by (fastforce simp: outcome_guarded_def list_all_iff filter_empty_conv)

lemma guarded_completed:
  assumes mid: "list_all streaming_event mid" and n: "so_lastSequence st = last (start_sequence resume # appended mid)"
    and c: "completed defer su st r' c" and tail: "list_all (\<lambda>e. \<not> outcome_event e) tail"
    and r: "(\<exists>e. r = Inl e) \<or> (r = r' \<and> tail = [])"
  shows "outcome_guarded resume defer r (setup_events resume su @ mid @ c @ tail)"
proof -
  have plain: "filter outcome_event mid = []" "filter outcome_event tail = []"
    using streaming_plain [OF mid] tail by (auto simp: filter_empty_conv list_all_iff)
  have split: "\<exists>a b fin. setup_events resume su @ mid @ c @ tail = a @ E_outcome x # b \<and> E_checkpoint fin \<in> set a \<and>
      ck_phase fin = Ph_finalizing \<and> ck_sequence fin = last (start_sequence resume # appended a)"
    if x: "E_outcome x \<in> set (setup_events resume su @ mid @ c @ tail)" for x
  proof -
    have "E_outcome x \<in> set (filter outcome_event (setup_events resume su @ mid @ c @ tail))" using x by auto
    then have "E_outcome x \<in> set c" by (auto simp: plain setup_plain simp del: set_filter) (auto)
    then obtain a b fin where a: "c = a @ E_outcome x # b" "E_checkpoint fin \<in> set a" "ck_phase fin = Ph_finalizing"
      "ck_sequence fin = so_lastSequence st" using after_final_event c unfolding completed_def by blast
    have "appended a = []" using c a(1) by (simp add: completed_def)
    then show ?thesis using a n
      by (intro exI [of _ "setup_events resume su @ mid @ a"] exI [of _ "b @ tail"] exI [of _ fin]) (simp add: setup_plain)
  qed
  have ex: "list_ex outcome_event (setup_events resume su @ mid @ c @ tail) \<longleftrightarrow> list_ex outcome_event c"
    using plain setup_plain(1) [of resume su] by (auto simp: list_ex_iff filter_empty_conv)
  have recorded: "\<not> defer" if "E_outcome x \<in> set (setup_events resume su @ mid @ c @ tail)" for x
    using that ex c unfolding completed_def list_ex_iff by (metis outcome_event.simps(1))
  show ?thesis
    using split recorded ex c r plain setup_plain(1) [of resume su] unfolding outcome_guarded_def completed_def
    by (auto split: sum.splits)
qed

lemma run_guarded: "emits (outcome_guarded resume defer) (runAttempt p limit rq resume defer)"
proof (rule run_rule, goal_cases)
  case (1 e new)
  have "\<not> outcome_event x" if "x \<in> set new" for x using 1(2) that by (cases x) (auto simp: no_result_def)
  then show ?case by (intro guarded_none) (simp add: list_all_iff)
next
  case (2 e su mid tail)
  then show ?case using streaming_plain [of mid] setup_plain(1) [of resume su]
    by (intro guarded_none) (auto simp: gave_up_def list_all_iff filter_empty_conv)
next
  case (3 e e' su st mid c tail)
  then show ?case by (intro guarded_completed) (auto simp: gave_up_def)
next
  case (4 res su st mid c)
  then show ?case using guarded_completed [of mid st resume "defer" su "Inr res" c "[]" "Inr res"] by simp
qed


section \<open>Properties\<close>


text \<open>C6: An outcome is recorded at most once per run, never when recording is deferred, and only after the final
  checkpoint was durably recorded at the sequence of the last transcript chunk appended before it. A run that
  answers has recorded its outcome exactly when it was successful and recording was not deferred.\<close>

theorem outcome_after_final_checkpoint:
  assumes "runAttempt p limit rq resume defer s = (r, s')"
  shows "\<exists>new. xs_log s' = xs_log s @ new \<and> length (filter outcome_event new) \<le> 1 \<and>
    (\<forall>c. E_outcome c \<in> set new \<longrightarrow> \<not> defer \<and> (\<exists>a b fin. new = a @ E_outcome c # b \<and> E_checkpoint fin \<in> set a \<and>
       ck_phase fin = Ph_finalizing \<and> ck_sequence fin = last (start_sequence resume # appended a))) \<and>
    (\<forall>res. r = Inr res \<longrightarrow> (list_ex outcome_event new \<longleftrightarrow> \<not> defer \<and> er_successKind res \<noteq> None))"
  using emitsD [OF run_guarded assms] unfolding outcome_guarded_def .

section \<open>Runs\<close>

definition execId :: string where
  "execId = ''018f0000-0000-7000-8000-000000000001''"

definition execLease :: lease_row where
  "execLease = \<lparr>sl_id = execId, sl_attempt = execId, sl_node = execId, sl_tree = execId, sl_repository = execId,
     sl_host = execId, sl_owner = ''daemon'', sl_token = 1, sl_state = Lk_active, sl_acquired = 0, sl_heartbeat = 0,
     sl_expires = 10, sl_released = None\<rparr>"

definition execRequest :: execution_request where
  "execRequest = \<lparr>xr_attemptId = execId, xr_attemptOrdinal = 1, xr_nodeId = execId, xr_treeId = execId,
     xr_repositoryId = execId, xr_hostId = execId, xr_ownerId = ''daemon'', xr_leaseDurationMs = JsNum 10,
     xr_maxActiveGlobal = JsNum 1, xr_maxActivePerTree = JsNum 1, xr_durableHarnessId = ''h'', xr_goal = ''g'',
     xr_plan = \<lparr>plc_planGoal = ''p'', plc_parentGoal = None, plc_siblingSummaries = []\<rparr>,
     xr_workspace = \<lparr>wc_repositoryId = execId, wc_hostId = execId, wc_workspacePath = ''/w'', wc_baseCommit = ''b'',
       wc_headCommit = ''h''\<rparr>,
     xr_toolPolicy = \<lparr>tp_allowedExecutables = [], tp_allowedGitSubcommands = [], tp_blockedGitSubcommands = []\<rparr>,
     xr_fingerprintDigest = ''f'', xr_policyVersion = 1, xr_model = ''m'', xr_reasoningLevel = ''r'',
     xr_actorSessionId = execId, xr_expectedNodeVersion = None\<rparr>"

definition execHandshake :: handshake where
  "execHandshake = \<lparr>hs_harnessKind = ''k'', hs_harnessVersion = ''1'', hs_providerKind = ''p'', hs_model = ''m'',
     hs_reasoningLevel = ''r'', hs_capabilities = [Cap_interrupt, Cap_abort, Cap_snapshot], hs_tools = [''bash''],
     hs_securityPolicyDigest = ''d''\<rparr>"

text \<open>
  A world that grants everything: the harness answers with one successful result of a given text, the working copy
  has the given difference, and the transcript can be read back or not.
\<close>

definition execPorts :: "string \<Rightarrow> string \<Rightarrow> bool \<Rightarrow> nat exec_ports" where
  "execPorts result diff readable = \<lparr>xp_claim = (\<lambda>q w. (Some (Some execLease), w)), xp_release = (\<lambda>l t w. w),
     xp_probe = (\<lambda>w. (Some True, w)),
     xp_create = (\<lambda>q w. (Some \<lparr>sh_instanceId = ''i'', sh_backendKind = Sb_test, sh_policyVersion = 1,
       sh_policyDigest = ''f'', sh_state = ''running''\<rparr>, w)),
     xp_destroy = (\<lambda>b w. w), xp_workingCopy = (\<lambda>q w. (Some (), w)), xp_handshake = (\<lambda>w. (Some execHandshake, w)),
     xp_start = (\<lambda>q w. (Some \<lparr>si_durableHarnessId = ''h'', si_sessionId = ''s''\<rparr>, w)),
     xp_resume = (\<lambda>q i n w. (Some i, w)), xp_prompt = (\<lambda>i j t w. (Some (), w)), xp_dispose = (\<lambda>i w. w),
     xp_events = (\<lambda>i n w. (\<lparr>es_items = [(False, \<lparr>hv_sequence = 7, hv_occurredAt = 1,
       hv_payload = Result_event Outcome_succeeded result\<rparr>)], es_ended = True, es_closes = True, es_aborted = False\<rparr>, w)),
     xp_append = (\<lambda>c w. (Some (), w)), xp_latest = (\<lambda>i w. (Some 7, w)),
     xp_readAll = (\<lambda>i w. (if readable then Some [] else None, w)), xp_checkpoint = (\<lambda>c w. (Some (), w)),
     xp_diff = (\<lambda>i w. (Some diff, w)), xp_commit = (\<lambda>i w. (Some ''c'', w)), xp_head = (\<lambda>i w. (Some ''c'', w)),
     xp_record = (\<lambda>c w. (Some (), w)), xp_now = (\<lambda>w. (0, w)), xp_nextId = (\<lambda>w. (execId, w)), xp_digest = (\<lambda>t. ''d'')\<rparr>"

definition execRun :: "string \<Rightarrow> string \<Rightarrow> bool \<Rightarrow> (exec_error + exec_result) \<times> nat exec_state" where
  "execRun result diff readable =
     runAttempt (execPorts result diff readable) 65536 execRequest None False \<lparr>xs_world = 0, xs_log = []\<rparr>"

definition is_error :: "'e + 'a \<Rightarrow> bool" where
  "is_error r = (case r of Inl _ \<Rightarrow> True | Inr _ \<Rightarrow> False)"

lemma execId_ok: "parseUuidV7 execId = Inr execId"
  by code_simp

lemmas exec_evaluation = execRun_def execPorts_def runAttempt_def setupAttempt_def claimForNode_def undone_def
  createSandbox_def prepareWorkspace_def startHarness_def getHandshake_def assertHarnessPolicy_def introduce_def
  sendContextPack_def make_checkpoint_def recordCheckpoint_def streamAttempt_def completeAttempt_def resolveOutcome_def
  resolveSucceededOutcome_def recordOutcome_def toRecordedOutcome_def transcriptSummary_def releaseLease_def
  destroySandbox_def dispose_def failClosed_def recordFailureCheckpoint_def bindS_def catchX_def finallyX_def callX_def
  drawX_def tryX_def liftD_def returnS_def throwS_def execRequest_def execLease_def execHandshake_def execId_ok
  evidenceId_def commandId_def nonEmptyText_def take_event_def stream_start_def start_sequence_def outcome_def
  collectArtifactRefs_def List.map_filter_def toTranscriptChunk_def capture_payload_def is_error_def
  computeContextPackDigest_def isSpawnTool_def SPAWN_TOOL_PREFIXES_def js_lower_def lower_char_def starts_with_def
  missingHarnessCapabilities_def REQUIRED_HARNESS_CAPABILITIES_def js_trim_def js_white_def Let_def

lemma exec_commits:
  "\<not> is_error (fst (execRun ''ok'' ''d'' True))"
  "list_ex outcome_event (xs_log (snd (execRun ''ok'' ''d'' True)))"
  by (simp_all add: exec_evaluation)



theorem outcome_after_final_checkpoint_witness:
  "\<exists>fin. E_checkpoint fin \<in> set (xs_log (snd (execRun ''ok'' ''d'' True))) \<and> ck_phase fin = Ph_finalizing"
proof -
  obtain r s' where run: "execRun ''ok'' ''d'' True = (r, s')" by fastforce
  obtain c where "E_outcome c \<in> set (xs_log s')"
    using exec_commits(2) run by (auto simp: list_ex_iff elim: outcome_event.elims)
  with outcome_after_final_checkpoint [OF run [unfolded execRun_def]] run show ?thesis by force
qed

text \<open>
  A successful result with an empty text, no difference and no artifact: the default texts of
  \<open>#resolveSucceededOutcome\<close> only replace a missing result, so the empty text is refused as an explanation after the
  final checkpoint, and the attempt fails.
\<close>

lemma empty_result_text_fails_no_change: "is_error (fst (execRun [] [] True))"
  "\<not> is_error (fst (execRun ''ok'' [] True))"
  by (simp_all add: exec_evaluation)

text \<open>
  When reading the transcript back fails, the outcome has been recorded and the sandbox destroyed, and yet the run
  is rejected, with a streaming checkpoint that names the destroyed sandbox as its last one.
\<close>

lemma summary_failure_rejects_recorded:
  "is_error (fst (execRun ''ok'' ''d'' False))"
  "list_ex outcome_event (xs_log (snd (execRun ''ok'' ''d'' False)))"
  "E_destroyed ''i'' \<in> set (xs_log (snd (execRun ''ok'' ''d'' False)))"
  by (simp_all add: exec_evaluation)


section \<open>With the SQLite scheduler\<close>

text \<open>The scheduler port of \<open>Scheduler_Store\<close>: the world has its tables and the number of ids drawn so far.\<close>

definition sqlite_claim :: "(nat \<Rightarrow> string) \<Rightarrow> claim_request \<Rightarrow> sched_db \<times> nat \<Rightarrow> lease_row option option \<times> sched_db \<times> nat" where
  "sqlite_claim ids q w = (case claimNext (ids (snd w)) (ids (Suc (snd w))) q (fst w) of
      (Inl e, db) \<Rightarrow> (None, db, snd w + 2)
    | (Inr l, db) \<Rightarrow> (Some l, db, snd w + 2))"

lemma claim_for_node_matches:
  "claimForNode p rq s = (Inr l, s') \<Longrightarrow> sl_attempt l = xr_attemptId rq \<and> (\<exists>q w w'. xp_claim p q w = (Some (Some l), w'))"
  by (auto simp: claimForNode_def res_simps callX_def split: option.splits if_splits prod.splits)

text \<open>
  The store draws the id of the attempt it creates, so the lease of a claim carries the id of a request only when
  the generator happens to draw it: a coordinator over this store never runs a node.
\<close>

lemma sqlite_claim_never_matches:
  assumes "xp_claim p = sqlite_claim ids" and "xr_attemptId rq \<notin> range ids"
    and "runAttempt p limit rq resume defer s = (r, s')"
  shows "\<exists>e. r = Inl e"
proof (rule ccontr)
  assume "\<not> ?thesis"
  then obtain res where "runAttempt p limit rq resume defer s = (Inr res, s')" using assms(3) by (cases r) auto
  then obtain l s1 where c: "claimForNode p rq s = (Inr l, s1)"
    by (auto simp: runAttempt_def setupAttempt_def bindS_def catchX_def failClosed_def returnS_def throwS_def
        split: prod.splits sum.splits)
  then obtain q w w' where "sqlite_claim ids q w = (Some (Some l), w')" "sl_attempt l = xr_attemptId rq"
    using claim_for_node_matches [OF c] assms(1) by auto
  then have "ids (snd w) = xr_attemptId rq"
    using claim_draws_attempt by (fastforce simp: sqlite_claim_def split: prod.splits sum.splits)
  then show False using assms(2) by (metis rangeI)
qed

end
