(* ===== verification/Elevation.thy ===== *)
theory Elevation
  imports Value_Objects "HOL-Library.Product_Lexorder" "HOL-Library.List_Lexorder"
begin

text \<open>
  Elevated recovery: \<^verbatim>\<open>packages/core/src/recovery-action.ts\<close>, the SQLite store of grants and actions
  (\<^verbatim>\<open>packages/adapters/src/sqlite/recovery-store.ts\<close> with the checks and triggers of its migration) and the
  handlers of \<^verbatim>\<open>apps/daemon/src/recovery-service.ts\<close>. The tables are lists of the values their rows hold.
  A handler that executes an action is a chain of stages, one per \<open>await\<close>, so requests that overlap are
  interleavings of stages; what the restart adapter answers, the clock and the fresh ids are inputs of a stage.
\<close>

section \<open>Actions and grants\<close>

datatype recovery_kind =
    Rk_signal | Rk_restart | Rk_quarantine | Rk_reconcile | Rk_debug_attach | Rk_source_patch_branch
  | Rk_shadow_verify | Rk_candidate_activate | Rk_force_rollback

record recovery_action =
  rc_kind :: recovery_kind
  rc_target :: string
  rc_expectedState :: string
  rc_actorSessionId :: string
  rc_expiresAt :: int

record gate_profile =
  gp_allowedKinds :: "recovery_kind list"
  gp_requiredApprovals :: int
  gp_maxGrantDurationMs :: int

datatype grant_state = Gs_pending | Gs_approved | Gs_denied | Gs_expired | Gs_consumed

record elevation_grant =
  eg_id :: string
  eg_requestedBySessionId :: string
  eg_authorizedKinds :: "recovery_kind list"
  eg_justification :: string
  eg_state :: grant_state
  eg_approvalsReceived :: int
  eg_createdAt :: int
  eg_expiresAt :: int

datatype action_state = As_pending | As_executed | As_failed | As_rejected | As_expired

record recorded_action = recovery_action +
  rd_id :: string
  rd_grantId :: string
  rd_state :: action_state
  rd_createdAt :: int
  rd_executedAt :: "int option"
  rd_failure :: "string option"

text \<open>Why a request is refused; \<open>None\<close> is the valid verdict. A kind is always a recognized one here.\<close>

datatype rejection =
    Empty_target | Empty_expected_state | Bad_actor | Not_in_future | Grant_not_approved | Grant_expired
  | Wrong_actor | Kind_not_authorized | No_kinds | Empty_justification | Kind_not_allowed

definition recoveryUuidPattern :: "string \<Rightarrow> bool" where
  "recoveryUuidPattern s \<longleftrightarrow> fits (uuid_shape (\<lambda>c. c \<in> set ''12345678'')) s"

definition validateRecoveryAction :: "'a recovery_action_scheme \<Rightarrow> int \<Rightarrow> rejection option" where
  "validateRecoveryAction a now =
     (if length (rc_target a) = 0 then Some Empty_target
      else if length (rc_expectedState a) = 0 then Some Empty_expected_state
      else if \<not> recoveryUuidPattern (rc_actorSessionId a) then Some Bad_actor
      else if \<not> safe_int (rc_expiresAt a) \<or> rc_expiresAt a \<le> now then Some Not_in_future
      else None)"

definition validateElevationRequest :: "recovery_kind list \<Rightarrow> string \<Rightarrow> gate_profile \<Rightarrow> rejection option" where
  "validateElevationRequest kinds justification profile =
     (if length kinds = 0 then Some No_kinds
      else if length justification = 0 then Some Empty_justification
      else if \<not> list_all (\<lambda>k. k \<in> set (gp_allowedKinds profile)) kinds then Some Kind_not_allowed
      else None)"

definition resolveGrantApproval :: "gate_profile \<Rightarrow> grant_state \<times> int" where
  "resolveGrantApproval profile = (let approvalsReceived = 1 in
     (if approvalsReceived \<ge> gp_requiredApprovals profile then Gs_approved else Gs_pending, approvalsReceived))"

definition validateActionAgainstGrant :: "'a recovery_action_scheme \<Rightarrow> elevation_grant \<Rightarrow> int \<Rightarrow> rejection option" where
  "validateActionAgainstGrant a g now = (case validateRecoveryAction a now of
      Some r \<Rightarrow> Some r
    | None \<Rightarrow>
        if eg_state g \<noteq> Gs_approved then Some Grant_not_approved
        else if eg_expiresAt g \<le> now then Some Grant_expired
        else if rc_actorSessionId a \<noteq> eg_requestedBySessionId g then Some Wrong_actor
        else if rc_kind a \<notin> set (eg_authorizedKinds g) then Some Kind_not_authorized
        else None)"

datatype audit_outcome = Audit_succeeded | Audit_failed | Audit_rolled_back

record audit_entry =
  au_actionKind :: recovery_kind
  au_target :: string
  au_actorSessionId :: string
  au_outcome :: audit_outcome
  au_detail :: string
  au_recordedAt :: int

definition createAuditEntry :: "'a recovery_action_scheme \<Rightarrow> audit_outcome \<Rightarrow> string \<Rightarrow> int \<Rightarrow> audit_entry" where
  "createAuditEntry a out detail now = \<lparr>au_actionKind = rc_kind a, au_target = rc_target a,
     au_actorSessionId = rc_actorSessionId a, au_outcome = out, au_detail = detail, au_recordedAt = now\<rparr>"

section \<open>The store\<close>

datatype recovery_store_error = Rv_invalid_input | Rv_write_failed | Rv_not_found | Rv_corrupt

record recovery_db =
  rb_grants :: "elevation_grant list"
  rb_actions :: "recorded_action list"

definition validateGrantForWrite :: "elevation_grant \<Rightarrow> bool" where
  "validateGrantForWrite g \<longleftrightarrow> length (eg_id g) \<noteq> 0 \<and> length (eg_requestedBySessionId g) \<noteq> 0 \<and>
     length (eg_authorizedKinds g) \<noteq> 0 \<and> length (eg_justification g) \<noteq> 0 \<and>
     safe_int (eg_approvalsReceived g) \<and> 0 \<le> eg_approvalsReceived g \<and> safe_int (eg_createdAt g) \<and> safe_int (eg_expiresAt g)"

definition grant_check :: "elevation_grant \<Rightarrow> bool" where
  "grant_check g \<longleftrightarrow> length (eg_id g) = 36 \<and> length (eg_requestedBySessionId g) = 36 \<and>
     length (eg_justification g) > 0 \<and> 0 \<le> eg_approvalsReceived g \<and> 0 \<le> eg_createdAt g \<and> eg_createdAt g < eg_expiresAt g"

definition createGrant :: "elevation_grant \<Rightarrow> recovery_db \<Rightarrow> recovery_store_error + recovery_db" where
  "createGrant g db =
     (if \<not> validateGrantForWrite g then Inl Rv_invalid_input
      else if grant_check g \<and> eg_id g \<notin> set (map eg_id (rb_grants db))
      then Inr (db\<lparr>rb_grants := rb_grants db @ [g]\<rparr>) else Inl Rv_write_failed)"

definition getGrant :: "string \<Rightarrow> recovery_db \<Rightarrow> recovery_store_error + elevation_grant option" where
  "getGrant i db = (if length i = 0 then Inl Rv_invalid_input
     else Inr (find_first (\<lambda>g. eg_id g = i) (rb_grants db)))"

definition validateActionForWrite :: "recorded_action \<Rightarrow> bool" where
  "validateActionForWrite a \<longleftrightarrow> length (rd_id a) \<noteq> 0 \<and> length (rd_grantId a) \<noteq> 0 \<and> length (rc_target a) \<noteq> 0 \<and>
     length (rc_expectedState a) \<noteq> 0 \<and> length (rc_actorSessionId a) \<noteq> 0 \<and> safe_int (rd_createdAt a) \<and> safe_int (rc_expiresAt a)"

definition action_check :: "recorded_action \<Rightarrow> bool" where
  "action_check a \<longleftrightarrow> length (rd_id a) = 36 \<and> length (rd_grantId a) = 36 \<and> length (rc_target a) > 0 \<and>
     length (rc_expectedState a) > 0 \<and> length (rc_actorSessionId a) = 36 \<and> 0 \<le> rc_expiresAt a \<and> 0 \<le> rd_createdAt a \<and>
     (case rd_executedAt a of None \<Rightarrow> True | Some t \<Rightarrow> rd_createdAt a \<le> t) \<and> rd_failure a \<noteq> Some [] \<and>
     (case rd_state a of
        As_pending \<Rightarrow> rd_executedAt a = None \<and> rd_failure a = None
      | As_executed \<Rightarrow> rd_executedAt a \<noteq> None \<and> rd_failure a = None
      | _ \<Rightarrow> rd_executedAt a = None \<and> rd_failure a \<noteq> None)"

definition createAction :: "recorded_action \<Rightarrow> recovery_db \<Rightarrow> recovery_store_error + recovery_db" where
  "createAction a db =
     (if \<not> validateActionForWrite a then Inl Rv_invalid_input
      else if action_check a \<and> rd_state a = As_pending \<and> rd_id a \<notin> set (map rd_id (rb_actions db)) \<and>
        rd_grantId a \<in> set (map eg_id (rb_grants db))
      then Inr (db\<lparr>rb_actions := rb_actions db @ [a]\<rparr>) else Inl Rv_write_failed)"

text \<open>The triggers: only a pending action changes, and only to another state.\<close>

definition action_transition_legal :: "action_state \<Rightarrow> action_state \<Rightarrow> bool" where
  "action_transition_legal old new \<longleftrightarrow> old = As_pending \<and> new \<noteq> As_pending"

definition recordActionOutcome ::
    "string \<Rightarrow> action_state \<Rightarrow> int option \<Rightarrow> string option \<Rightarrow> recovery_db \<Rightarrow> recovery_store_error + recovery_db" where
  "recordActionOutcome i st executedAt failure db =
     (let f = (\<lambda>a. a\<lparr>rd_state := st, rd_executedAt := executedAt, rd_failure := failure\<rparr>);
          rows = filter (\<lambda>a. rd_id a = i) (rb_actions db) in
      if length i = 0 then Inl Rv_invalid_input
      else if \<not> list_all (\<lambda>a. action_transition_legal (rd_state a) st \<and> action_check (f a)) rows then Inl Rv_write_failed
      else if rows = [] then Inl Rv_not_found
      else Inr (db\<lparr>rb_actions := map (\<lambda>a. if rd_id a = i then f a else a) (rb_actions db)\<rparr>))"

definition grant_transition_legal :: "grant_state \<Rightarrow> grant_state \<Rightarrow> bool" where
  "grant_transition_legal old new \<longleftrightarrow>
     old = Gs_pending \<and> new \<in> {Gs_approved, Gs_denied, Gs_expired} \<or>
     old = Gs_approved \<and> new \<in> {Gs_consumed, Gs_expired}"

definition markGrantConsumed :: "string \<Rightarrow> recovery_db \<Rightarrow> recovery_store_error + recovery_db" where
  "markGrantConsumed i db =
     (let rows = filter (\<lambda>g. eg_id g = i) (rb_grants db) in
      if length i = 0 then Inl Rv_invalid_input
      else if \<not> list_all (\<lambda>g. grant_transition_legal (eg_state g) Gs_consumed) rows then Inl Rv_write_failed
      else if rows = [] then Inl Rv_not_found
      else Inr (db\<lparr>rb_grants := map (\<lambda>g. if eg_id g = i then g\<lparr>eg_state := Gs_consumed\<rparr> else g) (rb_grants db)\<rparr>))"

text \<open>Newest first; \<open>before\<close> is the id of the last action of the page before.\<close>

definition action_key :: "recorded_action \<Rightarrow> int \<times> string" where
  "action_key a = (rd_createdAt a, rd_id a)"

definition newest_first :: "recorded_action list \<Rightarrow> recorded_action list" where
  "newest_first rows = rev (sort_key action_key rows)"

definition listActions ::
    "string option \<Rightarrow> number \<Rightarrow> string option \<Rightarrow> recovery_db \<Rightarrow> recovery_store_error + recorded_action list" where
  "listActions target limit before db =
     (if \<not> isSafeInteger limit \<or> int_of_number limit \<le> 0 then Inl Rv_invalid_input else
      (let cursor = (case before of None \<Rightarrow> None | Some b \<Rightarrow> Some (find_first (\<lambda>a. rd_id a = b) (rb_actions db)));
           rows = filter (\<lambda>a. target = None \<or> target = Some (rc_target a)) (rb_actions db) in
       case cursor of
         Some None \<Rightarrow> Inr []
       | Some (Some c) \<Rightarrow> Inr (take (nat (int_of_number limit)) (newest_first (filter (\<lambda>a. action_key a < action_key c) rows)))
       | None \<Rightarrow> Inr (take (nat (int_of_number limit)) (newest_first rows))))"

section \<open>The service\<close>

datatype proto_kind = Proto_kind recovery_kind | Proto_unspecified

datatype service_error =
    Invalid_argument | Service_not_found | Failed_precondition rejection | Store_failed recovery_store_error

fun coreActionKind :: "proto_kind \<Rightarrow> service_error + recovery_kind" where
  "coreActionKind (Proto_kind k) = Inr k"
| "coreActionKind Proto_unspecified = Inl Invalid_argument"

definition lift_store :: "recovery_store_error + 'a \<Rightarrow> service_error + 'a" where
  "lift_store r = (case r of Inl e \<Rightarrow> Inl (Store_failed e) | Inr x \<Rightarrow> Inr x)"

record service_options =
  op_gateProfile :: gate_profile
  op_primaryTarget :: string

record elevation_request =
  lq_requestedKinds :: "proto_kind list"
  lq_justification :: string
  lq_requestedBySessionId :: string

definition requestElevation ::
    "service_options \<Rightarrow> int \<Rightarrow> string \<Rightarrow> elevation_request \<Rightarrow> recovery_db \<Rightarrow> service_error + elevation_grant \<times> recovery_db" where
  "requestElevation opts now freshId rq db =
     bindE (mapE coreActionKind (lq_requestedKinds rq)) (\<lambda>kinds.
     case validateElevationRequest kinds (lq_justification rq) (op_gateProfile opts) of
       Some r \<Rightarrow> Inl Invalid_argument
     | None \<Rightarrow> (let (st, approvals) = resolveGrantApproval (op_gateProfile opts);
         g = \<lparr>eg_id = freshId, eg_requestedBySessionId = lq_requestedBySessionId rq, eg_authorizedKinds = kinds,
              eg_justification = lq_justification rq, eg_state = st, eg_approvalsReceived = approvals, eg_createdAt = now,
              eg_expiresAt = now + gp_maxGrantDurationMs (op_gateProfile opts)\<rparr> in
         bindE (lift_store (createGrant g db)) (\<lambda>db'. Inr (g, db'))))"

record action_message =
  am_kind :: proto_kind
  am_target :: string
  am_expectedState :: string
  am_expiresAt :: "(int \<times> int) option"

record execute_request =
  xq_action :: "action_message option"
  xq_grantId :: string
  xq_actorSessionId :: string

definition millisecondsFromTimestamp :: "int \<times> int \<Rightarrow> int" where
  "millisecondsFromTimestamp t = fst t * 1000 + snd t div 1000000"

text \<open>
  The stages between the awaits: the grant has been read; the receipt is stored; the adapter has restarted; the
  receipt says executed; or something failed after the receipt was stored.
\<close>

datatype stage =
    Fetched action_message string string "elevation_grant option"
  | Stored recorded_action
  | Restarted recorded_action
  | Executed recorded_action int
  | Failing recorded_action string

datatype answer = Answered recorded_action | Refused service_error

record stage_input =
  sg_now :: int
  sg_freshId :: string
  sg_restart :: "string option"

definition begin_request :: "execute_request \<Rightarrow> recovery_db \<Rightarrow> stage + answer" where
  "begin_request q db = (case xq_action q of
      None \<Rightarrow> Inr (Refused Invalid_argument)
    | Some m \<Rightarrow> if am_expiresAt m = None then Inr (Refused Invalid_argument)
        else (case getGrant (xq_grantId q) db of
            Inl e \<Rightarrow> Inr (Refused (Store_failed e))
          | Inr g \<Rightarrow> Inl (Fetched m (xq_grantId q) (xq_actorSessionId q) g)))"

definition action_of :: "action_message \<Rightarrow> string \<Rightarrow> recovery_kind \<Rightarrow> recovery_action" where
  "action_of m actor k = \<lparr>rc_kind = k, rc_target = am_target m, rc_expectedState = am_expectedState m,
     rc_actorSessionId = actor, rc_expiresAt = millisecondsFromTimestamp (the (am_expiresAt m))\<rparr>"

definition pending_of :: "recovery_action \<Rightarrow> string \<Rightarrow> string \<Rightarrow> int \<Rightarrow> recorded_action" where
  "pending_of a i grant now = recovery_action.extend a
     \<lparr>rd_id = i, rd_grantId = grant, rd_state = As_pending, rd_createdAt = now, rd_executedAt = None, rd_failure = None\<rparr>"

definition fetched_step ::
    "stage_input \<Rightarrow> action_message \<Rightarrow> string \<Rightarrow> elevation_grant option \<Rightarrow> recovery_db \<Rightarrow> (stage + answer) \<times> recovery_db" where
  "fetched_step e m actor grant db = (case grant of
      None \<Rightarrow> (Inr (Refused Service_not_found), db)
    | Some g \<Rightarrow> (case coreActionKind (am_kind m) of
        Inl err \<Rightarrow> (Inr (Refused err), db)
      | Inr k \<Rightarrow> (let a = action_of m actor k in
          case validateActionAgainstGrant a g (sg_now e) of
            Some r \<Rightarrow> (Inr (Refused (Failed_precondition r)), db)
          | None \<Rightarrow> (let pending = pending_of a (sg_freshId e) (eg_id g) (sg_now e) in
              case createAction pending db of
                Inl err \<Rightarrow> (Inr (Refused (Store_failed err)), db)
              | Inr db' \<Rightarrow> (Inl (Stored pending), db')))))"

definition with_outcome :: "recorded_action \<Rightarrow> action_state \<Rightarrow> int option \<Rightarrow> string option \<Rightarrow> recorded_action" where
  "with_outcome a st executedAt failure = a\<lparr>rd_state := st, rd_executedAt := executedAt, rd_failure := failure\<rparr>"

text \<open>Recording an outcome that ends the request.\<close>

definition finish_with :: "recorded_action \<Rightarrow> action_state \<Rightarrow> string \<Rightarrow> recovery_db \<Rightarrow> (stage + answer) \<times> recovery_db" where
  "finish_with a st failure db = (case recordActionOutcome (rd_id a) st None (Some failure) db of
      Inl e \<Rightarrow> (Inr (Refused (Store_failed e)), db)
    | Inr db' \<Rightarrow> (Inr (Answered (with_outcome a st None (Some failure))), db'))"

definition restarts :: "service_options \<Rightarrow> stage \<Rightarrow> recorded_action option" where
  "restarts opts st = (case st of
      Stored a \<Rightarrow> if rc_kind a = Rk_restart \<and> rc_target a = op_primaryTarget opts then Some a else None
    | _ \<Rightarrow> None)"

fun advance :: "service_options \<Rightarrow> stage_input \<Rightarrow> stage \<Rightarrow> recovery_db \<Rightarrow> (stage + answer) \<times> recovery_db" where
  "advance opts e (Fetched m grantId actor grant) db = fetched_step e m actor grant db"
| "advance opts e (Stored a) db =
     (if rc_kind a \<noteq> Rk_restart then finish_with a As_rejected ''no adapter'' db
      else if rc_target a \<noteq> op_primaryTarget opts then finish_with a As_rejected ''target mismatch'' db
      else (case sg_restart e of
          None \<Rightarrow> (Inl (Restarted a), db)
        | Some message \<Rightarrow> (Inl (Failing a message), db)))"
| "advance opts e (Restarted a) db = (case recordActionOutcome (rd_id a) As_executed (Some (sg_now e)) None db of
      Inl err \<Rightarrow> (Inl (Failing a ''outcome''), db)
    | Inr db' \<Rightarrow> (Inl (Executed a (sg_now e)), db'))"
| "advance opts e (Executed a t) db = (case markGrantConsumed (rd_grantId a) db of
      Inl err \<Rightarrow> (Inl (Failing a ''consume''), db)
    | Inr db' \<Rightarrow> (Inr (Answered (with_outcome a As_executed (Some t) None)), db'))"
| "advance opts e (Failing a message) db = finish_with a As_failed message db"


section \<open>Overlapping requests\<close>

datatype svc_event =
    Elevate int string elevation_request
  | Arrive execute_request
  | Advance nat stage_input
  | Crash

record svc =
  sv_db :: recovery_db
  sv_flight :: "stage list"
  sv_restarts :: "recorded_action list"

definition after_stage :: "stage list \<Rightarrow> nat \<Rightarrow> stage + answer \<Rightarrow> stage list" where
  "after_stage flight i r = (case r of Inl st \<Rightarrow> flight[i := st] | Inr _ \<Rightarrow> take i flight @ drop (Suc i) flight)"

fun svc_step :: "service_options \<Rightarrow> svc \<Rightarrow> svc_event \<Rightarrow> unit + svc" where
  "svc_step opts s (Elevate now i rq) = (case requestElevation opts now i rq (sv_db s) of
      Inl _ \<Rightarrow> Inr s
    | Inr (g, db') \<Rightarrow> Inr (s\<lparr>sv_db := db'\<rparr>))"
| "svc_step opts s (Arrive q) = (case begin_request q (sv_db s) of
      Inr _ \<Rightarrow> Inr s
    | Inl st \<Rightarrow> Inr (s\<lparr>sv_flight := sv_flight s @ [st]\<rparr>))"
| "svc_step opts s (Advance i e) =
     (if i < length (sv_flight s) then
        (let st = sv_flight s ! i; (r, db') = advance opts e st (sv_db s) in
         Inr \<lparr>sv_db = db', sv_flight = after_stage (sv_flight s) i r,
              sv_restarts = sv_restarts s @ (case restarts opts st of None \<Rightarrow> [] | Some a \<Rightarrow> [a])\<rparr>)
      else Inl ())"
| "svc_step opts s Crash = Inr (s\<lparr>sv_flight := []\<rparr>)"

definition svc_start :: svc where
  "svc_start = \<lparr>sv_db = \<lparr>rb_grants = [], rb_actions = []\<rparr>, sv_flight = [], sv_restarts = []\<rparr>"

text \<open>What no operation changes of a grant and of an action.\<close>

definition grant_core :: "elevation_grant \<Rightarrow> elevation_grant" where
  "grant_core g = g\<lparr>eg_state := Gs_pending\<rparr>"

definition action_core :: "recorded_action \<Rightarrow> recorded_action" where
  "action_core a = with_outcome a As_pending None None"

lemma grant_core_simps [simp]:
  "eg_id (grant_core g) = eg_id g" "eg_requestedBySessionId (grant_core g) = eg_requestedBySessionId g"
  "eg_authorizedKinds (grant_core g) = eg_authorizedKinds g" "eg_approvalsReceived (grant_core g) = eg_approvalsReceived g"
  "eg_expiresAt (grant_core g) = eg_expiresAt g" "grant_core (g\<lparr>eg_state := st\<rparr>) = grant_core g"
  by (simp_all add: grant_core_def)

lemma action_core_simps [simp]:
  "rd_id (action_core a) = rd_id a" "rd_grantId (action_core a) = rd_grantId a" "rc_kind (action_core a) = rc_kind a"
  "rc_target (action_core a) = rc_target a" "rc_actorSessionId (action_core a) = rc_actorSessionId a"
  "rd_createdAt (action_core a) = rd_createdAt a" "rc_expiresAt (action_core a) = rc_expiresAt a"
  "action_core (a\<lparr>rd_state := st, rd_executedAt := t, rd_failure := f\<rparr>) = action_core a"
  by (simp_all add: action_core_def with_outcome_def)

definition approved_ok :: "gate_profile \<Rightarrow> elevation_grant \<Rightarrow> bool" where
  "approved_ok profile g \<longleftrightarrow> eg_authorizedKinds g \<noteq> [] \<and> set (eg_authorizedKinds g) \<subseteq> set (gp_allowedKinds profile) \<and>
     (eg_state g \<in> {Gs_approved, Gs_consumed} \<longrightarrow> gp_requiredApprovals profile \<le> eg_approvalsReceived g)"

text \<open>An action that a grant among the given ones authorized when its receipt was stored.\<close>

definition authorized :: "gate_profile \<Rightarrow> elevation_grant set \<Rightarrow> recorded_action \<Rightarrow> bool" where
  "authorized profile grants a \<longleftrightarrow> (\<exists>g\<in>grants. eg_id g = rd_grantId a \<and> eg_requestedBySessionId g = rc_actorSessionId a \<and>
     rc_kind a \<in> set (eg_authorizedKinds g) \<and> set (eg_authorizedKinds g) \<subseteq> set (gp_allowedKinds profile) \<and>
     gp_requiredApprovals profile \<le> eg_approvalsReceived g \<and> rd_createdAt a < eg_expiresAt g \<and> rd_createdAt a < rc_expiresAt a)"

fun stage_ok :: "gate_profile \<Rightarrow> elevation_grant set \<Rightarrow> recorded_action set \<Rightarrow> stage \<Rightarrow> bool" where
  "stage_ok profile grants actions (Fetched m i actor None) = True"
| "stage_ok profile grants actions (Fetched m i actor (Some g)) = (grant_core g \<in> grants \<and> approved_ok profile g)"
| "stage_ok profile grants actions (Stored a) = (action_core a \<in> actions)"
| "stage_ok profile grants actions (Restarted a) = (action_core a \<in> actions)"
| "stage_ok profile grants actions (Executed a t) = (action_core a \<in> actions)"
| "stage_ok profile grants actions (Failing a m) = (action_core a \<in> actions)"

definition grant_cores :: "recovery_db \<Rightarrow> elevation_grant set" where
  "grant_cores db = grant_core ` set (rb_grants db)"

definition action_cores :: "recovery_db \<Rightarrow> recorded_action set" where
  "action_cores db = action_core ` set (rb_actions db)"

definition db_ok :: "gate_profile \<Rightarrow> recovery_db \<Rightarrow> bool" where
  "db_ok profile db \<longleftrightarrow> (\<forall>g\<in>set (rb_grants db). approved_ok profile g) \<and>
     (\<forall>a\<in>action_cores db. authorized profile (grant_cores db) a)"

definition svc_inv :: "service_options \<Rightarrow> svc \<Rightarrow> bool" where
  "svc_inv opts s \<longleftrightarrow> db_ok (op_gateProfile opts) (sv_db s) \<and>
     (\<forall>st\<in>set (sv_flight s). stage_ok (op_gateProfile opts) (grant_cores (sv_db s)) (action_cores (sv_db s)) st) \<and>
     (\<forall>a\<in>set (sv_restarts s). rc_kind a = Rk_restart \<and> rc_target a = op_primaryTarget opts \<and>
        action_core a \<in> action_cores (sv_db s))"

text \<open>Nothing stored is lost: grants and actions keep their identity, and a consumed grant stays consumed.\<close>

definition consumed_ids :: "recovery_db \<Rightarrow> string set" where
  "consumed_ids db = eg_id ` {g \<in> set (rb_grants db). eg_state g = Gs_consumed}"

definition db_grows :: "recovery_db \<Rightarrow> recovery_db \<Rightarrow> bool" where
  "db_grows db db' \<longleftrightarrow> grant_cores db \<subseteq> grant_cores db' \<and> action_cores db \<subseteq> action_cores db' \<and>
     consumed_ids db \<subseteq> consumed_ids db'"

definition svc_grows :: "svc \<Rightarrow> svc \<Rightarrow> bool" where
  "svc_grows s s' \<longleftrightarrow> db_grows (sv_db s) (sv_db s') \<and> (\<exists>more. sv_restarts s' = sv_restarts s @ more)"

lemma authorized_mono: "authorized p gs a \<Longrightarrow> gs \<subseteq> gs' \<Longrightarrow> authorized p gs' a"
  unfolding authorized_def by blast

lemma stage_ok_mono: "stage_ok p gs as st \<Longrightarrow> gs \<subseteq> gs' \<Longrightarrow> as \<subseteq> as' \<Longrightarrow> stage_ok p gs' as' st"
  by (induction p gs as st rule: stage_ok.induct) auto

lemma db_grows_refl: "db_grows db db"
  by (simp add: db_grows_def)

lemma createGrant_Inr:
  "createGrant g db = Inr db' \<Longrightarrow> db' = db\<lparr>rb_grants := rb_grants db @ [g]\<rparr> \<and> eg_authorizedKinds g \<noteq> []"
  by (auto simp: createGrant_def validateGrantForWrite_def split: if_splits)

lemma createAction_Inr:
  "createAction a db = Inr db' \<Longrightarrow> db' = db\<lparr>rb_actions := rb_actions db @ [a]\<rparr>"
  by (auto simp: createAction_def split: if_splits)

lemma set_rb_actions: "set (rb_actions (db\<lparr>rb_actions := map f xs\<rparr>)) = f ` set xs"
  by simp

lemma set_rb_grants: "set (rb_grants (db\<lparr>rb_grants := map f xs\<rparr>)) = f ` set xs"
  by simp

lemma recordActionOutcome_cores:
  assumes "recordActionOutcome i st t f db = Inr db'"
  shows "rb_grants db' = rb_grants db" "action_cores db' = action_cores db"
proof -
  have db': "db' = db\<lparr>rb_actions := map (\<lambda>a. if rd_id a = i then a\<lparr>rd_state := st, rd_executedAt := t, rd_failure := f\<rparr> else a)
      (rb_actions db)\<rparr>"
    using assms by (auto simp: recordActionOutcome_def Let_def split: if_splits)
  then show "rb_grants db' = rb_grants db" by simp
  show "action_cores db' = action_cores db"
    unfolding db' action_cores_def
    by (subst set_rb_actions, unfold image_image, rule image_cong [OF refl]) auto
qed

lemma markGrantConsumed_cores:
  assumes "markGrantConsumed i db = Inr db'"
  shows "rb_actions db' = rb_actions db" "grant_cores db' = grant_cores db" "i \<in> consumed_ids db'"
    "consumed_ids db \<subseteq> consumed_ids db'"
    "(\<forall>g\<in>set (rb_grants db). approved_ok p g) \<Longrightarrow> (\<forall>g\<in>set (rb_grants db'). approved_ok p g)"
proof -
  have db': "db' = db\<lparr>rb_grants := map (\<lambda>g. if eg_id g = i then g\<lparr>eg_state := Gs_consumed\<rparr> else g) (rb_grants db)\<rparr>"
    and ex: "\<exists>g\<in>set (rb_grants db). eg_id g = i"
    and legal: "\<forall>g\<in>set (rb_grants db). eg_id g = i \<longrightarrow> eg_state g = Gs_approved"
    using assms by (auto simp: markGrantConsumed_def Let_def grant_transition_legal_def list_all_iff filter_empty_conv split: if_splits)
  show "rb_actions db' = rb_actions db" by (simp add: db')
  show "grant_cores db' = grant_cores db"
    unfolding db' grant_cores_def
    by (subst set_rb_grants, unfold image_image, rule image_cong [OF refl]) auto
  let ?f = "\<lambda>g. if eg_id g = i then g\<lparr>eg_state := Gs_consumed\<rparr> else g"
  have f: "?f g \<in> set (rb_grants db')" if "g \<in> set (rb_grants db)" for g
    unfolding db' set_rb_grants using that by (rule imageI)
  have consumed: "eg_id g \<in> consumed_ids db'" if "g \<in> set (rb_grants db)" "eg_id g = i \<or> eg_state g = Gs_consumed" for g
    unfolding consumed_ids_def by (rule image_eqI [of _ _ "?f g"]) (use that f [OF that(1)] in auto)
  show "i \<in> consumed_ids db'" using ex consumed by blast
  show "consumed_ids db \<subseteq> consumed_ids db'" using consumed unfolding consumed_ids_def [of db] by blast
  show "(\<forall>g\<in>set (rb_grants db). approved_ok p g) \<Longrightarrow> (\<forall>g\<in>set (rb_grants db'). approved_ok p g)"
  proof
    fix g' assume all: "\<forall>g\<in>set (rb_grants db). approved_ok p g" and "g' \<in> set (rb_grants db')"
    then obtain g where "g' = ?f g" "g \<in> set (rb_grants db)" unfolding db' set_rb_grants by blast
    then show "approved_ok p g'" using all legal unfolding approved_ok_def by (cases "eg_id g = i") simp_all
  qed
qed


lemma requestElevation_step:
  assumes "requestElevation opts now i rq db = Inr (g, db')" and "db_ok (op_gateProfile opts) db"
  shows "db_ok (op_gateProfile opts) db' \<and> db_grows db db'"
proof -
  obtain kinds where rest: "(case validateElevationRequest kinds (lq_justification rq) (op_gateProfile opts) of
       Some r \<Rightarrow> Inl Invalid_argument
     | None \<Rightarrow> (let (st, approvals) = resolveGrantApproval (op_gateProfile opts);
         g = \<lparr>eg_id = i, eg_requestedBySessionId = lq_requestedBySessionId rq, eg_authorizedKinds = kinds,
              eg_justification = lq_justification rq, eg_state = st, eg_approvalsReceived = approvals, eg_createdAt = now,
              eg_expiresAt = now + gp_maxGrantDurationMs (op_gateProfile opts)\<rparr> in
         bindE (lift_store (createGrant g db)) (\<lambda>db'. Inr (g, db')))) = Inr (g, db')"
    using assms(1) unfolding requestElevation_def bindE_Inr_iff by blast
  then have v: "validateElevationRequest kinds (lq_justification rq) (op_gateProfile opts) = None"
    by (cases "validateElevationRequest kinds (lq_justification rq) (op_gateProfile opts)") simp_all
  have g: "eg_authorizedKinds g = kinds" "eg_state g = fst (resolveGrantApproval (op_gateProfile opts))" "eg_approvalsReceived g = 1"
    and c: "createGrant g db = Inr db'"
    using rest unfolding v by (auto simp: resolveGrantApproval_def Let_def bindE_def lift_store_def split: sum.splits)
  have "approved_ok (op_gateProfile opts) g"
  proof -
    have "kinds \<noteq> [] \<and> set kinds \<subseteq> set (gp_allowedKinds (op_gateProfile opts))"
      using v by (auto simp: validateElevationRequest_def list_all_iff split: if_split_asm)
    moreover have "eg_state g \<in> {Gs_approved, Gs_consumed} \<longrightarrow> gp_requiredApprovals (op_gateProfile opts) \<le> 1"
      unfolding g(2) by (simp add: resolveGrantApproval_def)
    ultimately show ?thesis by (simp add: approved_ok_def g(1,3))
  qed
  moreover have db': "db' = db\<lparr>rb_grants := rb_grants db @ [g]\<rparr>" using createGrant_Inr [OF c] by simp
  then have cores: "grant_cores db' = insert (grant_core g) (grant_cores db)" "action_cores db' = action_cores db"
    "consumed_ids db \<subseteq> consumed_ids db'" "set (rb_grants db') = insert g (set (rb_grants db))"
    by (auto simp: grant_cores_def action_cores_def consumed_ids_def)
  moreover have "authorized (op_gateProfile opts) (grant_cores db') a" if "a \<in> action_cores db" for a
    using assms(2) that authorized_mono [OF _ subset_insertI] cores(1) by (simp add: db_ok_def)
  ultimately have "db_ok (op_gateProfile opts) db'" using assms(2) unfolding db_ok_def by (metis insertE)
  moreover have "db_grows db db'" using cores unfolding db_grows_def by blast
  ultimately show ?thesis by blast
qed

lemma begin_request_ok:
  assumes "begin_request q db = Inl st" and "db_ok p db"
  shows "stage_ok p (grant_cores db) (action_cores db) st"
proof -
  obtain m g where st: "st = Fetched m (xq_grantId q) (xq_actorSessionId q) g" and get: "getGrant (xq_grantId q) db = Inr g"
    using assms(1) by (auto simp: begin_request_def split: option.splits sum.splits if_splits)
  show ?thesis
  proof (cases g)
    case (Some g0)
    then have "g0 \<in> set (rb_grants db)" using get by (auto simp: getGrant_def dest: find_first_Some_iff split: if_splits)
    then have "grant_core g0 \<in> grant_cores db" "approved_ok p g0"
      using assms(2) unfolding grant_cores_def db_ok_def by blast+
    then show ?thesis unfolding st Some by simp
  qed (simp add: st)
qed

text \<open>What one stage does, for every stage.\<close>

definition stage_effect ::
    "gate_profile \<Rightarrow> recovery_db \<Rightarrow> stage + answer \<Rightarrow> recovery_db \<Rightarrow> bool" where
  "stage_effect p db r db' \<longleftrightarrow> db_ok p db' \<and> db_grows db db' \<and>
     (case r of Inl st \<Rightarrow> stage_ok p (grant_cores db') (action_cores db') st | Inr _ \<Rightarrow> True)"

lemma fetched_effect:
  assumes "db_ok p db" and "stage_ok p (grant_cores db) (action_cores db) (Fetched m i actor grant)"
    and "fetched_step e m actor grant db = (r, db')"
  shows "stage_effect p db r db'"
proof (cases "\<exists>a. r = Inl (Stored a)")
  case True
  then obtain a g k where g: "grant = Some g" and k: "validateActionAgainstGrant (action_of m actor k) g (sg_now e) = None"
    and a: "a = pending_of (action_of m actor k) (sg_freshId e) (eg_id g) (sg_now e)" "createAction a db = Inr db'" "r = Inl (Stored a)"
    using assms(3) by (auto simp: fetched_step_def Let_def split: option.splits sum.splits)
  have db': "db' = db\<lparr>rb_actions := rb_actions db @ [a]\<rparr>" by (rule createAction_Inr [OF a(2)])
  have valid: "eg_state g = Gs_approved" "sg_now e < eg_expiresAt g" "actor = eg_requestedBySessionId g"
    "k \<in> set (eg_authorizedKinds g)" "sg_now e < rc_expiresAt (action_of m actor k)"
    using k by (auto simp: validateActionAgainstGrant_def validateRecoveryAction_def action_of_def split: if_splits)
  have fields: "rc_kind a = k" "rc_actorSessionId a = actor" "rd_grantId a = eg_id g" "rd_createdAt a = sg_now e"
    "rc_expiresAt a = rc_expiresAt (action_of m actor k)"
    by (simp_all add: a(1) pending_of_def action_of_def recovery_action.defs)
  have "grant_core g \<in> grant_cores db" "approved_ok p g" using assms(2) g by simp_all
  then have "authorized p (grant_cores db) (action_core a)"
    using valid unfolding authorized_def
    by (intro bexI [of _ "grant_core g"]) (simp_all add: fields approved_ok_def)
  then show ?thesis
    using assms(1) by (auto simp: stage_effect_def db' a(3) db_ok_def db_grows_def grant_cores_def action_cores_def consumed_ids_def)
next
  case False
  then have "db' = db \<and> (\<exists>x. r = Inr x)"
    using assms(3) by (auto simp: fetched_step_def Let_def split: option.splits sum.splits)
  then show ?thesis using assms(1) by (auto simp: stage_effect_def db_grows_refl)
qed

lemma record_effect:
  assumes "recordActionOutcome i st t f db = Inr db'" and "db_ok p db"
  shows "db_ok p db' \<and> db_grows db db' \<and> grant_cores db' = grant_cores db \<and> action_cores db' = action_cores db"
  using recordActionOutcome_cores [OF assms(1)] assms(2)
  by (simp add: db_ok_def db_grows_def grant_cores_def consumed_ids_def)

lemma finish_effect:
  assumes "finish_with a st f db = (r, db')" and "db_ok p db"
  shows "stage_effect p db r db'"
  using assms record_effect [of "rd_id a" st None "Some f" db _ p]
  by (auto simp: finish_with_def stage_effect_def db_grows_refl split: sum.splits)

lemma advance_effect:
  assumes ok: "db_ok p db" and st: "stage_ok p (grant_cores db) (action_cores db) st"
    and step: "advance opts e st db = (r, db')"
  shows "stage_effect p db r db'"
proof (cases st)
  case (Fetched m i actor grant)
  then show ?thesis using fetched_effect [OF ok] st step by simp
next
  case (Stored a)
  then show ?thesis using st step finish_effect [OF _ ok] ok
    by (auto simp: stage_effect_def db_grows_refl split: if_splits option.splits)
next
  case (Restarted a)
  then show ?thesis using st step record_effect [OF _ ok] ok
    by (auto simp: stage_effect_def db_grows_refl split: sum.splits)
next
  case (Executed a t)
  show ?thesis
  proof (cases "markGrantConsumed (rd_grantId a) db")
    case (Inl x)
    then show ?thesis using Executed st step ok by (auto simp: stage_effect_def db_grows_refl)
  next
    case (Inr db1)
    then show ?thesis using Executed step ok markGrantConsumed_cores [OF Inr]
      by (auto simp: stage_effect_def db_ok_def db_grows_def action_cores_def)
  qed
next
  case (Failing a m)
  then show ?thesis using step finish_effect [OF _ ok] by simp
qed

lemma svc_step_effect:
  assumes inv: "svc_inv opts s" and step: "svc_step opts s ev = Inr s'"
  shows "svc_inv opts s' \<and> svc_grows s s'"
proof (cases ev)
  case (Elevate now i rq)
  show ?thesis
  proof (cases "requestElevation opts now i rq (sv_db s)")
    case (Inl x)
    then show ?thesis using step inv Elevate by (simp add: svc_grows_def db_grows_refl)
  next
    case (Inr x)
    then obtain g db' where x: "requestElevation opts now i rq (sv_db s) = Inr (g, db')" by (cases x) auto
    have "db_ok (op_gateProfile opts) (sv_db s)" using inv by (simp add: svc_inv_def)
    from requestElevation_step [OF x this] show ?thesis
      using step inv Elevate x stage_ok_mono
      by (fastforce simp: svc_inv_def svc_grows_def db_grows_def)
  qed
next
  case (Arrive q)
  then show ?thesis using step inv begin_request_ok [of q "sv_db s" _ "op_gateProfile opts"]
    by (auto simp: svc_inv_def svc_grows_def db_grows_refl split: sum.splits)
next
  case (Advance i e)
  let ?st = "sv_flight s ! i"
  obtain r db' where a: "advance opts e ?st (sv_db s) = (r, db')" by fastforce
  have i: "i < length (sv_flight s)" using step Advance by (auto split: if_splits)
  have s': "s' = \<lparr>sv_db = db', sv_flight = after_stage (sv_flight s) i r,
      sv_restarts = sv_restarts s @ (case restarts opts ?st of None \<Rightarrow> [] | Some a \<Rightarrow> [a])\<rparr>"
    using step Advance a i by (auto simp: Let_def)
  have st: "stage_ok (op_gateProfile opts) (grant_cores (sv_db s)) (action_cores (sv_db s)) ?st"
    and ok: "db_ok (op_gateProfile opts) (sv_db s)" using inv i by (auto simp: svc_inv_def)
  from advance_effect [OF ok st a] have eff: "stage_effect (op_gateProfile opts) (sv_db s) r db'" .
  then have grows: "db_grows (sv_db s) db'" by (simp add: stage_effect_def)
  have flight: "stage_ok (op_gateProfile opts) (grant_cores db') (action_cores db') x" if "x \<in> set (after_stage (sv_flight s) i r)" for x
  proof (cases "r = Inl x")
    case True
    then show ?thesis using eff by (simp add: stage_effect_def)
  next
    case False
    then have "x \<in> set (sv_flight s)"
      using that set_update_subset_insert [of "sv_flight s" i]
      by (auto simp: after_stage_def split: sum.splits dest: in_set_takeD in_set_dropD)
    then show ?thesis using inv grows stage_ok_mono by (auto simp: svc_inv_def db_grows_def)
  qed
  have "rc_kind x = Rk_restart \<and> rc_target x = op_primaryTarget opts \<and> action_core x \<in> action_cores (sv_db s)"
    if "restarts opts ?st = Some x" for x
    using that st by (auto simp: restarts_def split: stage.splits if_splits)
  then show ?thesis
    using s' eff flight grows inv
    by (auto simp: svc_inv_def svc_grows_def stage_effect_def db_grows_def split: option.splits)
next
  case Crash
  then show ?thesis using step inv by (auto simp: svc_inv_def svc_grows_def db_grows_refl)
qed

lemma svc_grows_trans: "svc_grows a b \<Longrightarrow> svc_grows b c \<Longrightarrow> svc_grows a c"
  by (auto simp: svc_grows_def db_grows_def)

interpretation elevation: guarded_machine "svc_step opts" "svc_inv opts" svc_grows for opts
proof unfold_locales
  fix s i s'
  assume "svc_inv opts s" and "svc_step opts s i = Inr s'"
  from svc_step_effect [OF this] show "svc_inv opts s'" "svc_grows s s'" by simp_all
qed (simp_all add: svc_grows_def db_grows_refl, auto intro: svc_grows_trans simp: svc_grows_def [symmetric])

lemma svc_start_inv: "svc_inv opts svc_start"
  by (simp add: svc_inv_def svc_start_def db_ok_def action_cores_def)

text \<open>C7: However requests overlap, fail or are cut short by a crash, the restart adapter is only ever called for an
  action whose receipt was stored first, that names the primary daemon, and that a stored grant authorizes: a grant
  of the same session, for kinds the profile allows and that include the restart, with enough approvals, and not
  expired when the receipt was stored.\<close>

theorem restart_needs_grant:
  assumes "run_machine (svc_step opts) svc_start events = Inr s" and "a \<in> set (sv_restarts s)"
  shows "rc_kind a = Rk_restart \<and> rc_target a = op_primaryTarget opts \<and>
    (\<exists>b\<in>set (rb_actions (sv_db s)). rd_id b = rd_id a \<and> rd_grantId b = rd_grantId a) \<and>
    (\<exists>g\<in>set (rb_grants (sv_db s)). eg_id g = rd_grantId a \<and> eg_requestedBySessionId g = rc_actorSessionId a \<and>
       Rk_restart \<in> set (eg_authorizedKinds g) \<and> set (eg_authorizedKinds g) \<subseteq> set (gp_allowedKinds (op_gateProfile opts)) \<and>
       gp_requiredApprovals (op_gateProfile opts) \<le> eg_approvalsReceived g \<and> rd_createdAt a < eg_expiresAt g)"
proof -
  have inv: "svc_inv opts s" using elevation.run_inv [OF svc_start_inv assms(1)] .
  then have a: "rc_kind a = Rk_restart" "rc_target a = op_primaryTarget opts" and core: "action_core a \<in> action_cores (sv_db s)"
    using assms(2) by (auto simp: svc_inv_def)
  have "authorized (op_gateProfile opts) (grant_cores (sv_db s)) (action_core a)"
    using inv core by (simp add: svc_inv_def db_ok_def)
  moreover obtain b where "b \<in> set (rb_actions (sv_db s))" "action_core b = action_core a"
    using core by (auto simp: action_cores_def)
  moreover have "rd_id b = rd_id a \<and> rd_grantId b = rd_grantId a" using calculation(3) by (metis action_core_simps(1,2))
  ultimately show ?thesis using a by (auto simp: authorized_def grant_cores_def)
qed


section \<open>One request at a time\<close>

text \<open>A handler that is not interrupted; each stage has its own input, and a request has at most five.\<close>

fun serve :: "service_options \<Rightarrow> stage_input list \<Rightarrow> stage \<Rightarrow> recovery_db \<Rightarrow> answer option \<times> recovery_db" where
  "serve opts [] st db = (None, db)"
| "serve opts (e # es) st db = (case advance opts e st db of
      (Inr a, db') \<Rightarrow> (Some a, db')
    | (Inl st', db') \<Rightarrow> serve opts es st' db')"

definition executeRecoveryAction ::
    "service_options \<Rightarrow> stage_input list \<Rightarrow> execute_request \<Rightarrow> recovery_db \<Rightarrow> answer option \<times> recovery_db" where
  "executeRecoveryAction opts es q db = (case begin_request q db of
      Inr a \<Rightarrow> (Some a, db)
    | Inl st \<Rightarrow> serve opts es st db)"

definition listRecoveryActions ::
    "string option \<Rightarrow> number \<Rightarrow> string option \<Rightarrow> recovery_db \<Rightarrow> recovery_store_error + recorded_action list \<times> string option" where
  "listRecoveryActions target pageSize pageToken db = bindE (listActions target pageSize pageToken db) (\<lambda>results.
     Inr (results, if JsNum (of_nat (length results)) = pageSize then
       (if results = [] then None else Some (rd_id (last results))) else None))"

fun stage_rank :: "stage \<Rightarrow> nat" where
  "stage_rank (Fetched _ _ _ _) = 5"
| "stage_rank (Stored _) = 4"
| "stage_rank (Restarted _) = 3"
| "stage_rank (Executed _ _) = 2"
| "stage_rank (Failing _ _) = 1"

fun stage_grant :: "stage \<Rightarrow> string option" where
  "stage_grant (Fetched _ _ _ g) = map_option eg_id g"
| "stage_grant (Stored a) = Some (rd_grantId a)"
| "stage_grant (Restarted a) = Some (rd_grantId a)"
| "stage_grant (Executed a _) = Some (rd_grantId a)"
| "stage_grant (Failing a _) = Some (rd_grantId a)"

lemma fetched_step_stage:
  "fetched_step e m actor g db = (Inl st', db') \<Longrightarrow> stage_rank st' < 5 \<and> stage_grant st' = map_option eg_id g"
  by (auto simp: fetched_step_def Let_def pending_of_def recovery_action.defs split: option.splits sum.splits)

lemma finish_with_stage: "finish_with a st f db \<noteq> (Inl st', db')"
  by (auto simp: finish_with_def split: sum.splits)

lemma advance_stage:
  "advance opts e st db = (Inl st', db') \<Longrightarrow> stage_rank st' < stage_rank st \<and> stage_grant st' = stage_grant st"
  by (cases st) (auto simp: finish_with_stage dest: fetched_step_stage split: if_splits option.splits sum.splits)

lemma serve_answers: "stage_rank st \<le> length es \<Longrightarrow> \<exists>a. fst (serve opts es st db) = Some a"
proof (induction es arbitrary: st db)
  case Nil
  then show ?case by (cases st) auto
next
  case (Cons e es)
  then show ?case using advance_stage [of opts e st db] by (fastforce split: prod.splits sum.splits)
qed

lemma execute_answers: "5 \<le> length es \<Longrightarrow> \<exists>a. fst (executeRecoveryAction opts es q db) = Some a"
proof (cases "begin_request q db")
  case (Inl st)
  assume "5 \<le> length es"
  moreover have "stage_rank st = 5" using Inl by (auto simp: begin_request_def split: option.splits sum.splits if_splits)
  ultimately show ?thesis using Inl serve_answers by (simp add: executeRecoveryAction_def)
qed (simp add: executeRecoveryAction_def)







section \<open>Pages\<close>

text \<open>Reading page after page, as a client of \<open>listRecoveryActions\<close> does.\<close>

fun pages :: "nat \<Rightarrow> string option \<Rightarrow> nat \<Rightarrow> string option \<Rightarrow> recovery_db \<Rightarrow> recorded_action list" where
  "pages 0 target n before db = []"
| "pages (Suc k) target n before db = (case listRecoveryActions target (JsNum (of_nat n)) before db of
      Inl _ \<Rightarrow> []
    | Inr (xs, token) \<Rightarrow> xs @ (case token of None \<Rightarrow> [] | Some t \<Rightarrow> pages k target n (Some t) db))"

definition matching :: "string option \<Rightarrow> recovery_db \<Rightarrow> recorded_action list" where
  "matching target db = filter (\<lambda>a. target = None \<or> target = Some (rc_target a)) (rb_actions db)"

lemma newest_first_filter: "newest_first (filter P rows) = filter P (newest_first rows)"
  by (simp add: newest_first_def filter_sort flip: rev_filter)

lemma newest_first_set [simp]: "set (newest_first rows) = set rows"
  by (simp add: newest_first_def)

lemma newest_first_descending:
  assumes "distinct (map rd_id rows)"
  shows "sorted_wrt (\<lambda>a b. action_key b < action_key a) (newest_first rows)"
proof -
  have "distinct (map rd_id (sort_key action_key rows))"
    using assms by (simp add: distinct_map)
  then have "distinct (map action_key (sort_key action_key rows))"
    unfolding distinct_map inj_on_def action_key_def by auto
  then have "sorted_wrt (<) (map action_key (sort_key action_key rows))"
    by (simp add: strict_sorted_iff)
  then show ?thesis by (simp add: newest_first_def sorted_wrt_rev sorted_wrt_map)
qed

lemma descending_rest:
  assumes "sorted_wrt (\<lambda>a b. action_key b < action_key a) (xs @ c # ys)"
  shows "filter (\<lambda>a. action_key a < action_key c) (xs @ c # ys) = ys"
  using assms by (auto simp: sorted_wrt_append filter_empty_conv intro!: filter_True)

lemma page_after:
  assumes d: "distinct (map rd_id (rb_actions db))" and l: "newest_first (matching target db) = xs @ c # ys"
    and n: "0 < n" "int n \<le> max_safe_integer"
  shows "listActions target (JsNum (of_nat n)) (Some (rd_id c)) db = Inr (take n ys)"
proof -
  have "c \<in> set (matching target db)" using l by (metis in_set_conv_decomp newest_first_set)
  then have c: "c \<in> set (rb_actions db)" by (simp add: matching_def)
  have find: "find_first (\<lambda>a. rd_id a = rd_id c) rows = Some c" if "c \<in> set rows" "distinct (map rd_id rows)" for rows
    using that by (induction rows) (auto dest: imageI)
  have sd: "sorted_wrt (\<lambda>a b. action_key b < action_key a) (xs @ c # ys)"
    using newest_first_descending [of "matching target db"] d unfolding l [symmetric] matching_def
    by (simp add: distinct_map_filter)
  have "newest_first (filter (\<lambda>a. action_key a < action_key c) (matching target db)) = ys"
    unfolding newest_first_filter l by (rule descending_rest [OF sd])
  then show ?thesis
    using find [OF c d] n by (simp add: listActions_def matching_def max_safe_integer_def)
qed


lemma list_page:
  assumes "listActions target (JsNum (of_nat n)) before db = Inr (take n ys)" and "0 < n"
  shows "listRecoveryActions target (JsNum (of_nat n)) before db =
    Inr (take n ys, if n \<le> length ys then Some (rd_id (ys ! (n - 1))) else None)"
proof -
  have "last (take n ys) = ys ! (n - 1)" if "n \<le> length ys"
    using that assms(2) by (subst last_conv_nth) (auto simp: min_def)
  then show ?thesis using assms by (auto simp: listRecoveryActions_def min_def)
qed

lemma split_page: "0 < n \<Longrightarrow> n \<le> length ys \<Longrightarrow> ys = take (n - 1) ys @ ys ! (n - 1) # drop n ys"
  using id_take_nth_drop [of "n - 1" ys] by simp

lemma pages_after:
  assumes d: "distinct (map rd_id (rb_actions db))" and n: "0 < n" "int n \<le> max_safe_integer"
  shows "newest_first (matching target db) = xs @ c # ys \<Longrightarrow> length ys < k \<Longrightarrow>
    pages k target n (Some (rd_id c)) db = ys"
proof (induction k arbitrary: xs c ys)
  case (Suc k)
  note page = list_page [OF page_after [OF d Suc.prems(1) n] n(1)]
  show ?case
  proof (cases "n \<le> length ys")
    case True
    let ?c = "ys ! (n - 1)"
    have "newest_first (matching target db) = (xs @ c # take (n - 1) ys) @ ?c # drop n ys"
      using Suc.prems(1) split_page [OF n(1) True] by simp
    then have "pages k target n (Some (rd_id ?c)) db = drop n ys"
      by (rule Suc.IH) (use Suc.prems(2) n(1) True in simp)
    then show ?thesis using page True by simp
  next
    case False
    then show ?thesis using page by simp
  qed
qed simp

text \<open>C9: Reading the recovery actions page by page, with the token of each page as the cursor of the next, yields
  every matching action exactly once, newest first, whatever the page size, and ends: the keyset cursor neither
  skips nor repeats an action, also among actions created in the same millisecond.\<close>

theorem pages_are_complete:
  assumes "distinct (map rd_id (rb_actions db))" and "0 < n" and "int n \<le> max_safe_integer"
    and "length (rb_actions db) < k"
  shows "pages k target n None db = newest_first (matching target db)"
proof -
  let ?ys = "newest_first (matching target db)"
  have "listActions target (JsNum (of_nat n)) None db = Inr (take n ?ys)"
    using assms(2,3) by (simp add: listActions_def matching_def max_safe_integer_def)
  note page = list_page [OF this assms(2)]
  obtain j where k: "k = Suc j" using assms(4) by (cases k) auto
  have len: "length ?ys \<le> length (rb_actions db)" by (simp add: newest_first_def matching_def)
  show ?thesis
  proof (cases "n \<le> length ?ys")
    case True
    have "pages j target n (Some (rd_id (?ys ! (n - 1)))) db = drop n ?ys"
      by (rule pages_after [OF assms(1-3) split_page [OF assms(2) True]]) (use assms(2,4) len k True in simp)
    then show ?thesis using page True k by simp
  next
    case False
    then show ?thesis using page k by simp
  qed
qed

section \<open>Runs\<close>

definition elevId :: "char \<Rightarrow> string" where
  "elevId c = replicate 8 (CHR ''0'') @ ''-0000-7000-8000-'' @ replicate 12 c"

definition elevOptions :: service_options where
  "elevOptions = \<lparr>op_gateProfile = \<lparr>gp_allowedKinds = [Rk_restart], gp_requiredApprovals = 1, gp_maxGrantDurationMs = 1000\<rparr>,
     op_primaryTarget = ''primary''\<rparr>"

definition elevRequest :: elevation_request where
  "elevRequest = \<lparr>lq_requestedKinds = [Proto_kind Rk_restart], lq_justification = ''stuck'', lq_requestedBySessionId = elevId (CHR ''5'')\<rparr>"

definition execRestart :: execute_request where
  "execRestart = \<lparr>xq_action = Some \<lparr>am_kind = Proto_kind Rk_restart, am_target = ''primary'', am_expectedState = ''up'',
     am_expiresAt = Some (1, 0)\<rparr>, xq_grantId = elevId (CHR ''1''), xq_actorSessionId = elevId (CHR ''5'')\<rparr>"

definition stageInput :: "char \<Rightarrow> string option \<Rightarrow> stage_input" where
  "stageInput c answer = \<lparr>sg_now = 10, sg_freshId = elevId c, sg_restart = answer\<rparr>"

definition elevRun :: "svc_event list \<Rightarrow> unit + svc" where
  "elevRun events = run_machine (svc_step elevOptions) svc_start events"

definition oneRestart :: "svc_event list" where
  "oneRestart = [Elevate 0 (elevId (CHR ''1'')) elevRequest, Arrive execRestart,
     Advance 0 (stageInput (CHR ''2'') None), Advance 0 (stageInput (CHR ''2'') None)]"

text \<open>Two requests under one grant that both read it before either has consumed it.\<close>

definition overlapping :: "svc_event list" where
  "overlapping = [Elevate 0 (elevId (CHR ''1'')) elevRequest, Arrive execRestart, Arrive execRestart] @
     map (\<lambda>i. Advance 0 (stageInput (CHR ''2'') None)) [0..<4] @ map (\<lambda>i. Advance 0 (stageInput (CHR ''3'') None)) [0..<2]"

lemma one_restart: "map rd_id (sv_restarts (projr (elevRun oneRestart))) = [elevId (CHR ''2'')]" "is_ok (elevRun oneRestart)"
  by code_simp+

text \<open>
  The grant is only consumed after the restart, so requests that overlap restart the daemon more than once under a
  grant that authorizes one restart.
\<close>

lemma overlapping_restarts:
  "map rd_id (sv_restarts (projr (elevRun overlapping))) = [elevId (CHR ''2''), elevId (CHR ''3'')]"
  "map eg_id (rb_grants (sv_db (projr (elevRun overlapping)))) = [elevId (CHR ''1'')]"
  by code_simp+

theorem restart_needs_grant_witness:
  "\<exists>g\<in>set (rb_grants (sv_db (projr (elevRun oneRestart)))). Rk_restart \<in> set (eg_authorizedKinds g)"
proof -
  have run: "run_machine (svc_step elevOptions) svc_start oneRestart = Inr (projr (elevRun oneRestart))"
    using one_restart(2) by (simp add: elevRun_def is_ok_iff) fastforce
  obtain a where "a \<in> set (sv_restarts (projr (elevRun oneRestart)))"
    using one_restart(1) by (cases "sv_restarts (projr (elevRun oneRestart))") auto
  then show ?thesis using restart_needs_grant [OF run] by blast
qed

definition elevDb :: recovery_db where
  "elevDb = sv_db (projr (elevRun [Elevate 0 (elevId (CHR ''1'')) elevRequest]))"

definition fiveInputs :: "stage_input list" where
  "fiveInputs = replicate 5 (stageInput (CHR ''2'') None)"



theorem pages_are_complete_witness:
  "pages 3 None 1 None (snd (executeRecoveryAction elevOptions fiveInputs execRestart elevDb)) =
     newest_first (matching None (snd (executeRecoveryAction elevOptions fiveInputs execRestart elevDb)))"
proof (rule pages_are_complete)
  show "distinct (map rd_id (rb_actions (snd (executeRecoveryAction elevOptions fiveInputs execRestart elevDb))))"
    by code_simp
  show "length (rb_actions (snd (executeRecoveryAction elevOptions fiveInputs execRestart elevDb))) < 3"
    by code_simp
qed (simp_all add: max_safe_integer_def)

end
