(* ===== verification/Node_Split.thy ===== *)
theory Node_Split
  imports Vcs_Binding
begin

text \<open>
  \<^verbatim>\<open>packages/core/src/node-split.ts\<close> and \<^verbatim>\<open>packages/adapters/src/split-coordinator.ts\<close>: decomposing the change of
  one node into child changes, one per segment of a proposal, as a plan revision. The bindings are the table of
  \<open>Vcs_Binding\<close>; the working copy, the plan registry, the clock and the ids are a \<open>split_env\<close>, whose n-th call
  of a port gets its n-th answer. The log has the calls that change something outside. Logger lines and the
  texts of errors are left out; a verdict keeps its reason as a value.
\<close>

section \<open>Proposals\<close>

record hunk_range =
  hk_path :: string
  hk_startLine :: number
  hk_endLine :: number

record split_segment =
  ss_label :: string
  ss_fileset :: "string list"
  ss_hunkRanges :: "hunk_range list option"

record split_proposal =
  sj_nodeId :: string
  sj_treeId :: string
  sj_splits :: "split_segment list"

record split_result_node =
  rz_nodeId :: string
  rz_parentNodeId :: string
  rz_changeId :: string
  rz_depth :: nat

record split_plan =
  sy_proposal :: split_proposal
  sy_resultingNodes :: "split_result_node list"
  sy_planRevisionId :: string

record segment_preview =
  sw_segmentIndex :: nat
  sw_label :: string
  sw_fileset :: "string list"
  sw_hunkRanges :: "hunk_range list option"

record split_preview =
  sz_proposal :: split_proposal
  sz_segments :: "segment_preview list"
  sz_resultingNodeCount :: nat

record proposal_context =
  xc_nodeApproved :: bool
  xc_explicitRevisionApproval :: bool

record existing_node =
  en_nodeId :: string
  en_parentNodeId :: "string option"
  en_depth :: number
  en_approved :: bool

record assigned_child =
  ac_segmentIndex :: int
  ac_nodeId :: string
  ac_changeId :: string

text \<open>The reasons of an invalid verdict; \<open>None\<close> is the valid one.\<close>

datatype split_reason =
    Bad_identity | No_segments | Single_segment | Blank_label nat | Empty_fileset nat | Empty_path nat
  | Fileset_overlap string nat | Approved_node

fun check_paths :: "nat \<Rightarrow> string list \<Rightarrow> string list \<Rightarrow> split_reason + string list" where
  "check_paths index seen [] = Inr seen"
| "check_paths index seen (path # paths) =
     bindE (guardE (length path \<noteq> 0) (Empty_path index)) (\<lambda>_.
     bindE (guardE (path \<notin> set seen) (Fileset_overlap path index)) (\<lambda>_.
     check_paths index (path # seen) paths))"

fun check_segments :: "nat \<Rightarrow> string list \<Rightarrow> split_segment list \<Rightarrow> split_reason + unit" where
  "check_segments index seen [] = Inr ()"
| "check_segments index seen (segment # segments) =
     bindE (guardE (is_ok (nonEmptyText (ss_label segment))) (Blank_label index)) (\<lambda>_.
     bindE (guardE (length (ss_fileset segment) \<noteq> 0) (Empty_fileset index)) (\<lambda>_.
     bindE (check_paths index seen (ss_fileset segment)) (\<lambda>seen'.
     check_segments (index + 1) seen' segments)))"

definition validateSplitProposal :: "split_proposal \<Rightarrow> proposal_context \<Rightarrow> split_reason option" where
  "validateSplitProposal p context =
     (if \<not> is_ok (taskTreeId (sj_treeId p)) \<or> \<not> is_ok (taskNodeId (sj_nodeId p)) then Some Bad_identity
      else if length (sj_splits p) = 0 then Some No_segments
      else if length (sj_splits p) = 1 then Some Single_segment
      else case check_segments 0 [] (sj_splits p) of
        Inl reason \<Rightarrow> Some reason
      | Inr _ \<Rightarrow> if xc_nodeApproved context \<and> \<not> xc_explicitRevisionApproval context then Some Approved_node
          else None)"

section \<open>The resulting topology\<close>

datatype topology_error =
    Duplicate_existing | Original_missing | Cycle_detected | Length_mismatch | Out_of_range
  | Duplicate_assigned | Missing_assigned

text \<open>The \<open>while\<close> loop of \<open>resolveDepth\<close>: each turn visits a node of the map it has not visited.\<close>

function walk_depth :: "existing_node list \<Rightarrow> existing_node \<Rightarrow> string list \<Rightarrow> nat \<Rightarrow> topology_error + nat" where
  "walk_depth nodes current visited depth = (case en_parentNodeId current of
      None \<Rightarrow> Inr depth
    | Some p \<Rightarrow> if p \<in> set visited then Inl Cycle_detected
        else case js_map en_nodeId nodes p of
          None \<Rightarrow> Inr depth
        | Some parent \<Rightarrow> walk_depth nodes parent (p # visited) (depth + 1))"
  by pat_completeness auto

termination
proof (relation "measure (\<lambda>(nodes, _, visited, _). length (filter (\<lambda>n. en_nodeId n \<notin> set visited) nodes))", goal_cases)
  case (2 nodes current visited depth p parent)
  then show ?case using unvisited_shrinks [of en_nodeId nodes p parent visited] by simp
qed simp

declare walk_depth.simps [simp del]

definition resolveNodeDepth :: "string \<Rightarrow> existing_node list \<Rightarrow> topology_error + nat" where
  "resolveNodeDepth nodeId nodes = (case js_map en_nodeId nodes nodeId of
      None \<Rightarrow> Inr 0
    | Some current \<Rightarrow> walk_depth nodes current [nodeId] 0)"

fun index_existing :: "string list \<Rightarrow> existing_node list \<Rightarrow> topology_error + unit" where
  "index_existing seen [] = Inr ()"
| "index_existing seen (n # ns) =
     bindE (guardE (en_nodeId n \<notin> set seen) Duplicate_existing) (\<lambda>_. index_existing (en_nodeId n # seen) ns)"

fun index_assigned :: "int \<Rightarrow> int list \<Rightarrow> assigned_child list \<Rightarrow> topology_error + unit" where
  "index_assigned count seen [] = Inr ()"
| "index_assigned count seen (a # as) =
     bindE (guardE (\<not> (ac_segmentIndex a < 0 \<or> ac_segmentIndex a \<ge> count)) Out_of_range) (\<lambda>_.
     bindE (guardE (ac_segmentIndex a \<notin> set seen) Duplicate_assigned) (\<lambda>_.
     index_assigned count (ac_segmentIndex a # seen) as))"

definition computeResultingTopology ::
    "existing_node list \<Rightarrow> split_proposal \<Rightarrow> assigned_child list \<Rightarrow> topology_error + split_result_node list" where
  "computeResultingTopology existing p assigned =
     bindE (index_existing [] existing) (\<lambda>_.
     bindE (guardE (js_map en_nodeId existing (sj_nodeId p) \<noteq> None) Original_missing) (\<lambda>_.
     bindE (resolveNodeDepth (sj_nodeId p) existing) (\<lambda>originalDepth.
     bindE (guardE (length assigned = length (sj_splits p)) Length_mismatch) (\<lambda>_.
     bindE (index_assigned (int (length (sj_splits p))) [] assigned) (\<lambda>_.
     mapE (\<lambda>index. case js_map ac_segmentIndex assigned (int index) of
         None \<Rightarrow> Inl Missing_assigned
       | Some identity \<Rightarrow> Inr \<lparr>rz_nodeId = ac_nodeId identity, rz_parentNodeId = sj_nodeId p,
           rz_changeId = ac_changeId identity, rz_depth = originalDepth + 1\<rparr>)
       [0..<length (sj_splits p)])))))"

definition previewSplit :: "split_proposal \<Rightarrow> split_preview" where
  "previewSplit p = \<lparr>sz_proposal = p,
     sz_segments = map (\<lambda>(index, segment). \<lparr>sw_segmentIndex = index, sw_label = ss_label segment,
       sw_fileset = ss_fileset segment, sw_hunkRanges = ss_hunkRanges segment\<rparr>) (enumerate 0 (sj_splits p)),
     sz_resultingNodeCount = length (sj_splits p)\<rparr>"

section \<open>The coordinator\<close>

datatype split_error_code =
    Node_not_found | Node_already_approved | Invalid_proposal | Split_failed | Multi_parent_result
  | Split_binding_failed | Plan_revision_failed

text \<open>What a port throws: a \<open>SplitError\<close>, which passes unchanged, or something else.\<close>

datatype port_throw = Throws_split split_error_code | Throws_other

datatype split_failure = Split_error split_error_code | Split_value domain_error_code

record segment_receipt =
  sr_segmentIndex :: int
  sr_changeId :: string
  sr_commit :: string
  sr_parentCount :: int
  sr_operationLogId :: string

record child_record =
  cr_nodeId :: string
  cr_label :: string
  cr_changeId :: string
  cr_fileset :: "string list"

record split_record_input =
  si_treeId :: string
  si_originalNodeId :: string
  si_children :: "child_record list"

record split_env =
  se_getNode :: "string \<Rightarrow> string \<Rightarrow> port_throw + existing_node option"
  se_splitSegment :: "nat \<Rightarrow> string \<Rightarrow> split_segment \<Rightarrow> nat \<Rightarrow> port_throw + segment_receipt"
  se_recordSplit :: "split_record_input \<Rightarrow> port_throw + string"
  se_writes :: "nat \<Rightarrow> bool"
  se_ids :: "nat \<Rightarrow> string"
  se_now :: "nat \<Rightarrow> int"

datatype split_effect = Segment_split string nat | Split_recorded split_record_input | Child_bound vcs_binding

record split_state =
  sx_table :: "sql_row list"
  sx_splits :: nat
  sx_writes :: nat
  sx_ids :: nat
  sx_clock :: nat
  sx_log :: "split_effect list"

type_synonym 'a splitting = "split_state \<Rightarrow> (split_failure + 'a) \<times> split_state"

definition rethrown :: "split_error_code \<Rightarrow> port_throw \<Rightarrow> split_failure" where
  "rethrown code t = (case t of Throws_split c \<Rightarrow> Split_error c | Throws_other \<Rightarrow> Split_error code)"

definition split_readBinding :: "string \<Rightarrow> string \<Rightarrow> vcs_binding splitting" where
  "split_readBinding tree node s = (case getBinding tree node (sx_table s) of
      Inl _ \<Rightarrow> (Inl (Split_error Split_binding_failed), s)
    | Inr None \<Rightarrow> (Inl (Split_error Node_not_found), s)
    | Inr (Some b) \<Rightarrow> (Inr b, s))"

text \<open>The call for one segment and the check that its receipt is for it.\<close>

definition split_one :: "split_env \<Rightarrow> string \<Rightarrow> nat \<Rightarrow> split_segment \<Rightarrow> segment_receipt splitting" where
  "split_one e change index segment s =
     (let s1 = s\<lparr>sx_splits := Suc (sx_splits s)\<rparr> in
      case se_splitSegment e (sx_splits s) change segment index of
        Inl t \<Rightarrow> (Inl (rethrown Split_failed t), s1)
      | Inr receipt \<Rightarrow>
          (if sr_segmentIndex receipt \<noteq> int index then Inl (Split_error Split_failed) else Inr receipt,
           s1\<lparr>sx_log := sx_log s @ [Segment_split change index]\<rparr>))"

fun split_all :: "split_env \<Rightarrow> string \<Rightarrow> nat \<Rightarrow> split_segment list \<Rightarrow> segment_receipt list splitting" where
  "split_all e change index [] = returnS []"
| "split_all e change index (segment # segments) =
     bindS (split_one e change index segment) (\<lambda>receipt.
     bindS (split_all e change (index + 1) segments) (\<lambda>receipts. returnS (receipt # receipts)))"

fun mint_children :: "split_env \<Rightarrow> segment_receipt list \<Rightarrow> assigned_child list splitting" where
  "mint_children e [] = returnS []"
| "mint_children e (receipt # receipts) = (\<lambda>s.
     let s1 = s\<lparr>sx_ids := Suc (sx_ids s)\<rparr> in
     case taskNodeId (se_ids e (sx_ids s)) of
       Inl code \<Rightarrow> (Inl (Split_value code), s1)
     | Inr node \<Rightarrow> bindS (mint_children e receipts) (\<lambda>rest. returnS
         (\<lparr>ac_segmentIndex = sr_segmentIndex receipt, ac_nodeId = node, ac_changeId = sr_changeId receipt\<rparr> # rest)) s1)"

definition child_records :: "split_segment list \<Rightarrow> segment_receipt list \<Rightarrow> assigned_child list \<Rightarrow> child_record list" where
  "child_records segments receipts assigned =
     map (\<lambda>(segment, receipt, identity). \<lparr>cr_nodeId = ac_nodeId identity, cr_label = ss_label segment,
       cr_changeId = sr_changeId receipt, cr_fileset = ss_fileset segment\<rparr>) (zip segments (zip receipts assigned))"

definition record_revision :: "split_env \<Rightarrow> split_record_input \<Rightarrow> string splitting" where
  "record_revision e input s = (case se_recordSplit e input of
      Inl t \<Rightarrow> (Inl (rethrown Plan_revision_failed t), s)
    | Inr revision \<Rightarrow> (Inr revision, s\<lparr>sx_log := sx_log s @ [Split_recorded input]\<rparr>))"

definition child_binding :: "string \<Rightarrow> split_result_node \<Rightarrow> segment_receipt \<Rightarrow> vcs_binding \<Rightarrow> int \<Rightarrow> vcs_binding" where
  "child_binding tree node receipt original now =
     \<lparr>vb_treeId = tree, vb_nodeId = rz_nodeId node, vb_jjChangeId = sr_changeId receipt,
      vb_currentCommitId = sr_commit receipt, vb_parentChangeId = Some (vb_jjChangeId original), vb_bookmark = None,
      vb_rewriteGeneration = 0, vb_lastJjOperationId = sr_operationLogId receipt, vb_lastPushedCommitId = None,
      vb_lastReviewedCommitId = None, vb_conflictState = Clean, vb_recordedAt = now\<rparr>"

definition recordChildBinding ::
    "split_env \<Rightarrow> string \<Rightarrow> split_result_node \<Rightarrow> segment_receipt \<Rightarrow> vcs_binding \<Rightarrow> unit splitting" where
  "recordChildBinding e tree node receipt original s =
     (if \<not> isValidConflictTransition (vb_conflictState original) Clean then (Inl (Split_error Split_binding_failed), s)
      else let b = child_binding tree node receipt original (se_now e (sx_clock s));
               s1 = s\<lparr>sx_clock := Suc (sx_clock s), sx_writes := Suc (sx_writes s)\<rparr> in
        case upsertBinding (se_writes e (sx_writes s)) b (sx_table s) of
          Inl _ \<Rightarrow> (Inl (Split_error Split_binding_failed), s1)
        | Inr table \<Rightarrow> (Inr (), s1\<lparr>sx_table := table, sx_log := sx_log s @ [Child_bound b]\<rparr>))"

fun bind_children ::
    "split_env \<Rightarrow> string \<Rightarrow> vcs_binding \<Rightarrow> (split_result_node \<times> segment_receipt) list \<Rightarrow> unit splitting" where
  "bind_children e tree original [] = returnS ()"
| "bind_children e tree original ((node, receipt) # rest) =
     bindS (recordChildBinding e tree node receipt original) (\<lambda>_. bind_children e tree original rest)"

definition resolve_node :: "split_env \<Rightarrow> split_proposal \<Rightarrow> existing_node splitting" where
  "resolve_node e p = (case se_getNode e (sj_treeId p) (sj_nodeId p) of
      Inl t \<Rightarrow> throwS (rethrown Node_not_found t)
    | Inr None \<Rightarrow> throwS (Split_error Node_not_found)
    | Inr (Some existing) \<Rightarrow> returnS existing)"

definition executeSplit :: "split_env \<Rightarrow> bool \<Rightarrow> split_proposal \<Rightarrow> split_plan splitting" where
  "executeSplit e explicit p =
     bindS (resolve_node e p) (\<lambda>existing.
     if en_approved existing \<and> \<not> explicit then throwS (Split_error Node_already_approved)
     else if validateSplitProposal p \<lparr>xc_nodeApproved = en_approved existing, xc_explicitRevisionApproval = explicit\<rparr> \<noteq> None
     then throwS (Split_error Invalid_proposal)
     else bindS (split_readBinding (sj_treeId p) (sj_nodeId p)) (\<lambda>original.
       bindS (split_all e (vb_jjChangeId original) 0 (sj_splits p)) (\<lambda>receipts.
       if \<exists>receipt\<in>set receipts. sr_parentCount receipt \<noteq> 1 then throwS (Split_error Multi_parent_result)
       else bindS (mint_children e receipts) (\<lambda>assigned.
         case computeResultingTopology [existing] p assigned of
           Inl _ \<Rightarrow> throwS (Split_error Invalid_proposal)
         | Inr resultingNodes \<Rightarrow>
             bindS (record_revision e \<lparr>si_treeId = sj_treeId p, si_originalNodeId = sj_nodeId p,
               si_children = child_records (sj_splits p) receipts assigned\<rparr>) (\<lambda>revision.
             bindS (bind_children e (sj_treeId p) original (zip resultingNodes receipts)) (\<lambda>_.
             returnS \<lparr>sy_proposal = p, sy_resultingNodes = resultingNodes, sy_planRevisionId = revision\<rparr>))))))"

text \<open>The dry run of the coordinator.\<close>

definition preview_request :: "split_proposal \<Rightarrow> split_failure + split_preview" where
  "preview_request p =
     (if validateSplitProposal p \<lparr>xc_nodeApproved = False, xc_explicitRevisionApproval = False\<rparr> \<noteq> None
      then Inl (Split_error Invalid_proposal) else Inr (previewSplit p))"

section \<open>What a valid proposal is\<close>

lemma check_paths_iff:
  "check_paths i seen paths = Inr seen' \<longleftrightarrow>
     [] \<notin> set paths \<and> distinct paths \<and> set paths \<inter> set seen = {} \<and> seen' = rev paths @ seen"
  by (induction i seen paths rule: check_paths.induct) (auto simp: res_simps)

lemma check_segments_iff:
  "check_segments i seen segments = Inr () \<longleftrightarrow>
     (\<forall>g\<in>set segments. js_trim (ss_label g) \<noteq> [] \<and> ss_fileset g \<noteq> [] \<and> [] \<notin> set (ss_fileset g)) \<and>
     distinct (concat (map ss_fileset segments)) \<and> set (concat (map ss_fileset segments)) \<inter> set seen = {}"
proof (induction i seen segments rule: check_segments.induct)
  case (2 i seen g gs)
  let ?s = "rev (ss_fileset g) @ seen"
  show ?case
  proof (cases "is_ok (nonEmptyText (ss_label g)) \<and> ss_fileset g \<noteq> [] \<and> check_paths i seen (ss_fileset g) = Inr ?s")
    case True
    then have cs: "check_segments i seen (g # gs) = check_segments (i + 1) ?s gs" by simp
    have g: "js_trim (ss_label g) \<noteq> []" "ss_fileset g \<noteq> []" "[] \<notin> set (ss_fileset g)" "distinct (ss_fileset g)"
      "set (ss_fileset g) \<inter> set seen = {}" using True unfolding check_paths_iff by auto
    show ?thesis unfolding cs 2 using g by auto
  next
    case False
    then have "check_segments i seen (g # gs) \<noteq> Inr ()" by (auto simp: res_simps check_paths_iff)
    then show ?thesis using False by (auto simp: check_paths_iff simp del: check_segments.simps)
  qed
qed simp

definition proposal_ok :: "split_proposal \<Rightarrow> bool" where
  "proposal_ok p \<longleftrightarrow> uuidV7Pattern (sj_treeId p) \<and> uuidV7Pattern (sj_nodeId p) \<and> 2 \<le> length (sj_splits p) \<and>
     list_all (\<lambda>g. js_trim (ss_label g) \<noteq> [] \<and> ss_fileset g \<noteq> [] \<and> [] \<notin> set (ss_fileset g)) (sj_splits p) \<and>
     distinct (concat (map ss_fileset (sj_splits p)))"

lemma validate_None_iff:
  "validateSplitProposal p c = None \<longleftrightarrow> proposal_ok p \<and> (xc_nodeApproved c \<longrightarrow> xc_explicitRevisionApproval c)"
proof -
  have two: "2 \<le> length (sj_splits p) \<longleftrightarrow> length (sj_splits p) \<noteq> 0 \<and> length (sj_splits p) \<noteq> 1" by linarith
  show ?thesis
  proof (cases "check_segments 0 [] (sj_splits p)")
    case (Inl reason)
    then have "check_segments 0 [] (sj_splits p) \<noteq> Inr ()" by simp
    then have "\<not> proposal_ok p" unfolding check_segments_iff proposal_ok_def list_all_iff by simp
    then show ?thesis unfolding validateSplitProposal_def using Inl by simp
  next
    case (Inr u)
    then have "check_segments 0 [] (sj_splits p) = Inr ()" by simp
    note ok = this [unfolded check_segments_iff]
    have "validateSplitProposal p c = None \<longleftrightarrow> uuidV7Pattern (sj_treeId p) \<and> uuidV7Pattern (sj_nodeId p) \<and>
        2 \<le> length (sj_splits p) \<and> (xc_nodeApproved c \<longrightarrow> xc_explicitRevisionApproval c)"
      unfolding validateSplitProposal_def two using Inr by (auto simp: uuid_parsers)
    then show ?thesis using ok by (simp add: proposal_ok_def list_all_iff)
  qed
qed

section \<open>What the coordinator does\<close>

lemma topology_nodes:
  assumes "computeResultingTopology existing p assigned = Inr nodes"
  shows "length nodes = length (sj_splits p) \<and> length assigned = length (sj_splits p) \<and>
    (\<exists>d. resolveNodeDepth (sj_nodeId p) existing = Inr d \<and> (\<forall>i<length (sj_splits p).
      \<exists>a. js_map ac_segmentIndex assigned (int i) = Some a \<and> nodes ! i = \<lparr>rz_nodeId = ac_nodeId a,
        rz_parentNodeId = sj_nodeId p, rz_changeId = ac_changeId a, rz_depth = d + 1\<rparr>))"
  using assms unfolding computeResultingTopology_def
  by (auto simp: res_simps dest!: mapE_nth split: option.splits) (metis option.distinct(1) option.exhaust)

lemma single_depth:
  "js_map en_nodeId [x] n \<noteq> None \<Longrightarrow> resolveNodeDepth n [x] = Inr d \<Longrightarrow> d = 0"
  by (auto simp: resolveNodeDepth_def js_map_def walk_depth.simps split: option.splits if_splits)

lemma split_one_effect:
  "split_one e c i g s = (r, s') \<Longrightarrow> sx_table s' = sx_table s \<and> sx_ids s' = sx_ids s \<and> sx_clock s' = sx_clock s \<and>
     (sx_log s' = sx_log s \<and> \<not> is_ok r \<or> sx_log s' = sx_log s @ [Segment_split c i]) \<and>
     (\<forall>x. r = Inr x \<longrightarrow> sr_segmentIndex x = int i)"
  by (auto simp: split_one_def Let_def split: sum.splits if_splits)

lemma split_all_effect:
  "split_all e c i gs s = (r, s') \<Longrightarrow> sx_table s' = sx_table s \<and> sx_ids s' = sx_ids s \<and> sx_clock s' = sx_clock s \<and>
     (\<exists>k\<le>length gs. sx_log s' = sx_log s @ map (Segment_split c) [i..<i + k] \<and> (is_ok r \<longrightarrow> k = length gs)) \<and>
     (\<forall>xs. r = Inr xs \<longrightarrow> length xs = length gs \<and> map sr_segmentIndex xs = map int [i..<i + length gs])"
proof (induction gs arbitrary: i s r s')
  case Nil
  then show ?case by (auto simp: res_simps)
next
  case (Cons g gs)
  obtain r1 s1 where one: "split_one e c i g s = (r1, s1)" by fastforce
  note eff = split_one_effect [OF one]
  show ?case
  proof (cases r1)
    case (Inl x)
    then have "r = Inl x" "s' = s1" using Cons.prems one by (auto simp: bindS_def)
    moreover have "sx_log s1 = sx_log s @ map (Segment_split c) [i..<i + 0] \<or>
        sx_log s1 = sx_log s @ map (Segment_split c) [i..<i + 1]" using eff by auto
    ultimately show ?thesis using eff by (auto simp: Inl)
  next
    case (Inr receipt)
    obtain r2 s2 where all: "split_all e c (i + 1) gs s1 = (r2, s2)" by fastforce
    from Cons.IH [OF all] obtain k where k: "k \<le> length gs" "sx_log s2 = sx_log s1 @ map (Segment_split c) [i + 1..<i + 1 + k]"
        "is_ok r2 \<longrightarrow> k = length gs" and keep: "sx_table s2 = sx_table s1" "sx_ids s2 = sx_ids s1" "sx_clock s2 = sx_clock s1"
      and xs: "\<forall>xs. r2 = Inr xs \<longrightarrow> length xs = length gs \<and> map sr_segmentIndex xs = map int [i + 1..<i + 1 + length gs]"
      by blast
    have s': "s' = s2" and r: "r = (case r2 of Inl x \<Rightarrow> Inl x | Inr xs \<Rightarrow> Inr (receipt # xs))"
      using Cons.prems one all Inr by (auto simp: bindS_def returnS_def split: sum.splits)
    have log: "sx_log s2 = sx_log s @ map (Segment_split c) [i..<i + Suc k]"
      using eff k(2) Inr by (simp add: upt_conv_Cons del: upt_Suc)
    have "is_ok r \<longrightarrow> Suc k = length (g # gs)" using k(3) r by (auto split: sum.splits)
    then have "\<exists>k\<le>length (g # gs). sx_log s' = sx_log s @ map (Segment_split c) [i..<i + k] \<and> (is_ok r \<longrightarrow> k = length (g # gs))"
      using log k(1) s' by (intro exI [of _ "Suc k"]) simp
    moreover have "\<forall>ys. r = Inr ys \<longrightarrow> length ys = length (g # gs) \<and> map sr_segmentIndex ys = map int [i..<i + length (g # gs)]"
      using r xs eff Inr by (auto simp: upt_conv_Cons simp del: upt_Suc split: sum.splits)
    ultimately show ?thesis using keep eff s' by simp
  qed
qed

lemma mint_children_effect:
  "mint_children e receipts s = (r, s') \<Longrightarrow> sx_table s' = sx_table s \<and> sx_clock s' = sx_clock s \<and> sx_log s' = sx_log s \<and>
     (\<forall>as. r = Inr as \<longrightarrow> map ac_segmentIndex as = map sr_segmentIndex receipts \<and>
       map ac_changeId as = map sr_changeId receipts \<and>
       map ac_nodeId as = map (se_ids e) [sx_ids s..<sx_ids s + length receipts])"
proof (induction receipts arbitrary: s r s')
  case Nil
  then show ?case by (auto simp: res_simps)
next
  case (Cons receipt receipts)
  let ?s1 = "s\<lparr>sx_ids := Suc (sx_ids s)\<rparr>"
  show ?case
  proof (cases "taskNodeId (se_ids e (sx_ids s))")
    case (Inl x)
    then show ?thesis using Cons.prems by auto
  next
    case (Inr node)
    then have node: "node = se_ids e (sx_ids s)" by (simp add: uuid_parsers parser_iffs)
    obtain r2 s2 where rest: "mint_children e receipts ?s1 = (r2, s2)" by fastforce
    have s': "s' = s2" using Cons.prems Inr rest by (auto simp: bindS_def returnS_def split: sum.splits)
    have r: "r = (case r2 of Inl x \<Rightarrow> Inl x | Inr as \<Rightarrow> Inr (\<lparr>ac_segmentIndex = sr_segmentIndex receipt,
        ac_nodeId = node, ac_changeId = sr_changeId receipt\<rparr> # as))"
      using Cons.prems Inr rest by (auto simp: bindS_def returnS_def split: sum.splits)
    show ?thesis using Cons.IH [OF rest] r s' node
      by (auto simp: upt_conv_Cons simp del: upt_Suc split: sum.splits)
  qed
qed

lemma split_readBinding_effect: "split_readBinding t n s = (r, s') \<Longrightarrow> s' = s \<and> (\<forall>b. r = Inr b \<longrightarrow> getBinding t n (sx_table s) = Inr (Some b))"
  by (auto simp: split_readBinding_def split: sum.splits option.splits)

lemma resolve_node_effect: "resolve_node e p s = (r, s') \<Longrightarrow> s' = s \<and> (\<forall>x. r = Inr x \<longrightarrow> se_getNode e (sj_treeId p) (sj_nodeId p) = Inr (Some x))"
  by (auto simp: resolve_node_def res_simps split: sum.splits option.splits)

lemma record_revision_effect:
  "record_revision e inp s = (r, s') \<Longrightarrow> sx_table s' = sx_table s \<and> sx_clock s' = sx_clock s \<and> sx_ids s' = sx_ids s \<and>
     (if is_ok r then sx_log s' = sx_log s @ [Split_recorded inp] else s' = s)"
  by (auto simp: record_revision_def split: sum.splits)

text \<open>The bindings of the children, in the order they are written.\<close>

definition child_bindings ::
    "split_env \<Rightarrow> string \<Rightarrow> vcs_binding \<Rightarrow> nat \<Rightarrow> (split_result_node \<times> segment_receipt) list \<Rightarrow> vcs_binding list" where
  "child_bindings e tree original clock pairs =
     map (\<lambda>(k, node, receipt). child_binding tree node receipt original (se_now e k)) (enumerate clock pairs)"

lemma bind_children_effect:
  "bind_children e tree original pairs s = (r, s') \<Longrightarrow> \<exists>bs. sx_log s' = sx_log s @ map Child_bound bs \<and>
     (\<exists>k\<le>length pairs. bs = take k (child_bindings e tree original (sx_clock s) pairs) \<and> (is_ok r \<longrightarrow> k = length pairs)) \<and>
     run_machine (\<lambda>table b. upsertBinding True b table) (sx_table s) bs = Inr (sx_table s')"
proof (induction pairs arbitrary: s)
  case Nil
  then show ?case by (auto simp: res_simps)
next
  case (Cons pair rest)
  obtain node receipt where pair: "pair = (node, receipt)" by fastforce
  obtain r1 s1 where one: "recordChildBinding e tree node receipt original s = (r1, s1)" by fastforce
  let ?b = "child_binding tree node receipt original (se_now e (sx_clock s))"
  show ?case
  proof (cases r1)
    case (Inl x)
    then have "s' = s1" "r = Inl x" "sx_log s1 = sx_log s" "sx_table s1 = sx_table s"
      using Cons.prems one pair by (auto simp: bindS_def recordChildBinding_def Let_def split: if_splits sum.splits)
    then show ?thesis by (intro exI [of _ "[]"]) auto
  next
    case (Inr u)
    then have rest: "bind_children e tree original rest s1 = (r, s')"
      using Cons.prems one pair by (simp add: bindS_def)
    have b: "sx_log s1 = sx_log s @ [Child_bound ?b]" "sx_clock s1 = Suc (sx_clock s)"
      "\<exists>up. upsertBinding up ?b (sx_table s) = Inr (sx_table s1)"
      using one Inr by (auto simp: recordChildBinding_def Let_def split: if_splits sum.splits)
    then have up: "upsertBinding True ?b (sx_table s) = Inr (sx_table s1)" by (auto simp: upsertBinding_Inr)
    from Cons.IH [OF rest] obtain bs k where bs: "sx_log s' = sx_log s1 @ map Child_bound bs" "k \<le> length rest"
      "bs = take k (child_bindings e tree original (sx_clock s1) rest)" "is_ok r \<longrightarrow> k = length rest"
      "run_machine (\<lambda>table b. upsertBinding True b table) (sx_table s1) bs = Inr (sx_table s')" by blast
    have "?b # bs = take (Suc k) (child_bindings e tree original (sx_clock s) (pair # rest))"
      using bs(3) b(2) pair by (simp add: child_bindings_def)
    then have "\<exists>k\<le>length (pair # rest). ?b # bs = take k (child_bindings e tree original (sx_clock s) (pair # rest)) \<and>
        (is_ok r \<longrightarrow> k = length (pair # rest))"
      using bs(2,4) by (intro exI [of _ "Suc k"]) simp
    moreover have "run_machine (\<lambda>table b. upsertBinding True b table) (sx_table s) (?b # bs) = Inr (sx_table s')"
      using up bs(5) by simp
    moreover have "sx_log s' = sx_log s @ map Child_bound (?b # bs)" using bs(1) b(1) by simp
    ultimately show ?thesis by blast
  qed
qed

text \<open>What a run has passed before it changes anything.\<close>

definition split_allowed :: "split_env \<Rightarrow> bool \<Rightarrow> split_proposal \<Rightarrow> sql_row list \<Rightarrow> string \<Rightarrow> bool" where
  "split_allowed e explicit p table change \<longleftrightarrow> proposal_ok p \<and>
     (case se_getNode e (sj_treeId p) (sj_nodeId p) of Inr (Some x) \<Rightarrow> en_approved x \<longrightarrow> explicit | _ \<Rightarrow> False) \<and>
     (case getBinding (sj_treeId p) (sj_nodeId p) table of Inr (Some b) \<Rightarrow> vb_jjChangeId b = change | _ \<Rightarrow> False)"

lemma executeSplit_cases:
  assumes "executeSplit e explicit p s = (r, s')"
  obtains (refused) c where "r = Inl c" "s' = s"
  | (splitting) original c s1 where "split_allowed e explicit p (sx_table s) (vb_jjChangeId original)"
      "getBinding (sj_treeId p) (sj_nodeId p) (sx_table s) = Inr (Some original)"
      "split_all e (vb_jjChangeId original) 0 (sj_splits p) s = (Inl c, s1)" "r = Inl c" "s' = s1"
  | (split) x original receipts s1 where "split_allowed e explicit p (sx_table s) (vb_jjChangeId original)"
      "se_getNode e (sj_treeId p) (sj_nodeId p) = Inr (Some x)"
      "getBinding (sj_treeId p) (sj_nodeId p) (sx_table s) = Inr (Some original)"
      "split_all e (vb_jjChangeId original) 0 (sj_splits p) s = (Inr receipts, s1)"
      "(if \<exists>receipt\<in>set receipts. sr_parentCount receipt \<noteq> 1 then throwS (Split_error Multi_parent_result)
       else bindS (mint_children e receipts) (\<lambda>assigned.
         case computeResultingTopology [x] p assigned of
           Inl _ \<Rightarrow> throwS (Split_error Invalid_proposal)
         | Inr resultingNodes \<Rightarrow>
             bindS (record_revision e \<lparr>si_treeId = sj_treeId p, si_originalNodeId = sj_nodeId p,
               si_children = child_records (sj_splits p) receipts assigned\<rparr>) (\<lambda>revision.
             bindS (bind_children e (sj_treeId p) original (zip resultingNodes receipts)) (\<lambda>_.
             returnS \<lparr>sy_proposal = p, sy_resultingNodes = resultingNodes, sy_planRevisionId = revision\<rparr>)))) s1 = (r, s')"
proof -
  obtain r0 s0 where get: "resolve_node e p s = (r0, s0)" by fastforce
  note g = resolve_node_effect [OF get]
  show ?thesis
  proof (cases r0)
    case (Inl c)
    then show ?thesis using refused [of c] assms get g unfolding executeSplit_def by (simp add: bindS_def)
  next
    case (Inr x)
    let ?ctx = "\<lparr>xc_nodeApproved = en_approved x, xc_explicitRevisionApproval = explicit\<rparr>"
    have node: "se_getNode e (sj_treeId p) (sj_nodeId p) = Inr (Some x)" "s0 = s" using g Inr by auto
    show ?thesis
    proof (cases "(en_approved x \<and> \<not> explicit) \<or> validateSplitProposal p ?ctx \<noteq> None")
      case True
      then show ?thesis using refused assms get Inr node(2) unfolding executeSplit_def
        by (auto simp: bindS_def throwS_def split: if_splits)
    next
      case False
      then have ok: "proposal_ok p" "en_approved x \<longrightarrow> explicit" by (auto simp: validate_None_iff)
      obtain r1 s1 where rd: "split_readBinding (sj_treeId p) (sj_nodeId p) s = (r1, s1)" by fastforce
      note b = split_readBinding_effect [OF rd]
      show ?thesis
      proof (cases r1)
        case (Inl c)
        then show ?thesis using refused [of c] assms get \<open>r0 = Inr x\<close> node(2) False rd b unfolding executeSplit_def
          by (auto simp: bindS_def)
      next
        case (Inr original)
        then have bd: "getBinding (sj_treeId p) (sj_nodeId p) (sx_table s) = Inr (Some original)" "s1 = s" using b by auto
        have al: "split_allowed e explicit p (sx_table s) (vb_jjChangeId original)"
          using ok node bd by (simp add: split_allowed_def)
        obtain r2 s2 where sp: "split_all e (vb_jjChangeId original) 0 (sj_splits p) s = (r2, s2)" by fastforce
        show ?thesis
        proof (cases r2)
          case (Inl c)
          then show ?thesis using splitting [OF al bd(1)] assms get \<open>r0 = Inr x\<close> node(2) False rd \<open>r1 = Inr original\<close> bd(2) sp
            unfolding executeSplit_def by (auto simp: bindS_def)
        next
          case (Inr receipts)
          have "(if en_approved x \<and> \<not> explicit then throwS (Split_error Node_already_approved)
             else if validateSplitProposal p ?ctx \<noteq> None then throwS (Split_error Invalid_proposal) else m) = m"
            for m :: "split_plan splitting" using False by auto
          then show ?thesis using assms get \<open>r0 = Inr x\<close> node(2) rd \<open>r1 = Inr original\<close> bd(2) sp Inr
            unfolding executeSplit_def by (intro split [OF al node(1) bd(1)]) (auto simp: bindS_def [of "resolve_node e p"]
              bindS_def [of "split_readBinding _ _"] bindS_def [of "split_all _ _ _ _"])
        qed
      qed
    qed
  qed
qed

text \<open>What follows once every segment has been split.\<close>

definition split_rest ::
    "split_env \<Rightarrow> split_proposal \<Rightarrow> existing_node \<Rightarrow> vcs_binding \<Rightarrow> segment_receipt list \<Rightarrow> split_plan splitting" where
  "split_rest e p x original receipts =
     (if \<exists>receipt\<in>set receipts. sr_parentCount receipt \<noteq> 1 then throwS (Split_error Multi_parent_result)
       else bindS (mint_children e receipts) (\<lambda>assigned.
         case computeResultingTopology [x] p assigned of
           Inl _ \<Rightarrow> throwS (Split_error Invalid_proposal)
         | Inr resultingNodes \<Rightarrow>
             bindS (record_revision e \<lparr>si_treeId = sj_treeId p, si_originalNodeId = sj_nodeId p,
               si_children = child_records (sj_splits p) receipts assigned\<rparr>) (\<lambda>revision.
             bindS (bind_children e (sj_treeId p) original (zip resultingNodes receipts)) (\<lambda>_.
             returnS \<lparr>sy_proposal = p, sy_resultingNodes = resultingNodes, sy_planRevisionId = revision\<rparr>))))"

lemma split_rest_cases:
  assumes "split_rest e p x original receipts s1 = (r, s')"
  obtains (refused) "\<not> is_ok r" "sx_log s' = sx_log s1" "sx_table s' = sx_table s1"
  | (recorded) assigned nodes inp s2 s3 r4 where "\<forall>receipt\<in>set receipts. sr_parentCount receipt = 1"
      "mint_children e receipts s1 = (Inr assigned, s2)" "computeResultingTopology [x] p assigned = Inr nodes"
      "inp = \<lparr>si_treeId = sj_treeId p, si_originalNodeId = sj_nodeId p,
         si_children = child_records (sj_splits p) receipts assigned\<rparr>"
      "sx_log s3 = sx_log s1 @ [Split_recorded inp]" "sx_table s3 = sx_table s1" "sx_clock s3 = sx_clock s1"
      "bind_children e (sj_treeId p) original (zip nodes receipts) s3 = (r4, s')" "is_ok r = is_ok r4"
      "\<forall>plan. r = Inr plan \<longrightarrow> sy_proposal plan = p \<and> sy_resultingNodes plan = nodes"
proof (cases "\<exists>receipt\<in>set receipts. sr_parentCount receipt \<noteq> 1")
  case True
  then show ?thesis using refused assms by (auto simp: split_rest_def throwS_def)
next
  case False
  obtain r2 s2 where mint: "mint_children e receipts s1 = (r2, s2)" by fastforce
  note m = mint_children_effect [OF mint]
  show ?thesis
  proof (cases "\<exists>assigned nodes. r2 = Inr assigned \<and> computeResultingTopology [x] p assigned = Inr nodes")
    case no: False
    then show ?thesis using refused assms False mint m
      by (auto simp: split_rest_def bindS_def throwS_def split: sum.splits)
  next
    case True
    then obtain assigned nodes where top: "r2 = Inr assigned" "computeResultingTopology [x] p assigned = Inr nodes" by blast
    define inp where "inp = \<lparr>si_treeId = sj_treeId p, si_originalNodeId = sj_nodeId p,
         si_children = child_records (sj_splits p) receipts assigned\<rparr>"
    obtain r3 s3 where rv: "record_revision e inp s2 = (r3, s3)" by fastforce
    note v = record_revision_effect [OF rv]
    have rest: "split_rest e p x original receipts s1 =
        (case r3 of Inl c \<Rightarrow> (Inl c, s3) | Inr revision \<Rightarrow>
          bindS (bind_children e (sj_treeId p) original (zip nodes receipts)) (\<lambda>_.
             returnS \<lparr>sy_proposal = p, sy_resultingNodes = nodes, sy_planRevisionId = revision\<rparr>) s3)"
      using False mint top rv by (auto simp: split_rest_def bindS_def [of "mint_children _ _"] bindS_def [of "record_revision _ _"]
          inp_def split: sum.splits)
    show ?thesis
    proof (cases r3)
      case (Inl c)
      then show ?thesis using refused assms rest v m by auto
    next
      case (Inr revision)
      obtain r4 s4 where bind: "bind_children e (sj_treeId p) original (zip nodes receipts) s3 = (r4, s4)" by fastforce
      then have fin: "s4 = s'" "is_ok r = is_ok r4" "\<forall>plan. r = Inr plan \<longrightarrow> sy_proposal plan = p \<and> sy_resultingNodes plan = nodes"
        using assms rest Inr by (auto simp: bindS_def returnS_def split: sum.splits)
      show ?thesis
        by (rule recorded [of assigned s2 nodes inp s3 r4])
          (use False mint top v m Inr bind fin in \<open>auto simp: inp_def\<close>)
    qed
  qed
qed


lemma child_bindings_length [simp]: "length (child_bindings e tree original clock pairs) = length pairs"
  by (simp add: child_bindings_def)





text \<open>The node of segment i in a plan: its identity is the i-th id drawn.\<close>

definition child_node :: "split_env \<Rightarrow> split_proposal \<Rightarrow> split_state \<Rightarrow> segment_receipt list \<Rightarrow> nat \<Rightarrow> split_result_node" where
  "child_node e p s receipts i = \<lparr>rz_nodeId = se_ids e (sx_ids s + i), rz_parentNodeId = sj_nodeId p,
     rz_changeId = sr_changeId (receipts ! i), rz_depth = 1\<rparr>"

lemma executeSplit_plan:
  assumes "executeSplit e explicit p s = (Inr plan, s')"
  obtains original receipts c where "getBinding (sj_treeId p) (sj_nodeId p) (sx_table s) = Inr (Some original)"
    "length receipts = length (sj_splits p)" "sy_proposal plan = p"
    "sy_resultingNodes plan = map (child_node e p s receipts) [0..<length (sj_splits p)]"
    "run_machine (\<lambda>table b. upsertBinding True b table) (sx_table s)
       (child_bindings e (sj_treeId p) original c (zip (sy_resultingNodes plan) receipts)) = Inr (sx_table s')"
  using assms
proof (cases rule: executeSplit_cases)
  case (split x original receipts s1)
  from split_all_effect [OF split(4)] have s1: "sx_table s1 = sx_table s" "length receipts = length (sj_splits p)"
    "sx_ids s1 = sx_ids s" "map sr_segmentIndex receipts = map int [0..<length (sj_splits p)]" by auto
  let ?k = "length (sj_splits p)"
  have "split_rest e p x original receipts s1 = (Inr plan, s')" using split(5) by (simp only: split_rest_def)
  then show ?thesis
  proof (cases rule: split_rest_cases)
    case refused
    then show ?thesis by simp
  next
    case (recorded assigned nodes inp s2 s3 r4)
    from mint_children_effect [OF recorded(2)] have m: "map ac_segmentIndex assigned = map int [0..<?k]"
      "map ac_changeId assigned = map sr_changeId receipts" "map ac_nodeId assigned = map (se_ids e) [sx_ids s..<sx_ids s + ?k]"
      using s1 by auto
    from topology_nodes [OF recorded(3)] obtain d where n: "length nodes = ?k" "length assigned = ?k"
      and d: "resolveNodeDepth (sj_nodeId p) [x] = Inr d"
      and at_i: "\<forall>i<?k. \<exists>a. js_map ac_segmentIndex assigned (int i) = Some a \<and> nodes ! i = \<lparr>rz_nodeId = ac_nodeId a,
        rz_parentNodeId = sj_nodeId p, rz_changeId = ac_changeId a, rz_depth = d + 1\<rparr>" by blast
    have "js_map en_nodeId [x] (sj_nodeId p) \<noteq> None"
      using recorded(3) unfolding computeResultingTopology_def by (auto simp: res_simps)
    then have d0: "d = 0" using d by (rule single_depth)
    have dist: "distinct (map ac_segmentIndex assigned)" unfolding m(1) by (simp add: distinct_map)
    have seg: "ac_segmentIndex (assigned ! i) = int i" if "i < ?k" for i
      using that m(1) n(2) by (metis (no_types, lifting) add.left_neutral diff_zero length_upt nth_map nth_upt)
    have "nodes ! i = child_node e p s receipts i" if "i < ?k" for i
    proof -
      have "js_map ac_segmentIndex assigned (int i) = Some (assigned ! i)"
        using js_map_distinct [OF dist] seg that n(2) by simp
      then have "nodes ! i = \<lparr>rz_nodeId = ac_nodeId (assigned ! i), rz_parentNodeId = sj_nodeId p,
          rz_changeId = ac_changeId (assigned ! i), rz_depth = 1\<rparr>" using at_i that d0 by fastforce
      moreover have "ac_nodeId (assigned ! i) = se_ids e (sx_ids s + i)"
        using arg_cong [OF m(3), of "\<lambda>l. l ! i"] that n(2) by simp
      moreover have "ac_changeId (assigned ! i) = sr_changeId (receipts ! i)"
        using arg_cong [OF m(2), of "\<lambda>l. l ! i"] that n(2) s1(2) by simp
      ultimately show ?thesis by (simp add: child_node_def)
    qed
    then have nodes: "nodes = map (child_node e p s receipts) [0..<?k]"
      using n(1) by (intro nth_equalityI) auto
    from recorded(10) have plan: "sy_proposal plan = p" "sy_resultingNodes plan = nodes" by auto
    from bind_children_effect [OF recorded(8)] obtain bs where
      bs: "bs = child_bindings e (sj_treeId p) original (sx_clock s3) (zip nodes receipts)"
      "run_machine (\<lambda>table b. upsertBinding True b table) (sx_table s3) bs = Inr (sx_table s')"
      using recorded(9) n(1) s1(2) by auto
    show ?thesis
      by (rule that [of original receipts "sx_clock s3"]) (use split(3) s1 plan nodes bs recorded(6) in auto)
  qed
qed simp_all


text \<open>
  The coordinator hands the topology only the split node itself, so the walk to its parents ends at once: a child is
  said to be at depth 1, however deep the node it was split from is.
\<close>

lemma split_depth_is_one:
  assumes "executeSplit e explicit p s = (Inr plan, s')"
  shows "\<forall>node\<in>set (sy_resultingNodes plan). rz_depth node = 1"
  using assms by (rule executeSplit_plan) (auto simp: child_node_def)

section \<open>A sample run\<close>









end
