(* ===== verification/Blob_Store.thy ===== *)
theory Blob_Store
  imports Value_Objects
begin

text \<open>
  \<^verbatim>\<open>packages/adapters/src/blob/file-content-blob-store.ts\<close> and the blob types of
  \<^verbatim>\<open>packages/core/src/artifact.ts\<close>: a store of contents named by their digests, in a directory that survives
  crashes. The disk is what is under the root of the store; its parent exists. Every call of the file system asks
  the environment whether it works, fails with an I/O error, or is where the process stops; a write that is cut
  short leaves a prefix. What was written before a crash is kept, so the calls that sync do nothing else. No other
  process changes the disk while an operation runs, and the operations of a store run one at a time, as its queue
  has them. The digest function is a parameter. Texts of errors are left out.
\<close>

section \<open>Blobs\<close>

record stored_blob =
  sb_digest :: string
  sb_sizeBytes :: int
  sb_relativePath :: string
  sb_verifiedAt :: int
  sb_created :: bool

record expected_blob =
  eb_digest :: string
  eb_sizeBytes :: int
  eb_relativePath :: string

record blob_reconciliation =
  br_removedTemporaryPaths :: "string list"
  br_removedOrphanPaths :: "string list"
  br_missingDigests :: "string list"
  br_corruptDigests :: "string list"

definition MAX_BLOB_SIZE_BYTES :: int where
  "MAX_BLOB_SIZE_BYTES = 64 * 1024 * 1024"

definition DIGEST_PATTERN :: "string \<Rightarrow> bool" where
  "DIGEST_PATTERN s \<longleftrightarrow> fits (replicate 64 hex_digit) s"

definition PREFIX_PATTERN :: "string \<Rightarrow> bool" where
  "PREFIX_PATTERN s \<longleftrightarrow> fits (replicate 2 hex_digit) s"

definition BLOB_UUID_PATTERN :: "string \<Rightarrow> bool" where
  "BLOB_UUID_PATTERN s \<longleftrightarrow> fits (uuid_shape (\<lambda>c. c \<in> set ''12345678'')) s"

definition TEMPORARY_PREFIX :: string where
  "TEMPORARY_PREFIX = ''.tmp-''"

definition SHA256_DIRECTORY :: string where
  "SHA256_DIRECTORY = ''sha256''"

section \<open>The disk\<close>

datatype entry = Regular string | Directory | Symlink | Special

datatype errno = ENOENT | EEXIST | ELOOP | ENOTDIR | EISDIR | EIO

text \<open>\<open>Crashed\<close> is no exception: nothing catches it.\<close>

datatype blob_failure =
    Crashed | Errno errno | Corrupt string | Non_regular | Store_error | Input_error
  | Blob_value domain_error_code | Persist_cause | Persist_other | Aggregate

datatype fate = Works | Fails | Stops

record blob_env =
  be_digest :: "string \<Rightarrow> string"
  be_fate :: "nat \<Rightarrow> fate"
  be_partial :: "nat \<Rightarrow> nat"
  be_ids :: "nat \<Rightarrow> string"
  be_now :: "nat \<Rightarrow> int"
  be_patience :: nat

text \<open>A path is relative to the root, whose path is empty.\<close>

record disk =
  dk_entries :: "(string list \<times> entry) list"
  dk_calls :: nat
  dk_ids :: nat
  dk_clock :: nat

type_synonym 'a disk_io = "disk \<Rightarrow> (blob_failure + 'a) \<times> disk"

definition catchS :: "'a disk_io \<Rightarrow> (blob_failure \<Rightarrow> 'a disk_io) \<Rightarrow> 'a disk_io" where
  "catchS m h s = (case m s of
      (Inl x, s') \<Rightarrow> if x = Crashed then (Inl Crashed, s') else h x s'
    | (Inr y, s') \<Rightarrow> (Inr y, s'))"

text \<open>What a \<open>try\<close> caught, if anything.\<close>

definition attemptS :: "unit disk_io \<Rightarrow> blob_failure option disk_io" where
  "attemptS m = catchS (bindS m (\<lambda>_. returnS None)) (\<lambda>x. returnS (Some x))"

definition finallyS :: "'a disk_io \<Rightarrow> unit disk_io \<Rightarrow> 'a disk_io" where
  "finallyS m c = bindS (catchS m (\<lambda>x. bindS c (\<lambda>_. throwS x))) (\<lambda>y. bindS c (\<lambda>_. returnS y))"

definition syscall :: "blob_env \<Rightarrow> 'a disk_io \<Rightarrow> 'a disk_io" where
  "syscall e op s =
     (let s1 = s\<lparr>dk_calls := Suc (dk_calls s)\<rparr> in
      case be_fate e (dk_calls s) of Works \<Rightarrow> op s1 | Fails \<Rightarrow> (Inl (Errno EIO), s1) | Stops \<Rightarrow> (Inl Crashed, s1))"

definition entry_at :: "string list \<Rightarrow> disk \<Rightarrow> entry option" where
  "entry_at p s = map_of (dk_entries s) p"

definition add_entry :: "string list \<Rightarrow> entry \<Rightarrow> disk \<Rightarrow> disk" where
  "add_entry p x s = s\<lparr>dk_entries := (p, x) # dk_entries s\<rparr>"

definition drop_entry :: "string list \<Rightarrow> disk \<Rightarrow> disk" where
  "drop_entry p s = s\<lparr>dk_entries := filter (\<lambda>(q, x). q \<noteq> p) (dk_entries s)\<rparr>"

text \<open>A call that changes nothing below the root: \<open>sync\<close>, \<open>close\<close>, \<open>chmod\<close>, \<open>stat\<close> of an open file.\<close>

definition touch :: "blob_env \<Rightarrow> unit disk_io" where
  "touch e = syscall e (returnS ())"

definition lstat :: "blob_env \<Rightarrow> string list \<Rightarrow> entry disk_io" where
  "lstat e p = syscall e (\<lambda>s. (case entry_at p s of None \<Rightarrow> Inl (Errno ENOENT) | Some x \<Rightarrow> Inr x, s))"

definition fs_mkdir :: "blob_env \<Rightarrow> string list \<Rightarrow> unit disk_io" where
  "fs_mkdir e p = syscall e (\<lambda>s. case entry_at p s of
      None \<Rightarrow> (Inr (), add_entry p Directory s) | Some _ \<Rightarrow> (Inl (Errno EEXIST), s))"

definition open_new :: "blob_env \<Rightarrow> string list \<Rightarrow> unit disk_io" where
  "open_new e p = syscall e (\<lambda>s. case entry_at p s of
      None \<Rightarrow> (Inr (), add_entry p (Regular []) s) | Some _ \<Rightarrow> (Inl (Errno EEXIST), s))"

text \<open>\<open>writeFile\<close> on a new file; what fails or stops has written a prefix.\<close>

definition write_file :: "blob_env \<Rightarrow> string list \<Rightarrow> string \<Rightarrow> unit disk_io" where
  "write_file e p content s =
     (let s1 = s\<lparr>dk_calls := Suc (dk_calls s)\<rparr>;
          written = (\<lambda>c. add_entry p (Regular c) (drop_entry p s1)) in
      case be_fate e (dk_calls s) of
        Works \<Rightarrow> (Inr (), written content)
      | Fails \<Rightarrow> (Inl (Errno EIO), written (take (be_partial e (dk_calls s)) content))
      | Stops \<Rightarrow> (Inl Crashed, written (take (be_partial e (dk_calls s)) content)))"

definition fs_link :: "blob_env \<Rightarrow> string list \<Rightarrow> string list \<Rightarrow> unit disk_io" where
  "fs_link e p q = syscall e (\<lambda>s. case (entry_at p s, entry_at q s) of
      (None, _) \<Rightarrow> (Inl (Errno ENOENT), s)
    | (Some x, Some _) \<Rightarrow> (Inl (Errno EEXIST), s)
    | (Some x, None) \<Rightarrow> (Inr (), add_entry q x s))"

definition fs_unlink :: "blob_env \<Rightarrow> string list \<Rightarrow> unit disk_io" where
  "fs_unlink e p = syscall e (\<lambda>s. case entry_at p s of
      None \<Rightarrow> (Inl (Errno ENOENT), s)
    | Some Directory \<Rightarrow> (Inl (Errno EISDIR), s)
    | Some _ \<Rightarrow> (Inr (), drop_entry p s))"

definition open_read :: "blob_env \<Rightarrow> string list \<Rightarrow> entry disk_io" where
  "open_read e p = syscall e (\<lambda>s. (case entry_at p s of
      None \<Rightarrow> Inl (Errno ENOENT) | Some Symlink \<Rightarrow> Inl (Errno ELOOP) | Some x \<Rightarrow> Inr x, s))"

definition readdir :: "blob_env \<Rightarrow> string list \<Rightarrow> (string \<times> entry) list disk_io" where
  "readdir e p = syscall e (\<lambda>s. (case entry_at p s of
      None \<Rightarrow> Inl (Errno ENOENT)
    | Some Directory \<Rightarrow> Inr (map (\<lambda>(q, x). (last q, x)) (filter (\<lambda>(q, x). q \<noteq> [] \<and> butlast q = p) (dk_entries s)))
    | Some _ \<Rightarrow> Inl (Errno ENOTDIR), s))"

section \<open>Directories\<close>

definition syncDirectory :: "blob_env \<Rightarrow> unit disk_io" where
  "syncDirectory e = bindS (touch e) (\<lambda>_. finallyS (touch e) (touch e))"

definition is_missing :: "blob_failure \<Rightarrow> bool" where
  "is_missing x \<longleftrightarrow> x = Errno ENOENT"

definition make_directory :: "blob_env \<Rightarrow> string list \<Rightarrow> unit disk_io" where
  "make_directory e p =
     bindS (catchS (bindS (fs_mkdir e p) (\<lambda>_. returnS True))
       (\<lambda>x. if x = Errno EEXIST then returnS False else throwS x)) (\<lambda>created.
     if created then syncDirectory e else returnS ())"

text \<open>The parent of the root is outside of the disk: it is a directory that exists.\<close>

function ensureDirectory :: "blob_env \<Rightarrow> string list \<Rightarrow> bool \<Rightarrow> unit disk_io" where
  "ensureDirectory e p secure =
     bindS (catchS (lstat e p) (\<lambda>x.
       if \<not> is_missing x then throwS x
       else bindS (if p = [] then touch e else ensureDirectory e (butlast p) False) (\<lambda>_.
            bindS (make_directory e p) (\<lambda>_. lstat e p)))) (\<lambda>metadata.
     if metadata \<noteq> Directory then throwS Store_error
     else if secure then touch e else returnS ())"
  by pat_completeness auto

termination
  by (relation "measure (\<lambda>(e, p, secure). length p)") auto

declare ensureDirectory.simps [simp del]

definition assertDirectory :: "blob_env \<Rightarrow> string list \<Rightarrow> unit disk_io" where
  "assertDirectory e p = bindS (lstat e p) (\<lambda>metadata. if metadata \<noteq> Directory then throwS Store_error else returnS ())"

definition blob_directory :: "string \<Rightarrow> string list" where
  "blob_directory digest = [SHA256_DIRECTORY, take 2 digest, take 2 (drop 2 digest)]"

definition ensureBlobDirectories :: "blob_env \<Rightarrow> string \<Rightarrow> string list disk_io" where
  "ensureBlobDirectories e digest =
     bindS (ensureDirectory e [SHA256_DIRECTORY] True) (\<lambda>_.
     bindS (ensureDirectory e [SHA256_DIRECTORY, take 2 digest] True) (\<lambda>_.
     bindS (ensureDirectory e (blob_directory digest) True) (\<lambda>_. returnS (blob_directory digest))))"

definition assertBlobDirectories :: "blob_env \<Rightarrow> string \<Rightarrow> string list disk_io" where
  "assertBlobDirectories e digest =
     bindS (assertDirectory e []) (\<lambda>_.
     bindS (assertDirectory e [SHA256_DIRECTORY]) (\<lambda>_.
     bindS (assertDirectory e [SHA256_DIRECTORY, take 2 digest]) (\<lambda>_.
     bindS (assertDirectory e (blob_directory digest)) (\<lambda>_. returnS (blob_directory digest)))))"

section \<open>Verified reads\<close>

text \<open>The checks on an open file: what \<open>stat\<close> and the reads see is the entry itself.\<close>

definition verify_content :: "blob_env \<Rightarrow> string \<Rightarrow> int \<Rightarrow> string \<Rightarrow> string disk_io" where
  "verify_content e digest bytes content =
     (if int (length content) < 1 \<or> int (length content) > MAX_BLOB_SIZE_BYTES then throwS (Corrupt digest)
      else if int (length content) \<noteq> bytes then throwS (Corrupt digest)
      else bindS (touch e) (\<lambda>_. bindS (touch e) (\<lambda>_. bindS (touch e) (\<lambda>_.
        if be_digest e content \<noteq> digest then throwS (Corrupt digest) else returnS content))))"

definition readVerifiedFile :: "blob_env \<Rightarrow> string list \<Rightarrow> string \<Rightarrow> int \<Rightarrow> string disk_io" where
  "readVerifiedFile e p digest bytes =
     bindS (open_read e p) (\<lambda>x. finallyS (bindS (touch e) (\<lambda>_. case x of
         Regular content \<Rightarrow> verify_content e digest bytes content
       | _ \<Rightarrow> throwS Non_regular)) (touch e))"

definition tryReadVerifiedFile :: "blob_env \<Rightarrow> string list \<Rightarrow> string \<Rightarrow> int \<Rightarrow> bool disk_io" where
  "tryReadVerifiedFile e p digest bytes =
     catchS (bindS (readVerifiedFile e p digest bytes) (\<lambda>_. returnS True))
       (\<lambda>x. if is_missing x then returnS False else throwS x)"

definition readExpectedBlobFile :: "blob_env \<Rightarrow> string list \<Rightarrow> string \<Rightarrow> int \<Rightarrow> string disk_io" where
  "readExpectedBlobFile e p digest bytes =
     catchS (readVerifiedFile e p digest bytes)
       (\<lambda>x. if is_missing x \<or> x = Non_regular then throwS (Corrupt digest) else throwS x)"

definition relativePathFor :: "string \<Rightarrow> string" where
  "relativePathFor digest = join ''/'' (blob_directory digest @ [digest])"

definition normalizeExpectedBlob :: "expected_blob \<Rightarrow> blob_failure + expected_blob" where
  "normalizeExpectedBlob x =
     bindE (case contentHash (eb_digest x) of Inl c \<Rightarrow> Inl (Blob_value c) | Inr d \<Rightarrow> Inr d) (\<lambda>digest.
     bindE (guardE (\<not> (eb_sizeBytes x < 1 \<or> eb_sizeBytes x > MAX_BLOB_SIZE_BYTES)) Input_error) (\<lambda>_.
     bindE (guardE (eb_relativePath x = relativePathFor digest) Store_error) (\<lambda>_. Inr x)))"

definition liftB :: "blob_failure + 'a \<Rightarrow> 'a disk_io" where
  "liftB m s = (m, s)"

definition readVerified :: "blob_env \<Rightarrow> expected_blob \<Rightarrow> string disk_io" where
  "readVerified e expected =
     bindS (liftB (normalizeExpectedBlob expected)) (\<lambda>x.
     catchS (bindS (assertBlobDirectories e (eb_digest x)) (\<lambda>dir.
       readExpectedBlobFile e (dir @ [eb_digest x]) (eb_digest x) (eb_sizeBytes x)))
       (\<lambda>err. if is_missing err then throwS (Corrupt (eb_digest x)) else throwS err))"

section \<open>Publication\<close>

text \<open>
  The loop of \<open>#createTemporary\<close>, which tries a fresh id after each one that is taken. The process is stopped
  when it has tried \<open>be_patience\<close> of them; with ids that do not repeat it never tries more than the disk has
  temporaries.
\<close>

fun create_temporary :: "blob_env \<Rightarrow> nat \<Rightarrow> string list \<Rightarrow> string list disk_io" where
  "create_temporary e 0 dir = throwS Crashed"
| "create_temporary e (Suc k) dir = (\<lambda>s.
     let fresh = be_ids e (dk_ids s); s1 = s\<lparr>dk_ids := Suc (dk_ids s)\<rparr>; path = dir @ [TEMPORARY_PREFIX @ fresh] in
     if \<not> BLOB_UUID_PATTERN fresh then (Inl Store_error, s1)
     else case open_new e path s1 of
       (Inl x, s2) \<Rightarrow> if x = Errno EEXIST then create_temporary e k dir s2 else (Inl x, s2)
     | (Inr u, s2) \<Rightarrow> (Inr path, s2))"

definition removeTemporaryAfterFailure :: "blob_env \<Rightarrow> string list \<Rightarrow> unit disk_io" where
  "removeTemporaryAfterFailure e path =
     bindS (catchS (bindS (fs_unlink e path) (\<lambda>_. returnS True))
       (\<lambda>x. if is_missing x then returnS False else throwS x)) (\<lambda>removed.
     if removed then syncDirectory e else returnS ())"

text \<open>The \<open>catch\<close> of \<open>#putStable\<close>; \<open>opened\<close> says that the handle is still open.\<close>

definition clean_up :: "blob_env \<Rightarrow> bool \<Rightarrow> string list \<Rightarrow> blob_failure \<Rightarrow> 'a disk_io" where
  "clean_up e opened path x =
     bindS (attemptS (if opened then touch e else returnS ())) (\<lambda>closeError.
     bindS (attemptS (removeTemporaryAfterFailure e path)) (\<lambda>cleanupError.
     throwS (if closeError \<noteq> None \<or> cleanupError \<noteq> None then Aggregate else x)))"

definition storedBlob :: "blob_env \<Rightarrow> string \<Rightarrow> int \<Rightarrow> bool \<Rightarrow> stored_blob disk_io" where
  "storedBlob e digest bytes created s =
     (Inr \<lparr>sb_digest = digest, sb_sizeBytes = bytes, sb_relativePath = relativePathFor digest,
        sb_verifiedAt = be_now e (dk_clock s), sb_created = created\<rparr>, s\<lparr>dk_clock := Suc (dk_clock s)\<rparr>)"

definition write_temporary :: "blob_env \<Rightarrow> string list \<Rightarrow> string \<Rightarrow> unit disk_io" where
  "write_temporary e path content =
     bindS (write_file e path content) (\<lambda>_. bindS (touch e) (\<lambda>_. touch e))"

text \<open>The recheck after a publication that could not be read back: only a file that is there is removed.\<close>

definition withdraw :: "blob_env \<Rightarrow> string list \<Rightarrow> string \<Rightarrow> int \<Rightarrow> unit disk_io" where
  "withdraw e final digest bytes =
     catchS (bindS (readVerifiedFile e final digest bytes) (\<lambda>_. returnS ()))
       (\<lambda>x. if is_missing x then returnS () else bindS (fs_unlink e final) (\<lambda>_. syncDirectory e))"

definition publish :: "blob_env \<Rightarrow> string list \<Rightarrow> string list \<Rightarrow> string \<Rightarrow> int \<Rightarrow> stored_blob disk_io" where
  "publish e path final digest bytes =
     bindS (catchS (bindS (fs_link e path final) (\<lambda>_. returnS True))
       (\<lambda>x. if x = Errno EEXIST then returnS False else throwS x)) (\<lambda>linked.
     if \<not> linked then
       bindS (readVerifiedFile e final digest bytes) (\<lambda>_.
       bindS (fs_unlink e path) (\<lambda>_. bindS (syncDirectory e) (\<lambda>_. storedBlob e digest bytes False)))
     else
       bindS (catchS (bindS (readVerifiedFile e final digest bytes) (\<lambda>_. returnS ()))
         (\<lambda>x. bindS (withdraw e final digest bytes) (\<lambda>_. throwS x))) (\<lambda>_.
       bindS (fs_unlink e path) (\<lambda>_. bindS (syncDirectory e) (\<lambda>_. storedBlob e digest bytes True))))"

definition putStable :: "blob_env \<Rightarrow> string \<Rightarrow> string \<Rightarrow> stored_blob disk_io" where
  "putStable e content digest =
     bindS (ensureDirectory e [] True) (\<lambda>_.
     bindS (ensureBlobDirectories e digest) (\<lambda>dir.
     let final = dir @ [digest]; bytes = int (length content) in
     bindS (tryReadVerifiedFile e final digest bytes) (\<lambda>existing.
     if existing then bindS (syncDirectory e) (\<lambda>_. storedBlob e digest bytes False)
     else bindS (create_temporary e (be_patience e) dir) (\<lambda>path.
       bindS (catchS (write_temporary e path content) (clean_up e True path)) (\<lambda>_.
       catchS (publish e path final digest bytes) (clean_up e False path))))))"

definition removePublishedBlob :: "blob_env \<Rightarrow> stored_blob \<Rightarrow> unit disk_io" where
  "removePublishedBlob e blob =
     bindS (assertBlobDirectories e (sb_digest blob)) (\<lambda>dir.
     let path = dir @ [sb_digest blob] in
     bindS (tryReadVerifiedFile e path (sb_digest blob) (sb_sizeBytes blob)) (\<lambda>present.
     if \<not> present then returnS () else bindS (fs_unlink e path) (\<lambda>_. syncDirectory e)))"

text \<open>The callback: it persists, is rejected before it committed, or throws anything else.\<close>

datatype 'a persist_result = Persisted 'a | Persist_rejected | Persist_throws

definition withPublishedBlob :: "blob_env \<Rightarrow> string \<Rightarrow> (stored_blob \<Rightarrow> 'a persist_result) \<Rightarrow> 'a disk_io" where
  "withPublishedBlob e content persist =
     (if int (length content) < 1 \<or> int (length content) > MAX_BLOB_SIZE_BYTES then throwS Input_error
      else bindS (liftB (case contentHash (be_digest e content) of Inl c \<Rightarrow> Inl (Blob_value c) | Inr d \<Rightarrow> Inr d)) (\<lambda>digest.
        bindS (putStable e content digest) (\<lambda>blob. case persist blob of
          Persisted x \<Rightarrow> returnS x
        | Persist_throws \<Rightarrow> throwS Persist_other
        | Persist_rejected \<Rightarrow>
            if sb_created blob then
              bindS (attemptS (removePublishedBlob e blob)) (\<lambda>cleanupError.
                throwS (if cleanupError \<noteq> None then Aggregate else Persist_cause))
            else throwS Persist_cause)))"

section \<open>Reconciliation\<close>

record sweep =
  sp_temporaries :: "string list"
  sp_orphans :: "string list"
  sp_corrupt :: "string list"
  sp_present :: "string list"

definition relativePathForEntry :: "string \<Rightarrow> string \<Rightarrow> string \<Rightarrow> string" where
  "relativePathForEntry first second name = join ''/'' [SHA256_DIRECTORY, first, second, name]"

definition is_regular :: "entry \<Rightarrow> bool" where
  "is_regular x \<longleftrightarrow> (case x of Regular _ \<Rightarrow> True | _ \<Rightarrow> False)"

definition visit_file :: "blob_env \<Rightarrow> expected_blob list \<Rightarrow> string \<Rightarrow> string \<Rightarrow> string \<Rightarrow> sweep \<Rightarrow> sweep disk_io" where
  "visit_file e expected first second name sw =
     (let path = [SHA256_DIRECTORY, first, second, name]; relative = relativePathForEntry first second name in
      if starts_with TEMPORARY_PREFIX name then
        (if \<not> BLOB_UUID_PATTERN (drop (length TEMPORARY_PREFIX) name) then throwS Store_error
         else bindS (lstat e path) (\<lambda>metadata.
           if \<not> is_regular metadata then throwS Store_error
           else bindS (fs_unlink e path) (\<lambda>_. bindS (syncDirectory e) (\<lambda>_.
             returnS (sw\<lparr>sp_temporaries := sp_temporaries sw @ [relative]\<rparr>)))))
      else if \<not> DIGEST_PATTERN name then throwS Store_error
      else if take 2 name \<noteq> first \<or> take 2 (drop 2 name) \<noteq> second then throwS Store_error
      else bindS (lstat e path) (\<lambda>metadata.
        if \<not> is_regular metadata then throwS Store_error
        else case js_map eb_digest expected name of
          None \<Rightarrow> bindS (fs_unlink e path) (\<lambda>_. bindS (syncDirectory e) (\<lambda>_.
            returnS (sw\<lparr>sp_orphans := sp_orphans sw @ [relative]\<rparr>)))
        | Some x \<Rightarrow>
            catchS (bindS (readVerifiedFile e path (eb_digest x) (eb_sizeBytes x)) (\<lambda>_.
              returnS (sw\<lparr>sp_present := sp_present sw @ [eb_digest x]\<rparr>)))
              (\<lambda>err. case err of
                Corrupt _ \<Rightarrow> returnS (sw\<lparr>sp_corrupt := sp_corrupt sw @ [eb_digest x]\<rparr>)
              | _ \<Rightarrow> if is_missing err then returnS sw else throwS err)))"

fun visit_files :: "blob_env \<Rightarrow> expected_blob list \<Rightarrow> string \<Rightarrow> string \<Rightarrow> (string \<times> entry) list \<Rightarrow> sweep \<Rightarrow> sweep disk_io" where
  "visit_files e expected first second [] sw = returnS sw"
| "visit_files e expected first second ((name, x) # rest) sw =
     bindS (visit_file e expected first second name sw) (visit_files e expected first second rest)"

text \<open>A directory of the two levels below \<open>sha256\<close>: its name is a prefix and it is a directory.\<close>

definition check_prefix :: "blob_env \<Rightarrow> string list \<Rightarrow> string \<times> entry \<Rightarrow> unit disk_io" where
  "check_prefix e parent found =
     (if snd found \<noteq> Directory then throwS Store_error
      else if \<not> PREFIX_PATTERN (fst found) then throwS Store_error
      else assertDirectory e (parent @ [fst found]))"

definition sorted_entries :: "blob_env \<Rightarrow> string list \<Rightarrow> (string \<times> entry) list disk_io" where
  "sorted_entries e p = bindS (readdir e p) (\<lambda>entries. returnS (sort_key fst entries))"

fun visit_seconds :: "blob_env \<Rightarrow> expected_blob list \<Rightarrow> string \<Rightarrow> (string \<times> entry) list \<Rightarrow> sweep \<Rightarrow> sweep disk_io" where
  "visit_seconds e expected first [] sw = returnS sw"
| "visit_seconds e expected first (found # rest) sw =
     bindS (check_prefix e [SHA256_DIRECTORY, first] found) (\<lambda>_.
     bindS (sorted_entries e [SHA256_DIRECTORY, first, fst found]) (\<lambda>files.
     bindS (visit_files e expected first (fst found) files sw) (visit_seconds e expected first rest)))"

fun visit_firsts :: "blob_env \<Rightarrow> expected_blob list \<Rightarrow> (string \<times> entry) list \<Rightarrow> sweep \<Rightarrow> sweep disk_io" where
  "visit_firsts e expected [] sw = returnS sw"
| "visit_firsts e expected (found # rest) sw =
     bindS (check_prefix e [SHA256_DIRECTORY] found) (\<lambda>_.
     bindS (sorted_entries e [SHA256_DIRECTORY, fst found]) (\<lambda>seconds.
     bindS (visit_seconds e expected (fst found) seconds sw) (visit_firsts e expected rest)))"

fun conflicting_sizes :: "expected_blob list \<Rightarrow> expected_blob list \<Rightarrow> bool" where
  "conflicting_sizes seen [] = False"
| "conflicting_sizes seen (x # xs) =
     ((case js_map eb_digest seen (eb_digest x) of None \<Rightarrow> False | Some prior \<Rightarrow> eb_sizeBytes prior \<noteq> eb_sizeBytes x) \<or>
      conflicting_sizes (seen @ [x]) xs)"

definition unique_sorted :: "string list \<Rightarrow> string list" where
  "unique_sorted xs = sort (dedupe_from [] xs)"

definition reconcile :: "blob_env \<Rightarrow> expected_blob list \<Rightarrow> blob_reconciliation disk_io" where
  "reconcile e expected =
     bindS (liftB (mapE normalizeExpectedBlob expected)) (\<lambda>normalized.
     bindS (ensureDirectory e [] True) (\<lambda>_.
     bindS (ensureDirectory e [SHA256_DIRECTORY] True) (\<lambda>_.
     bindS (readdir e []) (\<lambda>rootEntries.
     if \<not> list_all (\<lambda>(name, x). name = SHA256_DIRECTORY \<and> x = Directory) rootEntries then throwS Store_error
     else if conflicting_sizes [] normalized then throwS Store_error
     else bindS (sorted_entries e [SHA256_DIRECTORY]) (\<lambda>firsts.
       bindS (visit_firsts e normalized firsts \<lparr>sp_temporaries = [], sp_orphans = [], sp_corrupt = [], sp_present = []\<rparr>) (\<lambda>sw.
       returnS \<lparr>br_removedTemporaryPaths = unique_sorted (sp_temporaries sw),
         br_removedOrphanPaths = unique_sorted (sp_orphans sw),
         br_missingDigests = unique_sorted (filter (\<lambda>d. d \<notin> set (sp_present sw) \<and> d \<notin> set (sp_corrupt sw)) (map eb_digest normalized)),
         br_corruptDigests = unique_sorted (sp_corrupt sw)\<rparr>))))))"

section \<open>Triples\<close>

text \<open>
  What an operation makes of the entries of the disk: from \<open>P\<close>, a returned value satisfies \<open>Q\<close>; an exception,
  or the end of the process, leaves \<open>E\<close>. Calls that do not touch the entries satisfy every triple.
\<close>

type_synonym entries = "(string list \<times> entry) list"

definition triple :: "(entries \<Rightarrow> bool) \<Rightarrow> 'a disk_io \<Rightarrow> ('a \<Rightarrow> entries \<Rightarrow> bool) \<Rightarrow> (entries \<Rightarrow> bool) \<Rightarrow> bool" where
  "triple P m Q E \<longleftrightarrow> (\<forall>s. P (dk_entries s) \<longrightarrow> (case m s of
      (Inl x, s') \<Rightarrow> E (dk_entries s') | (Inr y, s') \<Rightarrow> Q y (dk_entries s')))"

definition keeps :: "(entries \<Rightarrow> bool) \<Rightarrow> 'a disk_io \<Rightarrow> bool" where
  "keeps P m \<longleftrightarrow> triple P m (\<lambda>_. P) P"

lemma disk_keepsD: "keeps P m \<Longrightarrow> P (dk_entries s) \<Longrightarrow> m s = (r, s') \<Longrightarrow> P (dk_entries s')"
  by (cases r) (fastforce simp: keeps_def triple_def)+

lemma keeps_triple: "keeps P m \<Longrightarrow> (\<And>d. P' d \<Longrightarrow> P d) \<Longrightarrow> (\<And>y d. P d \<Longrightarrow> Q y d) \<Longrightarrow> (\<And>d. P d \<Longrightarrow> E d) \<Longrightarrow> triple P' m Q E"
  by (auto simp: keeps_def triple_def split: prod.splits sum.splits) (metis sum.case prod.case)+

named_theorems triple_intro "rules that take an operation apart"

lemma tripleI: "(\<And>s x s'. P (dk_entries s) \<Longrightarrow> m s = (Inl x, s') \<Longrightarrow> E (dk_entries s')) \<Longrightarrow>
    (\<And>s y s'. P (dk_entries s) \<Longrightarrow> m s = (Inr y, s') \<Longrightarrow> Q y (dk_entries s')) \<Longrightarrow> triple P m Q E"
  by (fastforce simp: triple_def split: prod.splits sum.splits)

lemma tripleD:
  assumes "triple P m Q E" "P (dk_entries s)"
  shows "m s = (Inl x, s') \<Longrightarrow> E (dk_entries s')" "m s = (Inr y, s') \<Longrightarrow> Q y (dk_entries s')"
  using assms by (fastforce simp: triple_def)+

lemma triple_weaken: "triple P m Q E \<Longrightarrow> (\<And>d. P' d \<Longrightarrow> P d) \<Longrightarrow> (\<And>y d. Q y d \<Longrightarrow> Q' y d) \<Longrightarrow> (\<And>d. E d \<Longrightarrow> E' d) \<Longrightarrow>
    triple P' m Q' E'"
  unfolding triple_def by (fastforce split: prod.splits sum.splits)

lemma triple_bind: "triple P m Q E \<Longrightarrow> (\<And>x. triple (Q x) (f x) R E) \<Longrightarrow> triple P (bindS m f) R E"
  by (rule tripleI) (auto simp: bindS_def dest: tripleD split: prod.splits sum.splits)

lemma triple_catch:
  assumes "triple P m Q F" "\<And>x. triple F (h x) Q E" "\<And>d. F d \<Longrightarrow> E d"
  shows "triple P (catchS m h) Q E"
proof (rule tripleI)
  fix s s' :: disk and x
  assume P: "P (dk_entries s)"
  note m = tripleD [OF assms(1), of s, OF P]
  { assume "catchS m h s = (Inl x, s')"
    then obtain x1 s1 where s1: "m s = (Inl x1, s1)" "x1 = Crashed \<and> s' = s1 \<or> h x1 s1 = (Inl x, s')"
      by (auto simp: catchS_def split: prod.splits sum.splits if_splits)
    then show "E (dk_entries s')" using m(1) assms(3) tripleD(1) [OF assms(2)] by blast }
  { fix y assume "catchS m h s = (Inr y, s')"
    then have "m s = (Inr y, s') \<or> (\<exists>x1 s1. m s = (Inl x1, s1) \<and> h x1 s1 = (Inr y, s'))"
      by (auto simp: catchS_def split: prod.splits sum.splits if_splits)
    then show "Q y (dk_entries s')" using m tripleD(2) [OF assms(2)] by blast }
qed

lemma bindS_assoc: "bindS (bindS m f) g = bindS m (\<lambda>x. bindS (f x) g)"
  by (auto simp: bindS_def fun_eq_iff split: prod.splits sum.splits)

lemma triple_return: "(\<And>d. P d \<Longrightarrow> Q x d) \<Longrightarrow> triple P (returnS x) Q E"
  by (simp add: triple_def returnS_def)

lemma triple_throw: "(\<And>d. P d \<Longrightarrow> E d) \<Longrightarrow> triple P (throwS x) Q E"
  by (simp add: triple_def throwS_def)

lemma triple_if: "(b \<Longrightarrow> triple P m Q E) \<Longrightarrow> (\<not> b \<Longrightarrow> triple P m' Q E) \<Longrightarrow> triple P (if b then m else m') Q E"
  by simp

lemma triple_syscall: "(\<And>d. P d \<Longrightarrow> E d) \<Longrightarrow> triple P op Q E \<Longrightarrow> triple P (syscall e op) Q E"
  by (auto simp: triple_def syscall_def Let_def split: fate.splits)

lemma keeps_bind [triple_intro]: "keeps P m \<Longrightarrow> (\<And>x. keeps P (f x)) \<Longrightarrow> keeps P (bindS m f)"
  unfolding keeps_def by (rule triple_bind)

lemma keeps_catch [triple_intro]: "keeps P m \<Longrightarrow> (\<And>x. keeps P (h x)) \<Longrightarrow> keeps P (catchS m h)"
  unfolding keeps_def by (rule triple_catch) auto

lemma keeps_return [triple_intro]: "keeps P (returnS x)"
  unfolding keeps_def by (rule triple_return)

lemma keeps_throw [triple_intro]: "keeps P (throwS x)"
  unfolding keeps_def by (rule triple_throw)

lemma disk_keeps_if [triple_intro]: "keeps P m \<Longrightarrow> keeps P m' \<Longrightarrow> keeps P (if b then m else m')"
  by simp

lemma keeps_syscall: "keeps P op \<Longrightarrow> keeps P (syscall e op)"
  unfolding keeps_def by (rule triple_syscall) auto

lemma keeps_attempt [triple_intro]: "keeps P m \<Longrightarrow> keeps P (attemptS m)"
  unfolding attemptS_def by (intro triple_intro)

lemma keeps_finally [triple_intro]: "keeps P m \<Longrightarrow> keeps P c \<Longrightarrow> keeps P (finallyS m c)"
  unfolding finallyS_def by (intro triple_intro)

lemma keeps_liftB [triple_intro]: "keeps P (liftB m)"
  by (simp add: keeps_def triple_def liftB_def split: sum.splits)

lemma keeps_query: "keeps P (syscall e (\<lambda>s. (f s, s)))"
  by (rule keeps_syscall) (simp add: keeps_def triple_def split: sum.splits)

lemma keeps_touch [triple_intro]: "keeps P (touch e)"
  unfolding touch_def by (intro keeps_syscall triple_intro)

lemma keeps_lstat [triple_intro]: "keeps P (lstat e p)"
  unfolding lstat_def by (rule keeps_query)

lemma keeps_open_read [triple_intro]: "keeps P (open_read e p)"
  unfolding open_read_def by (rule keeps_query)

lemma keeps_readdir [triple_intro]: "keeps P (readdir e p)"
  unfolding readdir_def by (rule keeps_query)

lemma keeps_storedBlob [triple_intro]: "keeps P (storedBlob e digest bytes created)"
  by (simp add: keeps_def triple_def storedBlob_def)

lemma keeps_sync [triple_intro]: "keeps P (syncDirectory e)"
  unfolding syncDirectory_def by (intro triple_intro)

lemma keeps_verify [triple_intro]: "keeps P (verify_content e digest bytes content)"
  unfolding verify_content_def by (intro triple_intro)

lemma keeps_entry [triple_intro]: "(\<And>c. keeps P (f c)) \<Longrightarrow> keeps P m \<Longrightarrow> keeps P m' \<Longrightarrow> keeps P m'' \<Longrightarrow>
    keeps P (case x of Regular c \<Rightarrow> f c | Directory \<Rightarrow> m | Symlink \<Rightarrow> m' | Special \<Rightarrow> m'')"
  by (cases x) auto

lemma keeps_read [triple_intro]: "keeps P (readVerifiedFile e p digest bytes)"
  unfolding readVerifiedFile_def by (intro triple_intro)

lemma keeps_tryRead [triple_intro]: "keeps P (tryReadVerifiedFile e p digest bytes)"
  unfolding tryReadVerifiedFile_def by (intro triple_intro)

lemma keeps_assert [triple_intro]: "keeps P (assertDirectory e p)"
  unfolding assertDirectory_def by (intro triple_intro)

lemma keeps_assertAll [triple_intro]: "keeps P (assertBlobDirectories e digest)"
  unfolding assertBlobDirectories_def by (intro triple_intro)

lemma keeps_conj: "keeps P m \<Longrightarrow> triple P' m Q E \<Longrightarrow> triple (\<lambda>d. P d \<and> P' d) m (\<lambda>y d. P d \<and> Q y d) (\<lambda>d. P d \<and> E d)"
  unfolding keeps_def triple_def by (fastforce split: prod.splits sum.splits)

text \<open>The calls that change an entry.\<close>

lemma map_of_filter_key: "map_of (filter (\<lambda>(q, x). K q) d) p = (if K p then map_of d p else None)"
  by (induction d) auto

lemma map_of_dropped [simp]: "map_of (filter (\<lambda>(q, x). q \<noteq> p) d) q = (if q = p then None else map_of d q)"
  using map_of_filter_key [of "\<lambda>q. q \<noteq> p" d q] by simp

lemma entry_ops [simp]:
  "dk_entries (add_entry p x s) = (p, x) # dk_entries s"
  "dk_entries (drop_entry p s) = filter (\<lambda>(q, x). q \<noteq> p) (dk_entries s)"
  "entry_at q (add_entry p x s) = (if q = p then Some x else entry_at q s)"
  "entry_at q (drop_entry p s) = (if q = p then None else entry_at q s)"
  by (simp_all add: add_entry_def drop_entry_def entry_at_def)

lemma keeps_create:
  assumes "\<And>d. P d \<Longrightarrow> map_of d p = None \<Longrightarrow> P ((p, x) # d)"
  shows "keeps P (syscall e (\<lambda>s. case entry_at p s of None \<Rightarrow> (Inr (), add_entry p x s) | Some _ \<Rightarrow> (Inl (Errno EEXIST), s)))"
  using assms by (intro keeps_syscall) (auto simp: keeps_def triple_def entry_at_def split: option.splits)

lemma keeps_mkdir: "(\<And>d. P d \<Longrightarrow> map_of d p = None \<Longrightarrow> P ((p, Directory) # d)) \<Longrightarrow> keeps P (fs_mkdir e p)"
  unfolding fs_mkdir_def by (rule keeps_create)

lemma keeps_open_new: "(\<And>d. P d \<Longrightarrow> map_of d p = None \<Longrightarrow> P ((p, Regular []) # d)) \<Longrightarrow> keeps P (open_new e p)"
  unfolding open_new_def by (rule keeps_create)

lemma keeps_unlink: "(\<And>d. P d \<Longrightarrow> P (filter (\<lambda>(q, x). q \<noteq> p) d)) \<Longrightarrow> keeps P (fs_unlink e p)"
  unfolding fs_unlink_def
  by (intro keeps_syscall) (auto simp: keeps_def triple_def entry_at_def split: option.splits entry.splits)

lemma keeps_write: "(\<And>d c. P d \<Longrightarrow> P ((p, Regular c) # filter (\<lambda>(q, x). q \<noteq> p) d)) \<Longrightarrow> keeps P (write_file e p content)"
  by (auto simp: keeps_def triple_def write_file_def Let_def split: fate.splits)

lemma write_contents: "triple P (write_file e p content) (\<lambda>_ d. map_of d p = Some (Regular content)) (\<lambda>_. True)"
  by (auto simp: triple_def write_file_def Let_def split: fate.splits)

lemma link_entries:
  assumes "\<And>d x. P d \<Longrightarrow> map_of d p = Some x \<Longrightarrow> map_of d q = None \<Longrightarrow> Q ((q, x) # d)"
  shows "triple P (fs_link e p q) (\<lambda>_. Q) P"
  unfolding fs_link_def
  by (rule triple_syscall) (use assms in \<open>auto simp: triple_def entry_at_def split: option.splits\<close>)

lemma lstat_entry: "triple P (lstat e p) (\<lambda>x d. P d \<and> map_of d p = Some x) P"
  unfolding lstat_def by (rule triple_syscall) (auto simp: triple_def entry_at_def split: option.splits)

lemma finally_value: "finallyS m c s = (Inr y, s') \<Longrightarrow> \<exists>s1. m s = (Inr y, s1)"
  by (auto simp: finallyS_def bindS_def catchS_def returnS_def throwS_def split: prod.splits sum.splits if_splits)

text \<open>What a verified read has seen.\<close>

definition verified :: "blob_env \<Rightarrow> string \<Rightarrow> int \<Rightarrow> string \<Rightarrow> bool" where
  "verified e digest bytes c \<longleftrightarrow> be_digest e c = digest \<and> int (length c) = bytes \<and> 1 \<le> bytes \<and> bytes \<le> MAX_BLOB_SIZE_BYTES"

lemma read_sees:
  "triple P (readVerifiedFile e p digest bytes) (\<lambda>c d. P d \<and> map_of d p = Some (Regular c) \<and> verified e digest bytes c) P"
proof (rule tripleI)
  fix s x s' assume "P (dk_entries s)" "readVerifiedFile e p digest bytes s = (Inl x, s')"
  then show "P (dk_entries s')" by (rule disk_keepsD [OF keeps_read])
next
  fix s c s' assume P: "P (dk_entries s)" and r: "readVerifiedFile e p digest bytes s = (Inr c, s')"
  have same: "dk_entries s' = dk_entries s"
    using disk_keepsD [OF keeps_read, where P="\<lambda>d. d = dk_entries s", OF refl r] .
  obtain x s1 where open_: "open_read e p s = (Inr x, s1)"
      and rest: "finallyS (bindS (touch e) (\<lambda>_. case x of Regular content \<Rightarrow> verify_content e digest bytes content
        | _ \<Rightarrow> throwS Non_regular)) (touch e) s1 = (Inr c, s')"
    using r by (auto simp: readVerifiedFile_def res_simps)
  from open_ have x: "map_of (dk_entries s) p = Some x"
    by (auto simp: open_read_def syscall_def Let_def entry_at_def split: fate.splits option.splits entry.splits)
  from finally_value [OF rest] have "x = Regular c \<and> verified e digest bytes c"
    by (auto simp: res_simps verify_content_def verified_def Suc_le_eq split: entry.splits if_splits)
  then show "P (dk_entries s') \<and> map_of (dk_entries s') p = Some (Regular c) \<and> verified e digest bytes c"
    using P x same by simp
qed

lemma liftB_bind: "bindS (liftB (Inr x)) f = f x"
  by (simp add: fun_eq_iff bindS_def liftB_def)

section \<open>The contract of publication\<close>

text \<open>The directories that hold a blob, and the temporaries beside it.\<close>

definition ancestors :: "string \<Rightarrow> string list set" where
  "ancestors digest = {[], [SHA256_DIRECTORY], [SHA256_DIRECTORY, take 2 digest], blob_directory digest}"

definition final_path :: "string \<Rightarrow> string list" where
  "final_path digest = blob_directory digest @ [digest]"

definition temporary_of :: "string \<Rightarrow> string list \<Rightarrow> bool" where
  "temporary_of digest p \<longleftrightarrow> (\<exists>f. BLOB_UUID_PATTERN f \<and> p = blob_directory digest @ [TEMPORARY_PREFIX @ f])"

definition directories_exist :: "string list set \<Rightarrow> entries \<Rightarrow> bool" where
  "directories_exist A d \<longleftrightarrow> (\<forall>q\<in>A. map_of d q = Some Directory)"

lemma ancestor_paths: "p \<in> ancestors digest \<Longrightarrow> length p \<le> 3 \<and> butlast p \<in> ancestors digest"
  by (auto simp: ancestors_def blob_directory_def)

lemma long_paths: "length (final_path digest) = 4" "temporary_of digest p \<Longrightarrow> length p = 4"
  by (auto simp: final_path_def temporary_of_def blob_directory_def)

lemma not_ancestor: "length p = 4 \<Longrightarrow> q \<in> ancestors digest \<Longrightarrow> q \<noteq> p"
  using ancestor_paths [of q digest] by auto

lemma digest_not_temporary:
  assumes "contentHashPattern digest" shows "\<not> starts_with TEMPORARY_PREFIX digest" "\<not> temporary_of digest (final_path digest)"
proof -
  have "list_all hex_digit digest" "length digest = 64" using assms by (simp_all add: contentHashPattern_def fits_replicate)
  then show "\<not> starts_with TEMPORARY_PREFIX digest"
    by (cases digest) (auto simp: TEMPORARY_PREFIX_def starts_with_def hex_digit_def)
  then show "\<not> temporary_of digest (final_path digest)"
    by (auto simp: temporary_of_def final_path_def TEMPORARY_PREFIX_def starts_with_def)
qed

definition with_dirs :: "(entries \<Rightarrow> bool) \<Rightarrow> string list set \<Rightarrow> entries \<Rightarrow> bool" where
  "with_dirs R A d \<longleftrightarrow> R d \<and> directories_exist A d"

definition holds :: "string \<Rightarrow> string \<Rightarrow> blob_env \<Rightarrow> entries \<Rightarrow> bool" where
  "holds digest content e d \<longleftrightarrow> (\<exists>c. map_of d (final_path digest) = Some (Regular c) \<and> verified e digest (int (length content)) c)"

text \<open>
  What a publication asks of a property of the disk to keep it: \<open>P\<close> before the blob has its name, \<open>P'\<close> once it has.
\<close>

locale publication_invariant =
  fixes P P' :: "entries \<Rightarrow> bool" and digest content :: string
  assumes pattern: "P d \<Longrightarrow> contentHashPattern digest"
    and mkdir: "P d \<Longrightarrow> map_of d p = None \<Longrightarrow> p \<in> ancestors digest \<Longrightarrow> p = [] \<or> map_of d (butlast p) = Some Directory \<Longrightarrow>
      P ((p, Directory) # d)"
    and temporary: "P d \<Longrightarrow> directories_exist (ancestors digest) d \<Longrightarrow> temporary_of digest p \<Longrightarrow>
      P ((p, Regular c) # filter (\<lambda>(q, x). q \<noteq> p) d)"
    and removed: "P d \<Longrightarrow> temporary_of digest p \<Longrightarrow> P (filter (\<lambda>(q, x). q \<noteq> p) d)"
    and linked: "P d \<Longrightarrow> directories_exist (ancestors digest) d \<Longrightarrow> map_of d (final_path digest) = None \<Longrightarrow>
      P' ((final_path digest, Regular content) # d)"
    and removed': "P' d \<Longrightarrow> temporary_of digest p \<Longrightarrow> P' (filter (\<lambda>(q, x). q \<noteq> p) d)"
    and withdrawn: "P' d \<Longrightarrow> P' (filter (\<lambda>(q, x). q \<noteq> final_path digest) d)"
    and weaker: "P' d \<Longrightarrow> P d"
begin

abbreviation dirs :: "entries \<Rightarrow> bool" where "dirs \<equiv> directories_exist (ancestors digest)"

lemma created_dirs: "directories_exist A d \<Longrightarrow> map_of d p = None \<Longrightarrow> directories_exist A ((p, Directory) # d)"
  by (auto simp: directories_exist_def)

lemma file_dirs: "length p = 4 \<Longrightarrow> dirs ((p, x) # d) = dirs d" "length p = 4 \<Longrightarrow> dirs (filter (\<lambda>(q, x). q \<noteq> p) d) = dirs d"
  using not_ancestor [of p] by (auto simp: directories_exist_def)

lemma make_directory_keeps:
  assumes "p \<in> ancestors digest" "p = [] \<or> butlast p \<in> A"
  shows "keeps (with_dirs P A) (make_directory e p)"
proof -
  have "with_dirs P A ((p, Directory) # d)" if "with_dirs P A d" "map_of d p = None" for d
    using that assms mkdir [of d p] created_dirs by (auto simp: with_dirs_def directories_exist_def)
  then show ?thesis unfolding make_directory_def by (intro triple_intro keeps_mkdir)
qed

lemma ensure_keeps:
  "p \<in> ancestors digest \<Longrightarrow> triple (with_dirs P A) (ensureDirectory e p secure) (\<lambda>_. with_dirs P (insert p A)) P"
proof (induction e p secure arbitrary: A rule: ensureDirectory.induct)
  case (1 e p secure)
  let ?A = "if p = [] then A else insert (butlast p) A"
  have first: "triple (with_dirs P A) (lstat e p) (\<lambda>x d. with_dirs P A d \<and> map_of d p = Some x) (with_dirs P A)"
    by (rule lstat_entry)
  have parent: "triple (with_dirs P A) (if p = [] then touch e else ensureDirectory e (butlast p) False) (\<lambda>_. with_dirs P ?A) P"
  proof (cases "p = []")
    case True
    have "triple (with_dirs P A) (touch e) (\<lambda>_. with_dirs P A) P"
      by (rule keeps_triple [OF keeps_touch [of "with_dirs P A"]]) (auto simp: with_dirs_def)
    then show ?thesis using True by simp
  next
    case False
    then show ?thesis using "1.IH" [of "Errno ENOENT" A] "1.prems" ancestor_paths by (auto simp: is_missing_def)
  qed
  have made: "triple (with_dirs P ?A) (make_directory e p) (\<lambda>_. with_dirs P ?A) P"
    by (rule keeps_triple [OF make_directory_keeps [OF "1.prems", of ?A]]) (auto simp: with_dirs_def)
  have again: "triple (with_dirs P ?A) (lstat e p) (\<lambda>x d. with_dirs P A d \<and> map_of d p = Some x) P"
    by (rule triple_weaken [OF lstat_entry [of "with_dirs P ?A"]]) (auto simp: with_dirs_def directories_exist_def split: if_splits)
  have handler: "triple (with_dirs P A) (if \<not> is_missing x then throwS x
       else bindS (if p = [] then touch e else ensureDirectory e (butlast p) False) (\<lambda>_.
            bindS (make_directory e p) (\<lambda>_. lstat e p))) (\<lambda>x d. with_dirs P A d \<and> map_of d p = Some x) P" for x
    by (intro triple_if triple_throw triple_bind [OF parent] triple_bind [OF made] again) (simp add: with_dirs_def)
  have tail: "triple (\<lambda>d. with_dirs P A d \<and> map_of d p = Some x) (if x \<noteq> Directory then throwS Store_error
     else if secure then touch e else returnS ()) (\<lambda>_. with_dirs P (insert p A)) P" for x
  proof (cases "x = Directory")
    case True
    have "keeps (with_dirs P (insert p A)) (if secure then touch e else returnS ())" by (intro triple_intro)
    then have "triple (\<lambda>d. with_dirs P A d \<and> map_of d p = Some x) (if secure then touch e else returnS ())
        (\<lambda>_. with_dirs P (insert p A)) P"
      by (rule keeps_triple) (auto simp: with_dirs_def directories_exist_def True)
    then show ?thesis using True by simp
  next
    case False
    then show ?thesis by (auto intro!: triple_throw simp: with_dirs_def)
  qed
  show ?case unfolding ensureDirectory.simps [of e p secure]
    by (rule triple_bind [OF triple_catch [OF first handler] tail]) (simp add: with_dirs_def)
qed

abbreviation before :: "entries \<Rightarrow> bool" where "before \<equiv> with_dirs P (ancestors digest)"

abbreviation named :: "entries \<Rightarrow> bool" where "named \<equiv> with_dirs P' (ancestors digest)"

lemma named_before: "named d \<Longrightarrow> before d"
  by (simp add: with_dirs_def weaker)

lemma before_P: "before d \<Longrightarrow> P d"
  by (simp add: with_dirs_def)

lemma filter_absent: "map_of d p = None \<Longrightarrow> filter (\<lambda>(q, x). q \<noteq> p) d = d"
  by (induction d) (auto split: if_splits)

lemma final_not_temporary: "P d \<Longrightarrow> temporary_of digest p \<Longrightarrow> p \<noteq> final_path digest"
  using digest_not_temporary(2) [OF pattern] by blast

lemma holds_without: "P d \<Longrightarrow> temporary_of digest p \<Longrightarrow> holds digest content e (filter (\<lambda>(q, x). q \<noteq> p) d) = holds digest content e d"
  using final_not_temporary [of d p] by (auto simp: holds_def)

lemma keeps_temporary_unlink [triple_intro]:
  assumes "temporary_of digest p"
  shows "keeps before (fs_unlink e p)" "keeps named (fs_unlink e p)"
    "keeps (\<lambda>d. before d \<and> holds digest content e' d) (fs_unlink e p)" "keeps (\<lambda>d. named d \<and> holds digest content e' d) (fs_unlink e p)"
  using assms long_paths(2) [OF assms]
  by (auto intro!: keeps_unlink simp: with_dirs_def file_dirs holds_without weaker intro: removed removed')

lemma open_new_keeps: "temporary_of digest p \<Longrightarrow> keeps before (open_new e p)"
  using temporary long_paths(2) by (auto intro!: keeps_open_new simp: with_dirs_def file_dirs) (metis filter_absent)

lemma create_temporary_triple:
  "triple before (create_temporary e k (blob_directory digest)) (\<lambda>path d. before d \<and> temporary_of digest path) P"
proof -
  have main: "before (dk_entries s) \<Longrightarrow> create_temporary e k (blob_directory digest) s = (r, s') \<Longrightarrow>
      before (dk_entries s') \<and> (\<forall>path. r = Inr path \<longrightarrow> temporary_of digest path)" for s r s'
  proof (induction e k "blob_directory digest" arbitrary: s rule: create_temporary.induct)
    case (1 e)
    then show ?case by (simp add: throwS_iff)
  next
    case (2 e k)
    let ?fresh = "be_ids e (dk_ids s)" and ?s1 = "s\<lparr>dk_ids := Suc (dk_ids s)\<rparr>"
    let ?path = "blob_directory digest @ [TEMPORARY_PREFIX @ ?fresh]"
    show ?case
    proof (cases "BLOB_UUID_PATTERN ?fresh")
      case False
      then show ?thesis using 2 by auto
    next
      case True
      then have t: "temporary_of digest ?path" by (auto simp: temporary_of_def)
      obtain r1 s2 where o: "open_new e ?path ?s1 = (r1, s2)" by fastforce
      have b: "before (dk_entries s2)" using disk_keepsD [OF open_new_keeps [OF t] _ o] 2(2) by simp
      then show ?thesis using 2 True o t by (auto split: sum.splits if_splits)
    qed
  qed
  show ?thesis
    by (rule tripleI) (use main before_P in blast)+
qed

lemma write_triple:
  assumes "temporary_of digest p"
  shows "triple before (write_temporary e p content) (\<lambda>_ d. before d \<and> map_of d p = Some (Regular content)) before"
proof -
  have "keeps before (write_file e p content)"
    using assms temporary long_paths(2) by (intro keeps_write) (auto simp: with_dirs_def file_dirs)
  from keeps_conj [OF this write_contents [of "\<lambda>_. True"]]
  have "triple before (write_file e p content) (\<lambda>_ d. before d \<and> map_of d p = Some (Regular content)) before" by simp
  moreover have "triple (\<lambda>d. before d \<and> map_of d p = Some (Regular content)) (bindS (touch e) (\<lambda>_. touch e))
      (\<lambda>_ d. before d \<and> map_of d p = Some (Regular content)) before"
    by (rule keeps_triple [of "\<lambda>d. before d \<and> map_of d p = Some (Regular content)"]) (auto intro!: triple_intro)
  ultimately show ?thesis unfolding write_temporary_def by (rule triple_bind)
qed

lemma keeps_remove_temporary [triple_intro]:
  "temporary_of digest p \<Longrightarrow> keeps before (removeTemporaryAfterFailure e p)"
  unfolding removeTemporaryAfterFailure_def by (intro triple_intro)

lemma keeps_clean_up [triple_intro]: "temporary_of digest p \<Longrightarrow> keeps before (clean_up e b p x)"
  unfolding clean_up_def by (intro triple_intro)

lemma clean_up_fails: "temporary_of digest p \<Longrightarrow> triple before (clean_up e b p x) Q P"
  by (rule tripleI) (auto dest: disk_keepsD [OF keeps_clean_up] before_P simp: clean_up_def res_simps)

lemma keeps_withdraw [triple_intro]: "keeps named (withdraw e (final_path digest) digest bytes)"
proof -
  have "keeps named (fs_unlink e (final_path digest))"
    using withdrawn long_paths(1) by (intro keeps_unlink) (auto simp: with_dirs_def file_dirs)
  then show ?thesis unfolding withdraw_def
    by (intro keeps_catch keeps_bind keeps_read keeps_return disk_keeps_if keeps_sync)
qed

definition published :: "blob_env \<Rightarrow> stored_blob \<Rightarrow> entries \<Rightarrow> bool" where
  "published e b d \<longleftrightarrow> (if sb_created b then named d else before d) \<and> holds digest content e d \<and> sb_digest b = digest"

lemma stored_published:
  "triple (\<lambda>d. (if created then named d else before d) \<and> holds digest content e d) (storedBlob e digest bytes created) (published e) E"
  by (auto simp: triple_def storedBlob_def published_def)

lemma finish_published:
  assumes "temporary_of digest p"
  shows "triple (\<lambda>d. (if created then named d else before d) \<and> holds digest content e d)
    (bindS (fs_unlink e p) (\<lambda>_. bindS (syncDirectory e) (\<lambda>_. storedBlob e digest bytes created))) (published e) before"
proof -
  let ?R = "\<lambda>d. (if created then named d else before d) \<and> holds digest content e d"
  have "keeps ?R (bindS (fs_unlink e p) (\<lambda>_. syncDirectory e))"
    using assms by (cases created) (auto intro!: triple_intro)
  then have "triple ?R (bindS (bindS (fs_unlink e p) (\<lambda>_. syncDirectory e)) (\<lambda>_. storedBlob e digest bytes created)) (published e) before"
    by (intro triple_bind [OF keeps_triple [of ?R _ ?R "\<lambda>_. ?R"] stored_published])
      (auto dest: named_before split: if_splits)
  then show ?thesis by (simp only: bindS_assoc)
qed

lemma read_final:
  "triple R (readVerifiedFile e (final_path digest) digest (int (length content))) (\<lambda>_ d. R d \<and> holds digest content e d) R"
  by (rule triple_weaken [OF read_sees]) (auto simp: holds_def)

lemma link_triple:
  assumes "temporary_of digest p"
  shows "triple (\<lambda>d. before d \<and> map_of d p = Some (Regular content))
    (catchS (bindS (fs_link e p (final_path digest)) (\<lambda>_. returnS True)) (\<lambda>x. if x = Errno EEXIST then returnS False else throwS x))
    (\<lambda>ok d. if ok then named d else before d) before"
proof -
  have "triple (\<lambda>d. before d \<and> map_of d p = Some (Regular content)) (fs_link e p (final_path digest)) (\<lambda>_. named)
      (\<lambda>d. before d \<and> map_of d p = Some (Regular content))"
    using linked long_paths(1) by (intro link_entries) (auto simp: with_dirs_def file_dirs)
  then have "triple (\<lambda>d. before d \<and> map_of d p = Some (Regular content)) (bindS (fs_link e p (final_path digest)) (\<lambda>_. returnS True))
      (\<lambda>ok d. if ok then named d else before d) (\<lambda>d. before d \<and> map_of d p = Some (Regular content))"
    by (rule triple_bind) (auto intro: triple_return)
  then show ?thesis by (rule triple_catch) (auto intro!: triple_if triple_return triple_throw)
qed

lemma publish_triple:
  assumes "temporary_of digest p"
  shows "triple (\<lambda>d. before d \<and> map_of d p = Some (Regular content))
    (publish e p (final_path digest) digest (int (length content))) (published e) before"
proof -
  have reused: "triple before (bindS (readVerifiedFile e (final_path digest) digest (int (length content))) (\<lambda>_.
       bindS (fs_unlink e p) (\<lambda>_. bindS (syncDirectory e) (\<lambda>_. storedBlob e digest (int (length content)) False)))) (published e) before"
    using finish_published [OF assms, of False] by (intro triple_bind [OF read_final]) simp
  have "triple named (bindS (readVerifiedFile e (final_path digest) digest (int (length content))) (\<lambda>_. returnS ()))
      (\<lambda>_ d. named d \<and> holds digest content e d) named"
    by (intro triple_bind [OF read_final] triple_return)
  then have checked: "triple named (catchS (bindS (readVerifiedFile e (final_path digest) digest (int (length content))) (\<lambda>_. returnS ()))
         (\<lambda>x. bindS (withdraw e (final_path digest) digest (int (length content))) (\<lambda>_. throwS x)))
      (\<lambda>_ d. named d \<and> holds digest content e d) before"
    by (rule triple_catch)
      (auto intro!: triple_bind [OF keeps_withdraw [unfolded keeps_def, THEN triple_weaken]] triple_throw simp: named_before)
  have new: "triple named (bindS (catchS (bindS (readVerifiedFile e (final_path digest) digest (int (length content))) (\<lambda>_. returnS ()))
         (\<lambda>x. bindS (withdraw e (final_path digest) digest (int (length content))) (\<lambda>_. throwS x))) (\<lambda>_.
       bindS (fs_unlink e p) (\<lambda>_. bindS (syncDirectory e) (\<lambda>_. storedBlob e digest (int (length content)) True)))) (published e) before"
    using finish_published [OF assms, of True] by (intro triple_bind [OF checked]) simp
  show ?thesis unfolding publish_def
    by (rule triple_bind [OF link_triple [OF assms]]) (use reused new in auto)
qed

lemma put_triple: "triple P (putStable e content digest) (published e) P"
proof -
  have root: "triple P (ensureDirectory e [] True) (\<lambda>_. with_dirs P {[]}) P"
    using ensure_keeps [of "[]" "{}" e True] by (auto simp: ancestors_def with_dirs_def [abs_def] directories_exist_def)
  have "triple (with_dirs P {[]}) (ensureBlobDirectories e digest) (\<lambda>dir d. before d \<and> dir = blob_directory digest) P"
    unfolding ensureBlobDirectories_def
    by (intro triple_bind [OF ensure_keeps] triple_return) (auto simp: ancestors_def insert_commute)
  note dirs_made = this
  have tail: "triple before (bindS (create_temporary e (be_patience e) (blob_directory digest)) (\<lambda>path.
       bindS (catchS (write_temporary e path content) (clean_up e True path)) (\<lambda>_.
       catchS (publish e path (final_path digest) digest (int (length content))) (clean_up e False path)))) (published e) P"
  proof (rule triple_bind [OF create_temporary_triple])
    fix path
    have "triple before (bindS (catchS (write_temporary e path content) (clean_up e True path)) (\<lambda>_.
       catchS (publish e path (final_path digest) digest (int (length content))) (clean_up e False path))) (published e) P"
      if t: "temporary_of digest path"
    proof (rule triple_bind)
      show "triple before (catchS (write_temporary e path content) (clean_up e True path))
          (\<lambda>_ d. before d \<and> map_of d path = Some (Regular content)) P"
        by (rule triple_catch [OF write_triple [OF t] clean_up_fails [OF t]]) (simp add: before_P)
      show "triple (\<lambda>d. before d \<and> map_of d path = Some (Regular content))
          (catchS (publish e path (final_path digest) digest (int (length content))) (clean_up e False path)) (published e) P" for x
        by (rule triple_catch [OF publish_triple [OF t] clean_up_fails [OF t]]) (simp add: before_P)
    qed
    then show "triple (\<lambda>d. before d \<and> temporary_of digest path) (bindS (catchS (write_temporary e path content) (clean_up e True path)) (\<lambda>_.
       catchS (publish e path (final_path digest) digest (int (length content))) (clean_up e False path))) (published e) P"
      by (cases "temporary_of digest path") (simp_all add: triple_def)
  qed
  have tried: "triple before (tryReadVerifiedFile e (final_path digest) digest (int (length content)))
      (\<lambda>found d. before d \<and> (found \<longrightarrow> holds digest content e d)) P"
    unfolding tryReadVerifiedFile_def
    by (rule triple_catch [OF triple_bind [OF read_final triple_return]])
      (auto intro!: triple_if triple_return triple_throw simp: before_P)
  have found: "triple (\<lambda>d. before d \<and> holds digest content e d) (bindS (syncDirectory e) (\<lambda>_. storedBlob e digest (int (length content)) False)) (published e) P"
    using stored_published [of False] before_P
    by (intro triple_bind [OF keeps_triple [OF keeps_sync [of "\<lambda>d. before d \<and> holds digest content e d"],
        of "\<lambda>d. before d \<and> holds digest content e d" "\<lambda>_ d. before d \<and> holds digest content e d"]]) auto
  have main: "triple before (bindS (tryReadVerifiedFile e (final_path digest) digest (int (length content))) (\<lambda>existing.
     if existing then bindS (syncDirectory e) (\<lambda>_. storedBlob e digest (int (length content)) False)
     else bindS (create_temporary e (be_patience e) (blob_directory digest)) (\<lambda>path.
       bindS (catchS (write_temporary e path content) (clean_up e True path)) (\<lambda>_.
       catchS (publish e path (final_path digest) digest (int (length content))) (clean_up e False path))))) (published e) P"
    by (rule triple_bind [OF tried]) (use found tail in auto)
  have "triple (\<lambda>d. before d \<and> dir = blob_directory digest) (bindS (tryReadVerifiedFile e (dir @ [digest]) digest (int (length content))) (\<lambda>existing.
     if existing then bindS (syncDirectory e) (\<lambda>_. storedBlob e digest (int (length content)) False)
     else bindS (create_temporary e (be_patience e) dir) (\<lambda>path.
       bindS (catchS (write_temporary e path content) (clean_up e True path)) (\<lambda>_.
       catchS (publish e path (dir @ [digest]) digest (int (length content))) (clean_up e False path))))) (published e) P" for dir
  proof (cases "dir = blob_directory digest")
    case True
    show ?thesis using main unfolding True final_path_def by (simp only: simp_thms)
  qed (simp add: triple_def)
  then show ?thesis unfolding putStable_def Let_def
    by (intro triple_bind [OF root] triple_bind [OF dirs_made])
qed

lemma published_before: "published e b d \<Longrightarrow> before d \<and> holds digest content e d"
  by (cases "sb_created b") (simp_all add: published_def named_before)

lemma keeps_removePublished:
  assumes "sb_digest b = digest"
  shows "keeps named (removePublishedBlob e b)"
proof -
  have unlink: "keeps named (fs_unlink e (final_path digest))"
    using withdrawn long_paths(1) by (intro keeps_unlink) (auto simp: with_dirs_def file_dirs)
  have remove: "keeps named (bindS (tryReadVerifiedFile e (final_path digest) digest (sb_sizeBytes b)) (\<lambda>present.
     if \<not> present then returnS () else bindS (fs_unlink e (final_path digest)) (\<lambda>_. syncDirectory e)))"
    by (intro keeps_bind keeps_tryRead disk_keeps_if keeps_return unlink keeps_sync)
  have assert: "triple named (assertBlobDirectories e digest) (\<lambda>dir d. named d \<and> dir = blob_directory digest) named"
  proof (rule tripleI)
    fix s x s' assume "named (dk_entries s)" "assertBlobDirectories e digest s = (Inl x, s')"
    then show "named (dk_entries s')" by (rule disk_keepsD [OF keeps_assertAll])
  next
    fix s y s' assume "named (dk_entries s)" and r: "assertBlobDirectories e digest s = (Inr y, s')"
    then have "named (dk_entries s')" using disk_keepsD [OF keeps_assertAll] by blast
    moreover have "y = blob_directory digest" using r by (auto simp: assertBlobDirectories_def res_simps)
    ultimately show "named (dk_entries s') \<and> y = blob_directory digest" ..
  qed
  have "triple (\<lambda>d. named d \<and> dir = blob_directory digest) (bindS (tryReadVerifiedFile e (dir @ [digest]) digest (sb_sizeBytes b)) (\<lambda>present.
     if \<not> present then returnS () else bindS (fs_unlink e (dir @ [digest])) (\<lambda>_. syncDirectory e))) (\<lambda>_. named) named" for dir
  proof (cases "dir = blob_directory digest")
    case True
    show ?thesis using remove unfolding True keeps_def final_path_def by (simp only: simp_thms)
  qed (simp add: triple_def)
  then show ?thesis unfolding removePublishedBlob_def keeps_def Let_def assms by (rule triple_bind [OF assert])
qed

lemma with_triple:
  assumes "be_digest e content = digest"
  shows "triple P (withPublishedBlob e content persist) (\<lambda>_ d. before d \<and> holds digest content e d) P"
proof -
  have persisted: "triple (published e b) (case persist b of
          Persisted x \<Rightarrow> returnS x
        | Persist_throws \<Rightarrow> throwS Persist_other
        | Persist_rejected \<Rightarrow>
            if sb_created b then
              bindS (attemptS (removePublishedBlob e b)) (\<lambda>cleanupError.
                throwS (if cleanupError \<noteq> None then Aggregate else Persist_cause))
            else throwS Persist_cause) (\<lambda>_ d. before d \<and> holds digest content e d) P" for b
  proof (cases "persist b")
    case (Persisted x)
    then show ?thesis by (auto intro!: triple_return dest: published_before)
  next
    case Persist_throws
    then show ?thesis by (auto intro!: triple_throw dest: published_before before_P)
  next
    case Persist_rejected
    have "triple (published e b) (bindS (attemptS (removePublishedBlob e b)) (\<lambda>cleanupError.
        throwS (if cleanupError \<noteq> None then Aggregate else Persist_cause))) (\<lambda>_ d. before d \<and> holds digest content e d) P" if "sb_created b"
    proof (rule tripleI)
      fix s x s' assume p: "published e b (dk_entries s)"
        and r: "bindS (attemptS (removePublishedBlob e b)) (\<lambda>cleanupError.
          throwS (if cleanupError \<noteq> None then Aggregate else Persist_cause)) s = (Inl x, s')"
      have "keeps named (bindS (attemptS (removePublishedBlob e b)) (\<lambda>cleanupError.
          throwS (if cleanupError \<noteq> None then Aggregate else Persist_cause)))"
        using p by (intro keeps_bind keeps_attempt keeps_removePublished keeps_throw) (simp add: published_def)
      moreover have "named (dk_entries s)" using p that by (simp add: published_def)
      ultimately show "P (dk_entries s')" using r disk_keepsD named_before before_P by blast
    qed (auto simp: res_simps)
    moreover have "triple (published e b) (throwS Persist_cause) (\<lambda>_ d. before d \<and> holds digest content e d) P"
      by (auto intro!: triple_throw dest: published_before before_P)
    ultimately show ?thesis using Persist_rejected by auto
  qed
  show ?thesis
  proof (cases "contentHashPattern digest")
    case True
    then have hash: "contentHash digest = Inr digest" by (simp add: contentHash_def)
    show ?thesis unfolding withPublishedBlob_def assms hash sum.case liftB_bind
      by (intro triple_if triple_throw triple_bind [OF put_triple] persisted)
  next
    case False
    then have "\<not> P d" for d using pattern by blast
    then show ?thesis by (simp add: triple_def)
  qed
qed

end

section \<open>Publication is atomic\<close>

text \<open>How a disk may differ from an earlier one: temporaries, new directories, and the blob itself where none was.\<close>

definition is_temporary :: "string list \<Rightarrow> bool" where
  "is_temporary p \<longleftrightarrow> length p = 4 \<and> starts_with TEMPORARY_PREFIX (last p)"

definition near :: "entries \<Rightarrow> string \<Rightarrow> string \<Rightarrow> entries \<Rightarrow> bool" where
  "near d0 digest content d \<longleftrightarrow> contentHashPattern digest \<and> (\<forall>q. map_of d q = map_of d0 q \<or> is_temporary q \<or>
     map_of d0 q = None \<and> (map_of d q = Some Directory \<or> q = final_path digest \<and> map_of d q = Some (Regular content)))"

definition near_named :: "entries \<Rightarrow> string \<Rightarrow> string \<Rightarrow> entries \<Rightarrow> bool" where
  "near_named d0 digest content d \<longleftrightarrow> near d0 digest content d \<and> map_of d0 (final_path digest) = None"

lemma temporary_paths: "temporary_of digest p \<Longrightarrow> is_temporary p"
  by (auto simp: temporary_of_def is_temporary_def blob_directory_def starts_with_def)

lemma final_is_not_temporary: "contentHashPattern digest \<Longrightarrow> \<not> is_temporary (final_path digest)"
  using digest_not_temporary by (auto simp: is_temporary_def final_path_def)

lemma near_absent: "near d0 digest content d \<Longrightarrow> map_of d p = None \<Longrightarrow> is_temporary p \<or> map_of d0 p = None"
  unfolding near_def by (metis option.distinct(1))

interpretation atomic: publication_invariant "near d0 digest content" "near_named d0 digest content" digest content
  for d0 digest content
proof unfold_locales
  fix d p c
  show "near d0 digest content d \<Longrightarrow> contentHashPattern digest" by (simp add: near_def)
  show "near d0 digest content d \<Longrightarrow> map_of d p = None \<Longrightarrow> near d0 digest content ((p, Directory) # d)"
    using near_absent [of d0 digest content d p] by (auto simp: near_def)
  show "near d0 digest content d \<Longrightarrow> temporary_of digest p \<Longrightarrow> near d0 digest content ((p, Regular c) # filter (\<lambda>(q, x). q \<noteq> p) d)"
    by (auto simp: near_def dest: temporary_paths)
  show "near d0 digest content d \<Longrightarrow> temporary_of digest p \<Longrightarrow> near d0 digest content (filter (\<lambda>(q, x). q \<noteq> p) d)"
    by (auto simp: near_def dest: temporary_paths)
  show "near_named d0 digest content d \<Longrightarrow> temporary_of digest p \<Longrightarrow> near_named d0 digest content (filter (\<lambda>(q, x). q \<noteq> p) d)"
    by (auto simp: near_named_def near_def dest: temporary_paths)
  show "near_named d0 digest content d \<Longrightarrow> near_named d0 digest content (filter (\<lambda>(q, x). q \<noteq> final_path digest) d)"
    by (auto simp: near_named_def near_def)
  show "near_named d0 digest content d \<Longrightarrow> near d0 digest content d" by (simp add: near_named_def)
  assume "near d0 digest content d" "map_of d (final_path digest) = None"
  then show "near_named d0 digest content ((final_path digest, Regular content) # d)"
    using final_is_not_temporary [of digest] near_absent [of d0 digest content d "final_path digest"]
    by (auto simp: near_named_def near_def)
qed

lemma with_refused:
  assumes "\<not> contentHashPattern (be_digest e content)" "withPublishedBlob e content persist s = (r, s')"
  shows "s' = s \<and> \<not> is_ok r"
proof -
  have "contentHash (be_digest e content) = Inl Invalid_value" using assms(1) by (simp add: contentHash_def)
  then show ?thesis using assms(2) by (auto simp: withPublishedBlob_def bindS_def liftB_def throwS_def split: if_splits)
qed

lemma with_near:
  assumes "withPublishedBlob e content persist s = (r, s')"
  shows "\<not> contentHashPattern (be_digest e content) \<and> s' = s \<and> \<not> is_ok r \<or>
    near (dk_entries s) (be_digest e content) content (dk_entries s') \<and>
    (is_ok r \<longrightarrow> directories_exist (ancestors (be_digest e content)) (dk_entries s') \<and>
      (\<exists>c. map_of (dk_entries s') (final_path (be_digest e content)) = Some (Regular c) \<and>
         verified e (be_digest e content) (int (length content)) c))"
proof (cases "contentHashPattern (be_digest e content)")
  case True
  have "near (dk_entries s) (be_digest e content) content (dk_entries s)" using True by (simp add: near_def)
  with atomic.with_triple [OF refl, of "dk_entries s" e content persist] have t:
    "triple (near (dk_entries s) (be_digest e content) content) (withPublishedBlob e content persist)
      (\<lambda>_ d. with_dirs (near (dk_entries s) (be_digest e content) content) (ancestors (be_digest e content)) d \<and>
        holds (be_digest e content) content e d)
      (near (dk_entries s) (be_digest e content) content)"
    and start: "near (dk_entries s) (be_digest e content) content (dk_entries s)" by simp_all
  show ?thesis using tripleD [OF t start] assms
    by (cases r) (auto simp: with_dirs_def holds_def)
next
  case False
  then show ?thesis using with_refused [OF False assms] by blast
qed

text \<open>C12: A blob is published whole or not at all. Whatever calls of the file system fail, and wherever the process
  stops, an entry below the root is afterwards what it was before, or a temporary file, or a new directory, or the blob
  itself, complete and under the name of its digest, where nothing was before. So no file that is not a temporary is
  ever partly written, replaced or lost.\<close>

theorem publication_is_atomic:
  assumes "withPublishedBlob e content persist s = (r, s')"
  shows "entry_at q s' = entry_at q s \<or> is_temporary q \<or>
    entry_at q s = None \<and> (entry_at q s' = Some Directory \<or>
      q = final_path (be_digest e content) \<and> entry_at q s' = Some (Regular content))"
  using with_near [OF assms] by (auto simp: near_def entry_at_def)

section \<open>A file system that works\<close>

definition works :: "blob_env \<Rightarrow> bool" where
  "works e \<longleftrightarrow> be_fate e = (\<lambda>_. Works)"

definition tick :: "disk \<Rightarrow> disk" where
  "tick s = s\<lparr>dk_calls := Suc (dk_calls s)\<rparr>"

lemma tick_entries [simp]: "dk_entries (tick s) = dk_entries s" "entry_at p (tick s) = entry_at p s"
  by (simp_all add: tick_def entry_at_def)

lemma syscall_works: "works e \<Longrightarrow> syscall e op s = op (tick s)"
  by (simp add: syscall_def works_def tick_def)

lemma touch_works: "works e \<Longrightarrow> touch e s = (Inr (), tick s)"
  by (simp add: touch_def syscall_works returnS_def)

lemma sync_works: "works e \<Longrightarrow> syncDirectory e s = (Inr (), tick (tick (tick s)))"
  by (simp add: syncDirectory_def finallyS_def bindS_def catchS_def touch_works returnS_def)

lemma lstat_works: "works e \<Longrightarrow> lstat e p s = (case entry_at p s of None \<Rightarrow> Inl (Errno ENOENT) | Some x \<Rightarrow> Inr x, tick s)"
  by (simp add: lstat_def syscall_works)

lemma unlink_works: "works e \<Longrightarrow> entry_at p s = Some (Regular c) \<Longrightarrow> fs_unlink e p s = (Inr (), drop_entry p (tick s))"
  by (simp add: fs_unlink_def syscall_works)

lemma assert_works: "works e \<Longrightarrow> entry_at p s = Some Directory \<Longrightarrow> assertDirectory e p s = (Inr (), tick s)"
  by (simp add: assertDirectory_def bindS_def lstat_works returnS_def)

lemma finally_works: "works e \<Longrightarrow> m s = (r, s1) \<Longrightarrow> r \<noteq> Inl Crashed \<Longrightarrow> finallyS m (touch e) s = (r, tick s1)"
  by (cases r) (auto simp: finallyS_def bindS_def catchS_def touch_works returnS_def throwS_def)

lemma verify_works:
  "works e \<Longrightarrow> \<exists>s'. dk_entries s' = dk_entries s \<and>
     verify_content e digest bytes c s = (if verified e digest bytes c then Inr c else Inl (Corrupt digest), s')"
  by (cases "int (length c) < 1 \<or> int (length c) > MAX_BLOB_SIZE_BYTES \<or> int (length c) \<noteq> bytes")
    (auto simp: verify_content_def verified_def bindS_def touch_works returnS_def throwS_def)

lemma bindS_step: "m s = (Inr x, s1) \<Longrightarrow> bindS m f s = f x s1"
  by (simp add: bindS_def)

lemma read_works:
  assumes "works e" "entry_at p s = Some (Regular c)"
  shows "\<exists>s'. dk_entries s' = dk_entries s \<and>
    readVerifiedFile e p digest bytes s = (if verified e digest bytes c then Inr c else Inl (Corrupt digest), s')"
proof -
  obtain s1 where s1: "dk_entries s1 = dk_entries s"
      "verify_content e digest bytes c (tick (tick s)) = (if verified e digest bytes c then Inr c else Inl (Corrupt digest), s1)"
    using verify_works [OF assms(1), of "tick (tick s)" digest bytes c] by auto
  have "open_read e p s = (Inr (Regular c), tick s)" using assms by (simp add: open_read_def syscall_works)
  then have opened: "readVerifiedFile e p digest bytes s =
      finallyS (bindS (touch e) (\<lambda>_. verify_content e digest bytes c)) (touch e) (tick s)"
    by (simp add: readVerifiedFile_def bindS_step)
  let ?r = "(if verified e digest bytes c then Inr c else Inl (Corrupt digest)) :: blob_failure + string"
  have m: "bindS (touch e) (\<lambda>_. verify_content e digest bytes c) (tick s) = (?r, s1)"
    using s1(2) assms(1) by (simp add: bindS_step [OF touch_works])
  have "?r \<noteq> Inl Crashed" by simp
  then have "readVerifiedFile e p digest bytes s = (?r, tick s1)"
    unfolding opened using assms(1) m by (intro finally_works) simp_all
  then show ?thesis using s1(1) by (intro exI [of _ "tick s1"]) simp
qed

definition expectation :: "string \<Rightarrow> int \<Rightarrow> expected_blob" where
  "expectation digest bytes = \<lparr>eb_digest = digest, eb_sizeBytes = bytes, eb_relativePath = relativePathFor digest\<rparr>"

text \<open>C13: What has been published reads back. When the callback has persisted the blob, whatever failed on the way, a
  later verified read with the digest and the size it was stored under succeeds and yields a content of that digest and
  size; and where the store did not have the blob before, exactly the content that was published.\<close>

theorem published_reads_back:
  assumes "withPublishedBlob e content persist s = (Inr x, s')"
    and "works e'" and "be_digest e' = be_digest e"
  shows "\<exists>c s''. readVerified e' (expectation (be_digest e content) (int (length content))) s' = (Inr c, s'') \<and>
    be_digest e c = be_digest e content \<and> length c = length content \<and>
    (entry_at (final_path (be_digest e content)) s = None \<longrightarrow> c = content)"
proof -
  let ?d = "be_digest e content"
  from with_near [OF assms(1)] obtain c where nr: "near (dk_entries s) ?d content (dk_entries s')"
    and dirs: "directories_exist (ancestors ?d) (dk_entries s')"
    and c: "map_of (dk_entries s') (final_path ?d) = Some (Regular c)" "verified e ?d (int (length content)) c" by auto
  have "entry_at p s' = Some Directory" if "p \<in> ancestors ?d" for p
    using dirs that by (simp add: directories_exist_def entry_at_def)
  then have asserted: "assertBlobDirectories e' ?d s' = (Inr (blob_directory ?d), tick (tick (tick (tick s'))))"
    using assms(2) by (simp add: assertBlobDirectories_def bindS_def assert_works ancestors_def returnS_def)
  have v: "verified e' ?d (int (length content)) c" using c(2) assms(3) by (simp add: verified_def)
  have "entry_at (final_path ?d) (tick (tick (tick (tick s')))) = Some (Regular c)" using c(1) by (simp add: entry_at_def)
  from read_works [OF assms(2) this, of ?d "int (length content)"] v obtain s'' where
    rd: "readVerifiedFile e' (final_path ?d) ?d (int (length content)) (tick (tick (tick (tick s')))) = (Inr c, s'')" by auto
  have "contentHashPattern ?d" using nr by (simp add: near_def)
  moreover have "1 \<le> int (length content)" "int (length content) \<le> MAX_BLOB_SIZE_BYTES" using c(2) by (simp_all add: verified_def)
  ultimately have "normalizeExpectedBlob (expectation ?d (int (length content))) = Inr (expectation ?d (int (length content)))"
    by (auto simp: normalizeExpectedBlob_def expectation_def contentHash_def guardE_def)
  then have "readVerified e' (expectation ?d (int (length content))) s' = (Inr c, s'')"
    using asserted rd by (simp add: readVerified_def liftB_bind expectation_def catchS_def bindS_step readExpectedBlobFile_def final_path_def)
  moreover have "entry_at (final_path ?d) s = None \<longrightarrow> c = content"
    using nr [unfolded near_def, THEN conjunct2, THEN spec, of "final_path ?d"] c(1) final_is_not_temporary \<open>contentHashPattern ?d\<close>
    by (auto simp: entry_at_def)
  ultimately show ?thesis using c(2) by (auto simp: verified_def)
qed

section \<open>Disks a store can read\<close>

text \<open>The entries a store makes: two levels of prefix directories, in them blobs under their digests and temporaries.\<close>

definition shaped :: "string list \<Rightarrow> entry \<Rightarrow> bool" where
  "shaped p x = (case p of
      [] \<Rightarrow> x = Directory
    | [r] \<Rightarrow> r = SHA256_DIRECTORY \<and> x = Directory
    | [r, a] \<Rightarrow> r = SHA256_DIRECTORY \<and> PREFIX_PATTERN a \<and> x = Directory
    | [r, a, b] \<Rightarrow> r = SHA256_DIRECTORY \<and> PREFIX_PATTERN a \<and> PREFIX_PATTERN b \<and> x = Directory
    | [r, a, b, n] \<Rightarrow> r = SHA256_DIRECTORY \<and> PREFIX_PATTERN a \<and> PREFIX_PATTERN b \<and> is_regular x \<and>
        (if starts_with TEMPORARY_PREFIX n then BLOB_UUID_PATTERN (drop (length TEMPORARY_PREFIX) n)
         else DIGEST_PATTERN n \<and> take 2 n = a \<and> take 2 (drop 2 n) = b)
    | _ \<Rightarrow> False)"

definition canonical :: "entries \<Rightarrow> bool" where
  "canonical d \<longleftrightarrow> distinct (map fst d) \<and> (\<forall>(p, x)\<in>set d. shaped p x \<and> (p = [] \<or> butlast p \<in> fst ` set d))"

lemma shaped_file:
  assumes "length p = 4" "shaped p x"
  obtains a b n where "p = [SHA256_DIRECTORY, a, b, n]" "PREFIX_PATTERN a" "PREFIX_PATTERN b" "is_regular x"
    "if starts_with TEMPORARY_PREFIX n then BLOB_UUID_PATTERN (drop (length TEMPORARY_PREFIX) n)
     else DIGEST_PATTERN n \<and> take 2 n = a \<and> take 2 (drop 2 n) = b"
proof -
  obtain r a b n where p: "p = [r, a, b, n]" using assms(1) by (auto simp: length_Suc_conv numeral_eq_Suc)
  then show ?thesis using that [of a b n] assms(2) by (simp add: shaped_def)
qed

lemma shaped_length: "shaped p x \<Longrightarrow> length p \<le> 4"
  by (auto simp: shaped_def split: list.splits)

lemma canonical_without_file:
  assumes "canonical d" "length p = 4"
  shows "canonical (filter (\<lambda>(q, x). q \<noteq> p) d)"
proof -
  have "distinct (map fst (filter (\<lambda>(q, x). q \<noteq> p) d))"
    using assms(1) by (simp add: canonical_def distinct_map_filter)
  moreover have "butlast q \<in> fst ` set (filter (\<lambda>(q, x). q \<noteq> p) d)" if "(q, x) \<in> set d" "q \<noteq> []" for q x
  proof -
    have "butlast q \<in> fst ` set d" "length q \<le> 4" using assms(1) that shaped_length by (auto simp: canonical_def)
    moreover have "length (butlast q) < 4" using calculation(2) that(2) by (cases q) auto
    ultimately show ?thesis using assms(2) by force
  qed
  ultimately show ?thesis using assms(1) unfolding canonical_def by auto
qed

lemma canonical_with:
  assumes "canonical d" "map_of d p = None" "shaped p x" "p = [] \<or> map_of d (butlast p) = Some Directory"
  shows "canonical ((p, x) # d)"
proof -
  have "p \<notin> fst ` set d" using assms(2) by (simp add: map_of_eq_None_iff)
  moreover have "p = [] \<or> butlast p \<in> fst ` set d" using assms(4) by (auto dest: map_of_SomeD intro: rev_image_eqI)
  ultimately show ?thesis using assms(1,3) unfolding canonical_def by auto
qed

lemma prefix_of_hash: "contentHashPattern d \<Longrightarrow> PREFIX_PATTERN (take 2 d) \<and> PREFIX_PATTERN (take 2 (drop 2 d)) \<and> DIGEST_PATTERN d"
  by (auto simp: contentHashPattern_def PREFIX_PATTERN_def DIGEST_PATTERN_def fits_replicate list_all_iff
      dest: in_set_takeD in_set_dropD)

lemma shaped_paths:
  assumes "contentHashPattern digest"
  shows "p \<in> ancestors digest \<Longrightarrow> shaped p Directory" "shaped (final_path digest) (Regular c)"
    "temporary_of digest p \<Longrightarrow> shaped p (Regular c)"
  using prefix_of_hash [OF assms] digest_not_temporary(1) [OF assms]
  by (auto simp: ancestors_def shaped_def blob_directory_def final_path_def temporary_of_def is_regular_def starts_with_def)

definition canonical_for :: "string \<Rightarrow> entries \<Rightarrow> bool" where
  "canonical_for digest d \<longleftrightarrow> contentHashPattern digest \<and> canonical d"

interpretation canonical_disk: publication_invariant "canonical_for digest" "canonical_for digest" digest content
  for digest content
proof unfold_locales
  fix d p c
  assume P: "canonical_for digest d"
  then have h: "contentHashPattern digest" and c: "canonical d" by (auto simp: canonical_for_def)
  show "contentHashPattern digest" by fact
  show "temporary_of digest p \<Longrightarrow> canonical_for digest (filter (\<lambda>(q, x). q \<noteq> p) d)"
    using canonical_without_file [OF c, of p] long_paths(2) h by (auto simp: canonical_for_def)
  show "canonical_for digest (filter (\<lambda>(q, x). q \<noteq> final_path digest) d)"
    using canonical_without_file [OF c, of "final_path digest"] long_paths(1) h by (simp add: canonical_for_def)
  show "map_of d p = None \<Longrightarrow> p \<in> ancestors digest \<Longrightarrow> p = [] \<or> map_of d (butlast p) = Some Directory \<Longrightarrow>
      canonical_for digest ((p, Directory) # d)"
    using canonical_with [OF c] shaped_paths(1) [OF h] h by (simp add: canonical_for_def)
  show "directories_exist (ancestors digest) d \<Longrightarrow> map_of d (final_path digest) = None \<Longrightarrow>
      canonical_for digest ((final_path digest, Regular content) # d)"
    using canonical_with [OF c _ shaped_paths(2) [OF h]] h
    by (simp add: canonical_for_def directories_exist_def ancestors_def final_path_def)
  assume "directories_exist (ancestors digest) d" and t: "temporary_of digest p"
  then have "map_of (filter (\<lambda>(q, x). q \<noteq> p) d) (butlast p) = Some Directory"
    using long_paths(2) [OF t] by (auto simp: temporary_of_def directories_exist_def ancestors_def blob_directory_def)
  then show "canonical_for digest ((p, Regular c) # filter (\<lambda>(q, x). q \<noteq> p) d)"
    using canonical_with [OF canonical_without_file [OF c long_paths(2) [OF t]] _ shaped_paths(3) [OF h t]] h
    by (simp add: canonical_for_def)
qed

lemma with_canonical:
  assumes "withPublishedBlob e content persist s = (r, s')" "canonical (dk_entries s)"
  shows "canonical (dk_entries s')"
proof (cases "contentHashPattern (be_digest e content)")
  case True
  note t = canonical_disk.with_triple [OF refl, of e content persist]
  show ?thesis using tripleD [OF t, of s] assms True by (cases r) (auto simp: with_dirs_def canonical_for_def)
next
  case False
  then show ?thesis using with_refused [OF False assms(1)] assms(2) by simp
qed

section \<open>What a reconciliation does\<close>

text \<open>The files it removes: those that are not under an expected digest, temporaries among them.\<close>

definition swept :: "expected_blob list \<Rightarrow> string list \<Rightarrow> bool" where
  "swept expected p \<longleftrightarrow> length p = 4 \<and> last p \<notin> eb_digest ` set expected"

text \<open>Whether an expected blob that is there is intact.\<close>

definition judged :: "blob_env \<Rightarrow> expected_blob list \<Rightarrow> entries \<Rightarrow> string list \<Rightarrow> bool option" where
  "judged e expected d p = (case (js_map eb_digest expected (last p), map_of d p) of
      (Some x, Some (Regular c)) \<Rightarrow> Some (verified e (eb_digest x) (eb_sizeBytes x) c)
    | _ \<Rightarrow> None)"

text \<open>The state of a reconciliation that has visited the files at the paths \<open>V\<close>.\<close>

definition sweep_inv :: "blob_env \<Rightarrow> expected_blob list \<Rightarrow> entries \<Rightarrow> string list set \<Rightarrow> sweep \<Rightarrow> disk \<Rightarrow> bool" where
  "sweep_inv e expected d V sw s \<longleftrightarrow>
     dk_entries s = filter (\<lambda>(p, x). \<not> (swept expected p \<and> p \<in> V)) d \<and>
     set (sp_temporaries sw) = join ''/'' ` {p \<in> V. swept expected p \<and> starts_with TEMPORARY_PREFIX (last p)} \<and>
     set (sp_orphans sw) = join ''/'' ` {p \<in> V. swept expected p \<and> \<not> starts_with TEMPORARY_PREFIX (last p)} \<and>
     set (sp_present sw) = last ` {p \<in> V. judged e expected d p = Some True} \<and>
     set (sp_corrupt sw) = last ` {p \<in> V. judged e expected d p = Some False}"

lemma sweep_entries:
  "sweep_inv e expected d V sw s \<Longrightarrow> entry_at p s = (if swept expected p \<and> p \<in> V then None else map_of d p)"
  using map_of_filter_key [of "\<lambda>p. \<not> (swept expected p \<and> p \<in> V)" d p]
  by (auto simp: sweep_inv_def entry_at_def)

lemma drop_swept:
  assumes "sweep_inv e expected d V sw s" "swept expected p" "dk_entries s' = dk_entries s"
  shows "dk_entries (drop_entry p s') = filter (\<lambda>(q, x). \<not> (swept expected q \<and> q \<in> insert p V)) d"
proof -
  have "dk_entries (drop_entry p s') = filter (\<lambda>(q, x). q \<noteq> p) (filter (\<lambda>(q, x). \<not> (swept expected q \<and> q \<in> V)) d)"
    using assms(1,3) by (simp add: sweep_inv_def)
  also have "\<dots> = filter (\<lambda>(q, x). \<not> (swept expected q \<and> q \<in> insert p V)) d"
    unfolding filter_filter using assms(2) by (intro filter_cong) auto
  finally show ?thesis .
qed

lemma keep_expected:
  assumes "sweep_inv e expected d V sw s" "\<not> swept expected p" "dk_entries s' = dk_entries s"
  shows "dk_entries s' = filter (\<lambda>(q, x). \<not> (swept expected q \<and> q \<in> insert p V)) d"
  using assms by (auto simp: sweep_inv_def intro!: filter_cong)

lemma set_by_insert: "f ` {p \<in> insert q V. Q p} = (if Q q then insert (f q) (f ` {p \<in> V. Q p}) else f ` {p \<in> V. Q p})"
  by auto

lemma remove_steps:
  assumes "works e" "entry_at p s = Some (Regular c)"
  shows "bindS (fs_unlink e p) (\<lambda>_. bindS (syncDirectory e) (\<lambda>_. returnS y)) s =
    (Inr y, tick (tick (tick (drop_entry p (tick s)))))"
  using assms by (simp add: bindS_step [OF unlink_works] bindS_step [OF sync_works] returnS_def)

lemma lstat_step: "works e \<Longrightarrow> entry_at p s = Some x \<Longrightarrow> bindS (lstat e p) f s = f x (tick s)"
  by (simp add: bindS_def lstat_works)

lemma expected_pattern:
  assumes "list_all (\<lambda>x. contentHashPattern (eb_digest x)) expected" "starts_with TEMPORARY_PREFIX n"
  shows "n \<notin> eb_digest ` set expected"
  using assms digest_not_temporary(1) by (auto simp: list_all_iff)

lemma visit_file_step:
  assumes w: "works e" and ok: "list_all (\<lambda>x. contentHashPattern (eb_digest x)) expected"
    and inv: "sweep_inv e expected d V sw s" and "p = [SHA256_DIRECTORY, first, second, name]"
    and at_p: "map_of d p = Some x" and "shaped p x" and fresh: "swept expected p \<longrightarrow> p \<notin> V"
  shows "\<exists>sw' s'. visit_file e expected first second name sw s = (Inr sw', s') \<and> sweep_inv e expected d (insert p V) sw' s'"
proof -
  have p: "p = [SHA256_DIRECTORY, first, second, name]" "length p = 4" "last p = name"
    and rel: "relativePathForEntry first second name = join ''/'' p" using assms(4) by (simp_all add: relativePathForEntry_def)
  have "is_regular x" using shaped_file [OF p(2) \<open>shaped p x\<close>] by blast
  then obtain c where c: "x = Regular c" by (auto simp: is_regular_def split: entry.splits)
  have form: "if starts_with TEMPORARY_PREFIX name then BLOB_UUID_PATTERN (drop (length TEMPORARY_PREFIX) name)
      else DIGEST_PATTERN name \<and> take 2 name = first \<and> take 2 (drop 2 name) = second"
    using \<open>shaped p x\<close> unfolding p(1) shaped_def by simp
  have entry: "entry_at p s = Some (Regular c)" using sweep_entries [OF inv, of p] fresh at_p c by auto
  let ?gone = "tick (tick (tick (drop_entry p (tick (tick s)))))"
  have judged_none: "judged e expected d p = None" if "swept expected p"
  proof -
    have "js_map eb_digest expected (last p) = None" using that by (simp add: swept_def js_map_None_iff)
    then show ?thesis by (simp add: judged_def)
  qed
  show ?thesis
  proof (cases "starts_with TEMPORARY_PREFIX name")
    case True
    then have sw: "swept expected p" using expected_pattern [OF ok True] p by (simp add: swept_def)
    have "visit_file e expected first second name sw s =
        (Inr (sw\<lparr>sp_temporaries := sp_temporaries sw @ [join ''/'' p]\<rparr>), ?gone)"
      using True form entry unfolding visit_file_def Let_def rel p(1) [symmetric]
      by (simp add: lstat_step [OF w entry] is_regular_def remove_steps [OF w])
    moreover have "sweep_inv e expected d (insert p V) (sw\<lparr>sp_temporaries := sp_temporaries sw @ [join ''/'' p]\<rparr>) ?gone"
      using drop_swept [OF inv sw, of "tick (tick s)"] inv sw True p(3) judged_none
      unfolding sweep_inv_def set_by_insert by simp
    ultimately show ?thesis by blast
  next
    case False
    show ?thesis
    proof (cases "js_map eb_digest expected name")
      case None
      then have sw: "swept expected p" using p by (simp add: swept_def js_map_None_iff)
      have "visit_file e expected first second name sw s =
          (Inr (sw\<lparr>sp_orphans := sp_orphans sw @ [join ''/'' p]\<rparr>), ?gone)"
        using False form entry None unfolding visit_file_def Let_def rel p(1) [symmetric]
        by (simp add: lstat_step [OF w entry] is_regular_def remove_steps [OF w])
      moreover have "sweep_inv e expected d (insert p V) (sw\<lparr>sp_orphans := sp_orphans sw @ [join ''/'' p]\<rparr>) ?gone"
        using drop_swept [OF inv sw, of "tick (tick s)"] inv sw False p(3) judged_none
        unfolding sweep_inv_def set_by_insert by simp
      ultimately show ?thesis by blast
    next
      case (Some y)
      then have y: "y \<in> set expected" "eb_digest y = name" by (auto dest: js_map_Some)
      then have keep: "\<not> swept expected p" using p by (auto simp: swept_def)
      have j: "judged e expected d p = Some (verified e (eb_digest y) (eb_sizeBytes y) c)"
        using Some at_p c p(3) by (simp add: judged_def)
      obtain s1 where s1: "dk_entries s1 = dk_entries s" "readVerifiedFile e p (eb_digest y) (eb_sizeBytes y) (tick s) =
          (if verified e (eb_digest y) (eb_sizeBytes y) c then Inr c else Inl (Corrupt (eb_digest y)), s1)"
        using read_works [OF w, of p "tick s" c] entry by auto
      let ?sw = "if verified e (eb_digest y) (eb_sizeBytes y) c then sw\<lparr>sp_present := sp_present sw @ [name]\<rparr>
        else sw\<lparr>sp_corrupt := sp_corrupt sw @ [name]\<rparr>"
      have "visit_file e expected first second name sw s = (Inr ?sw, s1)"
        using False form entry Some s1(2) y(2) unfolding visit_file_def Let_def rel p(1) [symmetric]
        by (simp add: lstat_step [OF w entry] is_regular_def catchS_def bindS_def [of "readVerifiedFile _ _ _ _"] returnS_def)
      moreover have "sweep_inv e expected d (insert p V) ?sw s1"
        using keep_expected [OF inv keep s1(1)] inv keep p(3) j
        unfolding sweep_inv_def set_by_insert by simp
      ultimately show ?thesis by blast
    qed
  qed
qed

text \<open>What is needed of the disk and of the expected blobs.\<close>

definition sweepable :: "blob_env \<Rightarrow> expected_blob list \<Rightarrow> entries \<Rightarrow> bool" where
  "sweepable e expected d \<longleftrightarrow> works e \<and> list_all (\<lambda>x. contentHashPattern (eb_digest x)) expected \<and> canonical d"

lemma sweepable_entry: "sweepable e expected d \<Longrightarrow> map_of d p = Some x \<Longrightarrow> shaped p x \<and> (p = [] \<or> map_of d (butlast p) \<noteq> None)"
  by (auto simp: sweepable_def canonical_def map_of_eq_None_iff dest!: map_of_SomeD)

lemma visit_files_all:
  assumes sw: "sweepable e expected d"
  shows "sweep_inv e expected d V sw s \<Longrightarrow> distinct (map fst files) \<Longrightarrow>
    \<forall>(n, x)\<in>set files. map_of d [SHA256_DIRECTORY, first, second, n] = Some x \<and>
      (swept expected [SHA256_DIRECTORY, first, second, n] \<longrightarrow> [SHA256_DIRECTORY, first, second, n] \<notin> V) \<Longrightarrow>
    \<exists>sw' s'. visit_files e expected first second files sw s = (Inr sw', s') \<and>
      sweep_inv e expected d (V \<union> (\<lambda>n. [SHA256_DIRECTORY, first, second, n]) ` fst ` set files) sw' s'"
proof (induction files arbitrary: V sw s)
  case Nil
  then show ?case by (simp add: returnS_def)
next
  case (Cons f0 files)
  obtain n x where f0: "f0 = (n, x)" by fastforce
  let ?p = "[SHA256_DIRECTORY, first, second, n]"
  have "map_of d ?p = Some x" "swept expected ?p \<longrightarrow> ?p \<notin> V" using Cons.prems(3) f0 by auto
  then obtain sw1 s1 where one: "visit_file e expected first second n sw s = (Inr sw1, s1)"
      "sweep_inv e expected d (insert ?p V) sw1 s1"
    using visit_file_step [OF _ _ Cons.prems(1) refl] sweepable_entry [OF \<open>sweepable e expected d\<close>] \<open>sweepable e expected d\<close>
    unfolding sweepable_def by blast
  have "\<forall>(m, y)\<in>set files. map_of d [SHA256_DIRECTORY, first, second, m] = Some y \<and>
      (swept expected [SHA256_DIRECTORY, first, second, m] \<longrightarrow> [SHA256_DIRECTORY, first, second, m] \<notin> insert ?p V)"
    using Cons.prems(2,3) f0 by (auto intro: rev_image_eqI)
  from Cons.IH [OF one(2) _ this] Cons.prems(2) obtain sw2 s2 where
    "visit_files e expected first second files sw1 s1 = (Inr sw2, s2)"
    "sweep_inv e expected d (insert ?p V \<union> (\<lambda>n. [SHA256_DIRECTORY, first, second, n]) ` fst ` set files) sw2 s2" by auto
  then show ?case using f0 by (intro exI [of _ sw2] exI [of _ s2]) (simp add: bindS_step [of "visit_file e expected first second n sw", OF one(1)])
qed

lemma listing:
  assumes "distinct (map fst d)" and names: "names = map (\<lambda>(q, x). (last q, x)) (filter (\<lambda>(q, x). q \<noteq> [] \<and> butlast q = dir) d)"
  shows "distinct (map fst names)" "(n, x) \<in> set names \<longleftrightarrow> map_of d (dir @ [n]) = Some x"
proof -
  let ?L = "filter (\<lambda>(q, x). q \<noteq> [] \<and> butlast q = dir) d"
  have "map fst ?L = map (\<lambda>(q, x). dir @ [last q]) ?L"
    by (rule map_cong) (auto simp: append_butlast_last_id)
  then have "map fst ?L = map (\<lambda>n. dir @ [n]) (map fst names)"
    by (simp add: names comp_def case_prod_beta)
  moreover have "distinct (map fst ?L)" using assms(1) by (simp add: distinct_map_filter)
  ultimately have "distinct (map (\<lambda>n. dir @ [n]) (map fst names))" by simp
  then show "distinct (map fst names)" using distinct_map [of "\<lambda>n. dir @ [n]" "map fst names"] by blast
  have "(n, x) \<in> set names \<longleftrightarrow> (dir @ [n], x) \<in> set d"
  proof
    assume "(n, x) \<in> set names"
    then obtain q where "(q, x) \<in> set d" "q \<noteq> []" "butlast q = dir" "last q = n" by (auto simp: names)
    then show "(dir @ [n], x) \<in> set d" using append_butlast_last_id [of q] by simp
  next
    assume "(dir @ [n], x) \<in> set d"
    then show "(n, x) \<in> set names" unfolding names by (force intro: rev_image_eqI [of "(dir @ [n], x)"])
  qed
  then show "(n, x) \<in> set names \<longleftrightarrow> map_of d (dir @ [n]) = Some x" using assms(1) by simp
qed

lemma sorted_listing:
  assumes "works e" "distinct (map fst (dk_entries s))" "entry_at dir s = Some Directory"
  shows "\<exists>names. sorted_entries e dir s = (Inr names, tick s) \<and> distinct (map fst names) \<and>
    (\<forall>n x. (n, x) \<in> set names \<longleftrightarrow> entry_at (dir @ [n]) s = Some x)"
proof -
  let ?names = "map (\<lambda>(q, x). (last q, x)) (filter (\<lambda>(q, x). q \<noteq> [] \<and> butlast q = dir) (dk_entries s))"
  have "sorted_entries e dir s = (Inr (sort_key fst ?names), tick s)"
    using assms(1,3) by (simp add: sorted_entries_def bindS_def readdir_def syscall_works returnS_def)
  moreover have "distinct (map fst (sort_key fst ?names))"
    using listing(1) [OF assms(2) refl, of dir] distinct_map [of fst "sort_key fst ?names"] distinct_map [of fst ?names] by simp
  moreover have "\<forall>n x. (n, x) \<in> set (sort_key fst ?names) \<longleftrightarrow> entry_at (dir @ [n]) s = Some x"
    using listing(2) [OF assms(2) refl, of _ _ dir] by (simp add: entry_at_def)
  ultimately show ?thesis by blast
qed

definition files_in :: "entries \<Rightarrow> string list \<Rightarrow> string list set" where
  "files_in d dir = {p. map_of d p \<noteq> None \<and> p \<noteq> [] \<and> butlast p = dir}"

lemma sweep_distinct: "sweep_inv e expected d V sw s \<Longrightarrow> canonical d \<Longrightarrow> distinct (map fst (dk_entries s))"
  by (simp add: sweep_inv_def canonical_def distinct_map_filter)

lemma visit_directory:
  assumes sw: "sweepable e expected d" and inv: "sweep_inv e expected d V sw s"
    and dir: "map_of d [SHA256_DIRECTORY, first, second] = Some Directory"
  shows "\<exists>sw' s'. bindS (sorted_entries e [SHA256_DIRECTORY, first, second]) (\<lambda>files. visit_files e expected first second files sw) s = (Inr sw', s') \<and>
    sweep_inv e expected d (V \<union> files_in d [SHA256_DIRECTORY, first, second]) sw' s'"
proof -
  let ?dir = "[SHA256_DIRECTORY, first, second]"
  have w: "works e" "canonical d" using sw by (auto simp: sweepable_def)
  have "entry_at ?dir s = Some Directory" using sweep_entries [OF inv] dir by (simp add: swept_def)
  from sorted_listing [OF w(1) sweep_distinct [OF inv w(2)] this] obtain names where
    names: "sorted_entries e ?dir s = (Inr names, tick s)" "distinct (map fst names)"
      "\<And>n x. (n, x) \<in> set names \<longleftrightarrow> entry_at (?dir @ [n]) s = Some x" by blast
  have inv1: "sweep_inv e expected d V sw (tick s)" using inv by (simp add: sweep_inv_def)
  have "\<forall>(n, x)\<in>set names. map_of d [SHA256_DIRECTORY, first, second, n] = Some x \<and>
      (swept expected [SHA256_DIRECTORY, first, second, n] \<longrightarrow> [SHA256_DIRECTORY, first, second, n] \<notin> V)"
    using names(3) sweep_entries [OF inv] by (auto split: if_splits)
  from visit_files_all [OF sw inv1 names(2) this] obtain sw' s' where
    v: "visit_files e expected first second names sw (tick s) = (Inr sw', s')"
      "sweep_inv e expected d (V \<union> (\<lambda>n. [SHA256_DIRECTORY, first, second, n]) ` fst ` set names) sw' s'" by blast
  have "V \<union> (\<lambda>n. [SHA256_DIRECTORY, first, second, n]) ` fst ` set names = V \<union> files_in d ?dir"
  proof -
    have "p \<in> V \<or> p \<in> (\<lambda>n. ?dir @ [n]) ` fst ` set names" if "p \<in> files_in d ?dir" for p
    proof (cases "swept expected p \<and> p \<in> V")
      case False
      from that obtain x where x: "map_of d p = Some x" "p = ?dir @ [last p]"
        by (auto simp: files_in_def) (metis append_butlast_last_id append_Cons append_Nil)
      then have "(last p, x) \<in> set names" using names(3) [of "last p" x] sweep_entries [OF inv, of p] False by auto
      then show ?thesis using x(2) by (force intro: rev_image_eqI)
    qed simp
    moreover have "(\<lambda>n. ?dir @ [n]) ` fst ` set names \<subseteq> files_in d ?dir"
      using names(3) sweep_entries [OF inv] by (auto simp: files_in_def split: if_splits)
    ultimately show ?thesis by auto
  qed
  then show ?thesis using v by (simp add: bindS_step [of "sorted_entries e ?dir", OF names(1)])
qed

lemma check_works:
  assumes "works e" "entry_at (parent @ [name]) s = Some Directory" "PREFIX_PATTERN name"
  shows "check_prefix e parent (name, Directory) s = (Inr (), tick s)"
  using assms by (simp add: check_prefix_def assert_works)

lemma visit_seconds_all:
  assumes sw: "sweepable e expected d"
  shows "sweep_inv e expected d V sw s \<Longrightarrow> \<forall>(g, x)\<in>set seconds. map_of d [SHA256_DIRECTORY, first, g] = Some x \<Longrightarrow>
    \<exists>sw' s'. visit_seconds e expected first seconds sw s = (Inr sw', s') \<and>
      sweep_inv e expected d (V \<union> (\<Union>g\<in>fst ` set seconds. files_in d [SHA256_DIRECTORY, first, g])) sw' s'"
proof (induction seconds arbitrary: V sw s)
  case Nil
  then show ?case by (simp add: returnS_def)
next
  case (Cons found rest)
  obtain g x where f: "found = (g, x)" by fastforce
  let ?dir = "[SHA256_DIRECTORY, first, g]"
  have "map_of d ?dir = Some x" using Cons.prems(2) f by simp
  with sweepable_entry [OF sw this] have x: "x = Directory" "PREFIX_PATTERN g" "map_of d ?dir = Some Directory"
    by (simp_all add: shaped_def)
  have "entry_at ([SHA256_DIRECTORY, first] @ [g]) s = Some Directory"
    using sweep_entries [OF Cons.prems(1), of ?dir] x(3) by (simp add: swept_def)
  then have c: "check_prefix e [SHA256_DIRECTORY, first] found s = (Inr (), tick s)"
    using check_works [OF _ _ x(2)] sw f x(1) by (simp add: sweepable_def)
  have "sweep_inv e expected d V sw (tick s)" using Cons.prems(1) by (simp add: sweep_inv_def)
  from visit_directory [OF sw this x(3)] obtain sw1 s1 where
    one: "bindS (sorted_entries e ?dir) (\<lambda>files. visit_files e expected first g files sw) (tick s) = (Inr sw1, s1)"
      "sweep_inv e expected d (V \<union> files_in d ?dir) sw1 s1" by blast
  from Cons.IH [OF one(2)] Cons.prems(2) obtain sw2 s2 where
    two: "visit_seconds e expected first rest sw1 s1 = (Inr sw2, s2)"
      "sweep_inv e expected d (V \<union> files_in d ?dir \<union> (\<Union>g\<in>fst ` set rest. files_in d [SHA256_DIRECTORY, first, g])) sw2 s2" by auto
  have "visit_seconds e expected first (found # rest) sw s =
      bindS (bindS (sorted_entries e ?dir) (\<lambda>files. visit_files e expected first g files sw)) (visit_seconds e expected first rest) (tick s)"
    using f by (simp add: bindS_step [of "check_prefix _ _ _", OF c [unfolded f]] bindS_assoc)
  also have "\<dots> = (Inr sw2, s2)" by (simp add: bindS_step [of "bindS (sorted_entries e ?dir) (\<lambda>files. visit_files e expected first g files sw)", OF one(1)] two(1))
  finally show ?case using two(2) f by (auto simp: Un_assoc)
qed

lemma visit_firsts_all:
  assumes sw: "sweepable e expected d"
  shows "sweep_inv e expected d V sw s \<Longrightarrow> \<forall>(g, x)\<in>set firsts. map_of d [SHA256_DIRECTORY, g] = Some x \<Longrightarrow>
    \<exists>sw' s'. visit_firsts e expected firsts sw s = (Inr sw', s') \<and>
      sweep_inv e expected d (V \<union> {p. length p = 4 \<and> map_of d p \<noteq> None \<and> p ! 1 \<in> fst ` set firsts}) sw' s'"
proof (induction firsts arbitrary: V sw s)
  case Nil
  then show ?case by (simp add: returnS_def)
next
  case (Cons found rest)
  obtain a x where f: "found = (a, x)" by fastforce
  let ?dir = "[SHA256_DIRECTORY, a]"
  have w: "works e" "canonical d" using sw by (auto simp: sweepable_def)
  have "map_of d ?dir = Some x" using Cons.prems(2) f by simp
  with sweepable_entry [OF sw this] have x: "x = Directory" "PREFIX_PATTERN a" "map_of d ?dir = Some Directory"
    by (simp_all add: shaped_def)
  have e: "entry_at ?dir s = Some Directory"
    using sweep_entries [OF Cons.prems(1), of ?dir] x(3) by (simp add: swept_def)
  then have c: "check_prefix e [SHA256_DIRECTORY] found s = (Inr (), tick s)"
    using check_works [OF w(1) _ x(2), of "[SHA256_DIRECTORY]"] f x(1) by simp
  have inv1: "sweep_inv e expected d V sw (tick s)" "sweep_inv e expected d V sw (tick (tick s))"
    using Cons.prems(1) by (simp_all add: sweep_inv_def)
  from sorted_listing [OF w(1) sweep_distinct [OF inv1(1) w(2)], of ?dir] e obtain names where
    names: "sorted_entries e ?dir (tick s) = (Inr names, tick (tick s))"
      "\<And>n y. (n, y) \<in> set names \<longleftrightarrow> entry_at (?dir @ [n]) (tick s) = Some y" by auto
  have listed: "(n, y) \<in> set names \<longleftrightarrow> map_of d [SHA256_DIRECTORY, a, n] = Some y" for n y
    using names(2) sweep_entries [OF inv1(1), of "[SHA256_DIRECTORY, a, n]"] by (simp add: swept_def)
  from visit_seconds_all [OF sw inv1(2), of names a] listed obtain sw1 s1 where
    one: "visit_seconds e expected a names sw (tick (tick s)) = (Inr sw1, s1)"
      "sweep_inv e expected d (V \<union> (\<Union>g\<in>fst ` set names. files_in d [SHA256_DIRECTORY, a, g])) sw1 s1" by blast
  have "(\<Union>g\<in>fst ` set names. files_in d [SHA256_DIRECTORY, a, g]) =
      {p. length p = 4 \<and> map_of d p \<noteq> None \<and> p ! 1 = a}" (is "?L = ?R")
  proof
    show "?L \<subseteq> ?R"
    proof
      fix p assume "p \<in> ?L"
      then obtain g where "map_of d p \<noteq> None" "p \<noteq> []" "butlast p = [SHA256_DIRECTORY, a, g]" by (auto simp: files_in_def)
      then have "p = [SHA256_DIRECTORY, a, g, last p]" using append_butlast_last_id [of p] by simp
      then obtain n where "p = [SHA256_DIRECTORY, a, g, n]" by blast
      then show "p \<in> ?R" using \<open>map_of d p \<noteq> None\<close> by simp
    qed
    show "?R \<subseteq> ?L"
    proof
      fix p assume p: "p \<in> ?R"
      then obtain y where y: "map_of d p = Some y" "length p = 4" "p ! 1 = a" by auto
      from sweepable_entry [OF sw y(1)] have sh: "shaped p y" "map_of d (butlast p) \<noteq> None" using y(2) by auto
      obtain a' b n where "p = [SHA256_DIRECTORY, a', b, n]" by (rule shaped_file [OF y(2) sh(1)])
      then have pp: "p = [SHA256_DIRECTORY, a, b, n]" using y(3) by simp
      then obtain z where "map_of d [SHA256_DIRECTORY, a, b] = Some z" using sh(2) by auto
      then have "(b, z) \<in> set names" using listed by simp
      then have "b \<in> fst ` set names" by force
      then show "p \<in> ?L" using pp y(1) by (auto simp: files_in_def)
    qed
  qed
  with one(2) have one': "sweep_inv e expected d (V \<union> {p. length p = 4 \<and> map_of d p \<noteq> None \<and> p ! 1 = a}) sw1 s1" by simp
  from Cons.IH [OF one'] Cons.prems(2) obtain sw2 s2 where
    two: "visit_firsts e expected rest sw1 s1 = (Inr sw2, s2)"
      "sweep_inv e expected d (V \<union> {p. length p = 4 \<and> map_of d p \<noteq> None \<and> p ! 1 = a} \<union>
        {p. length p = 4 \<and> map_of d p \<noteq> None \<and> p ! 1 \<in> fst ` set rest}) sw2 s2" by auto
  have "visit_firsts e expected (found # rest) sw s = (Inr sw2, s2)"
    using f two(1) by (simp add: bindS_step [of "check_prefix _ _ _", OF c [unfolded f]]
        bindS_step [of "sorted_entries _ _", OF names(1)] bindS_step [of "visit_seconds _ _ _ _ _", OF one(1)])
  moreover have "V \<union> {p. length p = 4 \<and> map_of d p \<noteq> None \<and> p ! 1 = a} \<union>
        {p. length p = 4 \<and> map_of d p \<noteq> None \<and> p ! 1 \<in> fst ` set rest} =
      V \<union> {p. length p = 4 \<and> map_of d p \<noteq> None \<and> p ! 1 \<in> fst ` set (found # rest)}" using f by auto
  ultimately show ?case using two(2) by auto
qed

lemma ensure_works:
  assumes "works e" "canonical (dk_entries s)" "p = [] \<or> p = [SHA256_DIRECTORY] \<and> entry_at [] s = Some Directory"
  shows "\<exists>s'. ensureDirectory e p secure s = (Inr (), s') \<and> canonical (dk_entries s') \<and>
    (\<forall>q. entry_at q s' = (if q = p then Some Directory else entry_at q s))"
proof (cases "entry_at p s")
  case (Some x)
  have "shaped p x" using Some assms(2) by (auto simp: entry_at_def canonical_def dest!: map_of_SomeD)
  then have x: "x = Directory" using assms(3) by (auto simp: shaped_def)
  have "\<exists>s'. ensureDirectory e p secure s = (Inr (), s') \<and> dk_entries s' = dk_entries s"
    using Some x assms(1)
    by (simp add: ensureDirectory.simps [of e p secure] catchS_def bindS_def lstat_works touch_works returnS_def)
  then show ?thesis using assms(2) Some x by (auto simp: entry_at_def)
next
  case None
  let ?s = "tick (tick s)"
  have parent: "\<exists>s1. (if p = [] then touch e else ensureDirectory e (butlast p) False) (tick s) = (Inr (), s1) \<and> dk_entries s1 = dk_entries s"
    using assms(1,3) by (auto simp: touch_works ensureDirectory.simps [of e "[]" False] catchS_def bindS_def lstat_works returnS_def)
  then obtain s1 where s1: "(if p = [] then touch e else ensureDirectory e (butlast p) False) (tick s) = (Inr (), s1)"
      "dk_entries s1 = dk_entries s" by blast
  have none: "entry_at p s1 = None" using None s1(2) by (simp add: entry_at_def)
  let ?s2 = "tick (tick (tick (add_entry p Directory (tick s1))))"
  have made: "make_directory e p s1 = (Inr (), ?s2)"
    using assms(1) none by (simp add: make_directory_def catchS_def bindS_def fs_mkdir_def syscall_works returnS_def sync_works)
  have inner: "bindS (if p = [] then touch e else ensureDirectory e (butlast p) False) (\<lambda>_. bindS (make_directory e p) (\<lambda>_. lstat e p)) (tick s) =
      (Inr Directory, tick ?s2)"
    using assms(1) by (simp add: bindS_step [of "if p = [] then touch e else ensureDirectory e (butlast p) False", OF s1(1)]
        bindS_step [of "make_directory e p", OF made] lstat_works)
  have "catchS (lstat e p) (\<lambda>x. if \<not> is_missing x then throwS x
       else bindS (if p = [] then touch e else ensureDirectory e (butlast p) False) (\<lambda>_.
            bindS (make_directory e p) (\<lambda>_. lstat e p))) s = (Inr Directory, tick ?s2)"
    using assms(1) None inner by (simp add: catchS_def lstat_works is_missing_def)
  then have "ensureDirectory e p secure s = (Inr (), if secure then tick (tick ?s2) else tick ?s2)"
    using assms(1) unfolding ensureDirectory.simps [of e p secure] by (simp add: bindS_step touch_works returnS_def)
  moreover have "canonical ((p, Directory) # dk_entries s)"
    using assms(2,3) None by (intro canonical_with) (auto simp: entry_at_def shaped_def)
  ultimately show ?thesis using s1(2) by (auto simp: entry_at_def)
qed

definition blobs_of :: "entries \<Rightarrow> string \<Rightarrow> entry option" where
  "blobs_of d digest = map_of d (final_path digest)"

lemma final_of_file:
  assumes "canonical d" "map_of d p = Some x" "length p = 4" "\<not> starts_with TEMPORARY_PREFIX (last p)"
  shows "p = final_path (last p)"
proof -
  have "shaped p x" using assms(1,2) by (auto simp: canonical_def dest!: map_of_SomeD)
  then obtain a b n where "p = [SHA256_DIRECTORY, a, b, n]"
      "if starts_with TEMPORARY_PREFIX n then BLOB_UUID_PATTERN (drop (length TEMPORARY_PREFIX) n)
       else DIGEST_PATTERN n \<and> take 2 n = a \<and> take 2 (drop 2 n) = b" by (rule shaped_file [OF assms(3)])
  then show ?thesis using assms(4) by (simp add: final_path_def blob_directory_def)
qed

lemma sweep_all:
  assumes sw: "sweepable e expected d" and root: "map_of d [SHA256_DIRECTORY] = Some Directory" and s: "dk_entries s = d"
  shows "\<exists>w s'. bindS (sorted_entries e [SHA256_DIRECTORY]) (\<lambda>firsts. visit_firsts e expected firsts
      \<lparr>sp_temporaries = [], sp_orphans = [], sp_corrupt = [], sp_present = []\<rparr>) s = (Inr w, s') \<and>
    sweep_inv e expected d {p. length p = 4 \<and> map_of d p \<noteq> None} w s'"
proof -
  let ?w = "\<lparr>sp_temporaries = [], sp_orphans = [], sp_corrupt = [], sp_present = []\<rparr>"
  have inv: "sweep_inv e expected d {} ?w (tick s)" using s by (auto simp: sweep_inv_def)
  have w: "works e" "canonical d" using sw by (auto simp: sweepable_def)
  have "distinct (map fst (dk_entries s))" "entry_at [SHA256_DIRECTORY] s = Some Directory"
    using w(2) root s by (simp_all add: canonical_def entry_at_def)
  from sorted_listing [OF w(1) this] obtain names where
    names: "sorted_entries e [SHA256_DIRECTORY] s = (Inr names, tick s)"
      "\<And>n x. (n, x) \<in> set names \<longleftrightarrow> map_of d [SHA256_DIRECTORY, n] = Some x" using s by (auto simp: entry_at_def)
  from visit_firsts_all [OF sw inv, of names] names(2) obtain v s' where
    v: "visit_firsts e expected names ?w (tick s) = (Inr v, s')"
      "sweep_inv e expected d ({} \<union> {p. length p = 4 \<and> map_of d p \<noteq> None \<and> p ! 1 \<in> fst ` set names}) v s'" by blast
  have "p ! 1 \<in> fst ` set names" if p: "length p = 4" "map_of d p \<noteq> None" for p
  proof -
    from p obtain x where x: "map_of d p = Some x" by blast
    from sweepable_entry [OF sw x] p(1) have sh: "shaped p x" "map_of d (butlast p) \<noteq> None" by auto
    obtain a b n where pp: "p = [SHA256_DIRECTORY, a, b, n]" by (rule shaped_file [OF p(1) sh(1)])
    then obtain y where "map_of d [SHA256_DIRECTORY, a, b] = Some y" using sh(2) by auto
    from sweepable_entry [OF sw this] obtain z where "map_of d [SHA256_DIRECTORY, a] = Some z" by auto
    then have "(a, z) \<in> set names" using names(2) by simp
    then show ?thesis using pp by force
  qed
  then have "{} \<union> {p. length p = 4 \<and> map_of d p \<noteq> None \<and> p ! 1 \<in> fst ` set names} = {p. length p = 4 \<and> map_of d p \<noteq> None}" by auto
  then show ?thesis using v by (simp add: bindS_step [of "sorted_entries e [SHA256_DIRECTORY]", OF names(1)])
qed

text \<open>Publications one after the other, each with the failures and the crash its environment has.\<close>

fun publications :: "(blob_env \<times> string \<times> (stored_blob \<Rightarrow> unit persist_result)) list \<Rightarrow> disk \<Rightarrow> disk" where
  "publications [] s = s"
| "publications ((e, content, persist) # jobs) s = publications jobs (snd (withPublishedBlob e content persist s))"

lemma publications_canonical: "canonical (dk_entries s) \<Longrightarrow> canonical (dk_entries (publications jobs s))"
  by (induction jobs s rule: publications.induct) (simp, metis publications.simps(2) prod.collapse with_canonical)

lemma normalize_same: "normalizeExpectedBlob x = Inr y \<Longrightarrow> y = x \<and> contentHashPattern (eb_digest x)"
  by (auto simp: normalizeExpectedBlob_def res_simps parser_iffs split: sum.splits)

lemma root_listing:
  assumes "works e" "canonical (dk_entries s)" "entry_at [] s = Some Directory"
  shows "\<exists>names. readdir e [] s = (Inr names, tick s) \<and> list_all (\<lambda>(name, x). name = SHA256_DIRECTORY \<and> x = Directory) names"
proof -
  let ?names = "map (\<lambda>(q, x). (last q, x)) (filter (\<lambda>(q, x). q \<noteq> [] \<and> butlast q = []) (dk_entries s))"
  have "readdir e [] s = (Inr ?names, tick s)" using assms(1,3) by (simp add: readdir_def syscall_works)
  moreover have "n = SHA256_DIRECTORY \<and> x = Directory" if "(n, x) \<in> set ?names" for n x
  proof -
    from that obtain q where q: "(q, x) \<in> set (dk_entries s)" "q \<noteq> []" "butlast q = []" "last q = n" by auto
    then have "q = [n]" using append_butlast_last_id [of q] by simp
    then show ?thesis using q(1) assms(2) by (auto simp: canonical_def shaped_def)
  qed
  ultimately show ?thesis by (fastforce simp: list_all_iff)
qed

lemma unique_sorted_set [simp]: "set (unique_sorted xs) = set xs"
  by (simp add: unique_sorted_def set_dedupe_from)

lemma judged_cases:
  assumes "canonical d" "list_all (\<lambda>x. contentHashPattern (eb_digest x)) expected"
  shows "last ` {p. length p = 4 \<and> map_of d p \<noteq> None \<and> judged e expected d p = Some b} =
    {n. \<exists>x c. js_map eb_digest expected n = Some x \<and> map_of d (final_path n) = Some (Regular c) \<and>
      verified e n (eb_sizeBytes x) c = b}" (is "?L = ?R")
proof
  show "?L \<subseteq> ?R"
  proof
    fix n assume "n \<in> ?L"
    then obtain p y where p: "n = last p" "length p = 4" "map_of d p = Some y" "judged e expected d p = Some b" by auto
    from p(3,4) obtain x c where x: "js_map eb_digest expected n = Some x" "y = Regular c"
        "verified e (eb_digest x) (eb_sizeBytes x) c = b"
      unfolding judged_def p(1) by (auto split: option.splits entry.splits)
    from js_map_Some [OF x(1)] have e: "x \<in> set expected" "eb_digest x = n" by auto
    have "contentHashPattern n" using assms(2) e by (auto simp: list_all_iff)
    then have "\<not> starts_with TEMPORARY_PREFIX (last p)" using digest_not_temporary(1) p(1) by simp
    then have "p = final_path n" using final_of_file [OF assms(1) p(3,2)] p(1) by simp
    then show "n \<in> ?R" using x e(2) p(3) by blast
  qed
  show "?R \<subseteq> ?L"
  proof
    fix n assume "n \<in> ?R"
    then obtain x c where x: "js_map eb_digest expected n = Some x" "map_of d (final_path n) = Some (Regular c)"
      "verified e n (eb_sizeBytes x) c = b" by blast
    have "last (final_path n) = n" by (simp add: final_path_def)
    moreover have "judged e expected d (final_path n) = Some b"
      using x js_map_Some [OF x(1)] by (simp add: judged_def final_path_def)
    ultimately show "n \<in> ?L" using x(2) long_paths(1) [of n] by (intro rev_image_eqI [of "final_path n"]) auto
  qed
qed

lemma reconcile_exactly:
  assumes can: "canonical (dk_entries s)" and "works e"
    and "list_all (\<lambda>x. is_ok (normalizeExpectedBlob x)) expected" and "\<not> conflicting_sizes [] expected"
  shows "\<exists>r s'. reconcile e expected s = (Inr r, s') \<and>
    (\<forall>p. length p = 4 \<longrightarrow> entry_at p s' = (if last p \<in> eb_digest ` set expected then entry_at p s else None)) \<and>
    set (br_missingDigests r) = {n \<in> eb_digest ` set expected. entry_at (final_path n) s = None} \<and>
    set (br_corruptDigests r) = {n. \<exists>x c. js_map eb_digest expected n = Some x \<and>
      entry_at (final_path n) s = Some (Regular c) \<and> \<not> verified e n (eb_sizeBytes x) c}"
proof -
  have "is_ok (mapE normalizeExpectedBlob expected)" using assms(3) by (simp add: mapE_Inr_iff list_all_iff)
  then have norm: "mapE normalizeExpectedBlob expected = Inr expected"
    using mapE_same [of expected normalizeExpectedBlob] normalize_same by (metis Inr_projr)
  have hashes: "list_all (\<lambda>x. contentHashPattern (eb_digest x)) expected"
    using assms(3) normalize_same by (auto simp: list_all_iff is_ok_iff)
  obtain s1 where s1: "ensureDirectory e [] True s = (Inr (), s1)" "canonical (dk_entries s1)"
      "\<And>q. entry_at q s1 = (if q = [] then Some Directory else entry_at q s)"
    using ensure_works [OF assms(2) assms(1), of "[]"] by blast
  obtain s2 where s2: "ensureDirectory e [SHA256_DIRECTORY] True s1 = (Inr (), s2)" "canonical (dk_entries s2)"
      "\<And>q. entry_at q s2 = (if q = [SHA256_DIRECTORY] then Some Directory else entry_at q s1)"
    using ensure_works [OF assms(2) s1(2) disjI2 [OF conjI [OF refl s1(3) [of "[]", simplified]]], of True] by blast
  have same: "entry_at p s2 = entry_at p s" if "length p = 4" for p using that s1(3) s2(3) by auto
  have "entry_at [] s2 = Some Directory" using s1(3) s2(3) by simp
  from root_listing [OF assms(2) s2(2) this] obtain names where
    names: "readdir e [] s2 = (Inr names, tick s2)" "list_all (\<lambda>(name, x). name = SHA256_DIRECTORY \<and> x = Directory) names" by blast
  let ?d = "dk_entries s2"
  have sw: "sweepable e expected ?d" using assms(2) hashes s2(2) by (simp add: sweepable_def)
  have "map_of ?d [SHA256_DIRECTORY] = Some Directory" using s2(3) [of "[SHA256_DIRECTORY]"] by (simp add: entry_at_def)
  from sweep_all [OF sw this, of "tick s2"] obtain w s' where
    run: "bindS (sorted_entries e [SHA256_DIRECTORY]) (\<lambda>firsts. visit_firsts e expected firsts
      \<lparr>sp_temporaries = [], sp_orphans = [], sp_corrupt = [], sp_present = []\<rparr>) (tick s2) = (Inr w, s')"
    and inv: "sweep_inv e expected ?d {p. length p = 4 \<and> map_of ?d p \<noteq> None} w s'" by auto
  let ?r = "\<lparr>br_removedTemporaryPaths = unique_sorted (sp_temporaries w),
         br_removedOrphanPaths = unique_sorted (sp_orphans w),
         br_missingDigests = unique_sorted (filter (\<lambda>d. d \<notin> set (sp_present w) \<and> d \<notin> set (sp_corrupt w)) (map eb_digest expected)),
         br_corruptDigests = unique_sorted (sp_corrupt w)\<rparr>"
  have "reconcile e expected s = bindS (bindS (sorted_entries e [SHA256_DIRECTORY]) (\<lambda>firsts. visit_firsts e expected firsts
      \<lparr>sp_temporaries = [], sp_orphans = [], sp_corrupt = [], sp_present = []\<rparr>)) (\<lambda>sw.
       returnS \<lparr>br_removedTemporaryPaths = unique_sorted (sp_temporaries sw),
         br_removedOrphanPaths = unique_sorted (sp_orphans sw),
         br_missingDigests = unique_sorted (filter (\<lambda>d. d \<notin> set (sp_present sw) \<and> d \<notin> set (sp_corrupt sw)) (map eb_digest expected)),
         br_corruptDigests = unique_sorted (sp_corrupt sw)\<rparr>) (tick s2)"
    unfolding reconcile_def norm liftB_bind bindS_assoc
    using names(2) assms(4) by (simp add: bindS_step [of "ensureDirectory _ _ _", OF s1(1)]
        bindS_step [of "ensureDirectory _ _ _", OF s2(1)] bindS_step [of "readdir _ _", OF names(1)])
  also have "\<dots> = (Inr ?r, s')" using run by (simp add: bindS_def [of "bindS _ _"] returnS_def)
  finally have rec: "reconcile e expected s = (Inr ?r, s')" .
  have kept: "entry_at p s' = (if last p \<in> eb_digest ` set expected then entry_at p s else None)" if "length p = 4" for p
    using sweep_entries [OF inv, of p] that same [OF that] by (auto simp: swept_def entry_at_def)
  have final: "map_of ?d (final_path n) = entry_at (final_path n) s" for n
    using same [OF long_paths(1)] by (simp add: entry_at_def)
  have regular: "map_of ?d (final_path n) = Some x \<Longrightarrow> \<exists>c. x = Regular c" for n x
  proof -
    assume "map_of ?d (final_path n) = Some x"
    then have "shaped (final_path n) x" using sweepable_entry [OF sw] by blast
    then show ?thesis by (auto simp: shaped_def final_path_def blob_directory_def is_regular_def split: entry.splits)
  qed
  have "set (sp_corrupt w) = {n. \<exists>x c. js_map eb_digest expected n = Some x \<and>
      entry_at (final_path n) s = Some (Regular c) \<and> \<not> verified e n (eb_sizeBytes x) c}"
    using inv judged_cases [OF s2(2) hashes, of e False] unfolding sweep_inv_def final by simp
  moreover have "set (sp_present w) = {n. \<exists>x c. js_map eb_digest expected n = Some x \<and>
      entry_at (final_path n) s = Some (Regular c) \<and> verified e n (eb_sizeBytes x) c}"
    using inv judged_cases [OF s2(2) hashes, of e True] unfolding sweep_inv_def final by simp
  ultimately have there: "n \<in> set (sp_present w) \<or> n \<in> set (sp_corrupt w) \<longleftrightarrow> entry_at (final_path n) s \<noteq> None"
    if "n \<in> eb_digest ` set expected" for n
    using that regular [of n] js_map_None_iff [of eb_digest expected n] unfolding final by fastforce
  have "set (br_missingDigests ?r) = {n \<in> eb_digest ` set expected. \<not> (n \<in> set (sp_present w) \<or> n \<in> set (sp_corrupt w))}" by auto
  also have "\<dots> = {n \<in> eb_digest ` set expected. entry_at (final_path n) s = None}" using there by blast
  finally have "set (br_missingDigests ?r) = {n \<in> eb_digest ` set expected. entry_at (final_path n) s = None}" .
  then show ?thesis using rec kept \<open>set (sp_corrupt w) = _\<close> by (intro exI [of _ ?r] exI [of _ s']) simp
qed

text \<open>C14: A reconciliation restores exactly what is expected. After any number of publications on a disk of the store,
  whichever calls failed and wherever the process stopped, a reconciliation on a file system that works succeeds: of the
  files it leaves precisely those under an expected digest, untouched; it reports missing precisely the expected digests
  that have no file, and corrupt precisely those whose file has another size or digest than expected.\<close>

theorem reconciliation_is_exact:
  assumes "canonical (dk_entries s0)" and "s = publications jobs s0" and "works e"
    and "list_all (\<lambda>x. is_ok (normalizeExpectedBlob x)) expected" and "\<not> conflicting_sizes [] expected"
  shows "\<exists>r s'. reconcile e expected s = (Inr r, s') \<and>
    (\<forall>p. length p = 4 \<longrightarrow> entry_at p s' = (if last p \<in> eb_digest ` set expected then entry_at p s else None)) \<and>
    set (br_missingDigests r) = {n \<in> eb_digest ` set expected. entry_at (final_path n) s = None} \<and>
    set (br_corruptDigests r) = {n. \<exists>x c. js_map eb_digest expected n = Some x \<and>
      entry_at (final_path n) s = Some (Regular c) \<and> \<not> verified e n (eb_sizeBytes x) c}"
  unfolding assms(2) by (rule reconcile_exactly [OF publications_canonical [OF assms(1)] assms(3-5)])

section \<open>A sample store\<close>

definition sampleDigest :: "string \<Rightarrow> string" where
  "sampleDigest c = replicate 64 (if c = ''hello'' then CHR ''a'' else CHR ''b'')"

text \<open>An environment in which the n-th call has the given fate and every other call works.\<close>

definition faultyAt :: "nat \<Rightarrow> fate \<Rightarrow> blob_env" where
  "faultyAt n f = \<lparr>be_digest = sampleDigest, be_fate = (\<lambda>k. if k = n then f else Works), be_partial = (\<lambda>_. 2),
     be_ids = (\<lambda>n. ''00000000-0000-4000-8000-00000000000'' @ [char_of (48 + n)]), be_now = (\<lambda>_. 5), be_patience = 9\<rparr>"

definition emptyDisk :: disk where
  "emptyDisk = \<lparr>dk_entries = [], dk_calls = 0, dk_ids = 0, dk_clock = 0\<rparr>"

definition publishHello :: "blob_env \<Rightarrow> (blob_failure + unit) \<times> disk" where
  "publishHello e = withPublishedBlob e ''hello'' (\<lambda>_. Persisted ()) emptyDisk"

lemma fault_free_works: "works (faultyAt n Works)"
  by (simp add: works_def faultyAt_def fun_eq_iff)

lemma empty_canonical: "canonical (dk_entries emptyDisk)"
  by (simp add: canonical_def emptyDisk_def)

theorem publication_is_atomic_witness:
  "entry_at (final_path (sampleDigest ''hello'')) (snd (publishHello (faultyAt 30 Stops))) \<in> {None, Some Directory, Some (Regular ''hello'')}"
proof -
  obtain r s' where run: "publishHello (faultyAt 30 Stops) = (r, s')" by fastforce
  have "be_digest (faultyAt 30 Stops) ''hello'' = sampleDigest ''hello''" "\<not> is_temporary (final_path (sampleDigest ''hello''))"
    "\<And>q. entry_at q emptyDisk = None" by (simp add: faultyAt_def, code_simp, simp add: entry_at_def emptyDisk_def)
  then show ?thesis
    using publication_is_atomic [OF run [unfolded publishHello_def], of "final_path (sampleDigest ''hello'')"] run by auto
qed

lemma hello_published: "is_ok (fst (publishHello (faultyAt 0 Works)))"
  by code_simp

theorem published_reads_back_witness:
  "\<exists>c s''. readVerified (faultyAt 0 Works) (expectation (sampleDigest ''hello'') 5) (snd (publishHello (faultyAt 0 Works))) =
     (Inr c, s'') \<and> c = ''hello''"
proof -
  have "withPublishedBlob (faultyAt 0 Works) ''hello'' (\<lambda>_. Persisted ()) emptyDisk =
      (Inr (projr (fst (publishHello (faultyAt 0 Works)))), snd (publishHello (faultyAt 0 Works)))"
    using Inr_projr [OF hello_published] by (simp add: publishHello_def prod_eq_iff)
  from published_reads_back [OF this fault_free_works [of 0] refl] show ?thesis
    by (simp add: faultyAt_def entry_at_def emptyDisk_def)
qed

text \<open>A process that stops in the middle of the write leaves a torn temporary, which the reconciliation removes.\<close>

lemma torn_temporary:
  "map snd (filter (\<lambda>(p, x). is_temporary p) (dk_entries (snd (publishHello (faultyAt 34 Stops))))) = [Regular ''he'']"
  by code_simp

theorem reconciliation_is_exact_witness:
  "is_ok (fst (reconcile (faultyAt 0 Works) [expectation (sampleDigest ''hello'') 5]
     (publications [(faultyAt 34 Stops, ''hello'', \<lambda>_. Persisted ())] emptyDisk)))"
proof -
  have "list_all (\<lambda>x. is_ok (normalizeExpectedBlob x)) [expectation (sampleDigest ''hello'') 5]"
    "\<not> conflicting_sizes [] [expectation (sampleDigest ''hello'') 5]" by code_simp+
  from reconciliation_is_exact [OF empty_canonical refl fault_free_works [of 0] this, of "[(faultyAt 34 Stops, ''hello'', \<lambda>_. Persisted ())]"]
  show ?thesis by auto
qed

end
