(* ===== verification/Recovery.thy ===== *)
theory Recovery
  imports Scheduler_Store Blob_Store
begin

text \<open>
  \<^verbatim>\<open>packages/core/src/recovery.ts\<close> and \<^verbatim>\<open>packages/adapters/src/recovery-coordinator.ts\<close>: the ordered recovery
  of a host after a crash, with one reconciler per phase whose failures stay in its phase, and the compaction
  and purge passes. A reconciler is a function of the state of the host that may throw an error with a message
  and a node. The reconcilers of the blob store and of the scheduler leases are built on \<open>Blob_Store\<close> and
  \<open>Scheduler_Store\<close>. Logger lines and the clock that only times them are left out.
\<close>

section \<open>Phases and reports\<close>

datatype recovery_phase =
    Ph_blobs | Ph_leases | Ph_sandboxes | Ph_workspaces | Ph_vcs_oplog | Ph_gates | Ph_pull_requests
  | Ph_ci | Ph_restacks | Ph_landing_receipts

definition RECOVERY_PHASE_ORDER :: "recovery_phase list" where
  "RECOVERY_PHASE_ORDER = [Ph_blobs, Ph_leases, Ph_sandboxes, Ph_workspaces, Ph_vcs_oplog, Ph_gates, Ph_pull_requests,
     Ph_ci, Ph_restacks, Ph_landing_receipts]"

definition orderedPhases :: "recovery_phase list" where
  "orderedPhases = RECOVERY_PHASE_ORDER"

fun phase_name :: "recovery_phase \<Rightarrow> string" where
  "phase_name Ph_blobs = ''blobs''"
| "phase_name Ph_leases = ''leases''"
| "phase_name Ph_sandboxes = ''sandboxes''"
| "phase_name Ph_workspaces = ''workspaces''"
| "phase_name Ph_vcs_oplog = ''vcs_oplog''"
| "phase_name Ph_gates = ''gates''"
| "phase_name Ph_pull_requests = ''pull_requests''"
| "phase_name Ph_ci = ''ci''"
| "phase_name Ph_restacks = ''restacks''"
| "phase_name Ph_landing_receipts = ''landing_receipts''"

datatype boundary_status = Converged | Divergent | Errored

record recovery_boundary =
  yb_phase :: recovery_phase
  yb_boundary :: string
  yb_beforeId :: "string option"
  yb_afterId :: "string option"
  yb_status :: boundary_status

record recovery_error =
  ye_phase :: recovery_phase
  ye_message :: string
  ye_nodeId :: "string option"
  ye_remediation :: string

record recovery_report =
  yr_phases :: "recovery_boundary list"
  yr_converged :: bool
  yr_errors :: "recovery_error list"
  yr_skippedPhases :: "recovery_phase list"

record retention_policy =
  yp_eventRetentionDays :: number
  yp_blobRetentionDays :: number
  yp_transcriptRetentionDays :: number
  yp_compactionIntervalDays :: number
  yp_purgeAfterDays :: number

datatype recovery_failure =
    Type_error | Phase_failed | Convergence_failed | Compaction_failed | Purge_failed

definition requireNonNegativeDays :: "number \<Rightarrow> recovery_failure + unit" where
  "requireNonNegativeDays v = (if \<not> isSafeInteger v \<or> int_of_number v < 0 then Inl Type_error else Inr ())"

definition retentionPolicy :: "retention_policy \<Rightarrow> recovery_failure + retention_policy" where
  "retentionPolicy p =
     bindE (requireNonNegativeDays (yp_eventRetentionDays p)) (\<lambda>_.
     bindE (requireNonNegativeDays (yp_blobRetentionDays p)) (\<lambda>_.
     bindE (requireNonNegativeDays (yp_transcriptRetentionDays p)) (\<lambda>_.
     bindE (requireNonNegativeDays (yp_compactionIntervalDays p)) (\<lambda>_.
     bindE (requireNonNegativeDays (yp_purgeAfterDays p)) (\<lambda>_. Inr p)))))"

definition MILLIS_PER_DAY :: int where
  "MILLIS_PER_DAY = 86400000"

text \<open>The cadence, over a policy that has passed \<open>retentionPolicy\<close>; the product is rounded to a double.\<close>

definition cadence_due :: "number \<Rightarrow> int \<Rightarrow> int option \<Rightarrow> bool" where
  "cadence_due interval now lastRunAtMs = (case lastRunAtMs of
      None \<Rightarrow> True
    | Some t \<Rightarrow> \<not> number_less (number_of_int (now - t)) (double_of_int (int_of_number interval * MILLIS_PER_DAY)))"

definition shouldCompact :: "retention_policy \<Rightarrow> int \<Rightarrow> int option \<Rightarrow> bool" where
  "shouldCompact p now lastRunAtMs =
     (if int_of_number (yp_compactionIntervalDays p) \<le> 0 then False
      else cadence_due (yp_compactionIntervalDays p) now lastRunAtMs)"

definition shouldPurge :: "retention_policy \<Rightarrow> int \<Rightarrow> int option \<Rightarrow> bool" where
  "shouldPurge p now lastRunAtMs =
     (if int_of_number (yp_purgeAfterDays p) \<le> 0 \<or> int_of_number (yp_compactionIntervalDays p) \<le> 0 then False
      else cadence_due (yp_compactionIntervalDays p) now lastRunAtMs)"

definition recoveryBoundary ::
    "recovery_phase \<Rightarrow> string \<Rightarrow> string option \<Rightarrow> string option \<Rightarrow> boundary_status \<Rightarrow> recovery_failure + recovery_boundary" where
  "recoveryBoundary phase boundary beforeId afterId status =
     (if length boundary = 0 then Inl Type_error
      else Inr \<lparr>yb_phase = phase, yb_boundary = boundary, yb_beforeId = beforeId, yb_afterId = afterId, yb_status = status\<rparr>)"

definition recoveryError ::
    "recovery_phase \<Rightarrow> string \<Rightarrow> string option \<Rightarrow> string \<Rightarrow> recovery_failure + recovery_error" where
  "recoveryError phase message nodeId remediation =
     (if length message = 0 then Inl Type_error
      else if length remediation = 0 then Inl Type_error
      else Inr \<lparr>ye_phase = phase, ye_message = message, ye_nodeId = nodeId, ye_remediation = remediation\<rparr>)"

definition recoveryReport :: "recovery_boundary list \<Rightarrow> recovery_error list \<Rightarrow> recovery_phase list \<Rightarrow> recovery_report" where
  "recoveryReport phases errors skipped =
     \<lparr>yr_phases = phases, yr_converged = (length errors = 0 \<and> list_all (\<lambda>b. yb_status b = Converged) phases),
      yr_errors = errors, yr_skippedPhases = skipped\<rparr>"

section \<open>The coordinator\<close>

record thrown =
  yt_message :: string
  yt_nodeId :: "string option"

record phase_reconciliation =
  yc_boundary :: string
  yc_beforeId :: "string option"
  yc_afterId :: "string option"
  yc_reconciledCount :: nat
  yc_divergentCount :: nat

type_synonym 's reconciler = "'s \<Rightarrow> (thrown + phase_reconciliation) \<times> 's"

record 's recovery_options =
  yo_reconcilers :: "recovery_phase \<Rightarrow> 's reconciler option"
  yo_isolateErrors :: bool
  yo_failIfNotConverged :: bool

fun remediationForPhase :: "recovery_phase \<Rightarrow> string" where
  "remediationForPhase Ph_blobs = ''Inspect the blob store for corrupt/missing digests and re-publish referenced content.''"
| "remediationForPhase Ph_leases = ''Inspect stale scheduler leases and confirm the owning host is live or decommissioned.''"
| "remediationForPhase Ph_sandboxes = ''Destroy orphan sandboxes whose owning attempt is no longer live.''"
| "remediationForPhase Ph_workspaces = ''Drive stopped/abandoned workspaces to a terminal state (archive or cleanup).''"
| "remediationForPhase Ph_vcs_oplog = ''Reconcile the jj operation log against durable bindings; repair divergent changes.''"
| "remediationForPhase Ph_gates = ''Invalidate gate receipts whose head changed since the gate ran and re-run them.''"
| "remediationForPhase Ph_pull_requests = ''Reconcile PR state; archive bindings for merged/closed PRs.''"
| "remediationForPhase Ph_ci = ''Invalidate stale CI evidence and re-observe the current head.''"
| "remediationForPhase Ph_restacks = ''Resume or abort incomplete restacks; preserve durable restack progress.''"
| "remediationForPhase Ph_landing_receipts = ''Reconstruct missing landing receipts for merged PRs from GitHub state.''"

text \<open>The message of the \<open>TypeError\<close> of a boundary without a name, which the same \<open>catch\<close> gets.\<close>

definition unnamed_boundary :: thrown where
  "unnamed_boundary = \<lparr>yt_message = ''recovery boundary name must be non-empty'', yt_nodeId = None\<rparr>"

text \<open>The \<open>catch\<close> of the loop.\<close>

definition phase_error ::
    "bool \<Rightarrow> recovery_phase \<Rightarrow> thrown \<Rightarrow> recovery_failure + recovery_boundary \<times> recovery_error option" where
  "phase_error isolate phase t =
     bindE (recoveryError phase (yt_message t) (yt_nodeId t) (remediationForPhase phase)) (\<lambda>err.
     bindE (guardE isolate Phase_failed) (\<lambda>_.
     bindE (recoveryBoundary phase (phase_name phase) None None Errored) (\<lambda>b. Inr (b, Some err))))"

definition run_phase ::
    "bool \<Rightarrow> recovery_phase \<Rightarrow> 's reconciler \<Rightarrow> 's \<Rightarrow> (recovery_failure + recovery_boundary \<times> recovery_error option) \<times> 's" where
  "run_phase isolate phase reconciler s = (case reconciler s of
      (Inl t, s') \<Rightarrow> (phase_error isolate phase t, s')
    | (Inr result, s') \<Rightarrow>
        let status = (if yc_divergentCount result > 0 then Divergent else Converged) in
        (case recoveryBoundary phase (yc_boundary result) (yc_beforeId result) (yc_afterId result) status of
          Inl _ \<Rightarrow> phase_error isolate phase unnamed_boundary
        | Inr b \<Rightarrow> Inr (b, None), s'))"

record progress =
  yg_boundaries :: "recovery_boundary list"
  yg_errors :: "recovery_error list"
  yg_skipped :: "recovery_phase list"

fun phase_loop :: "'s recovery_options \<Rightarrow> recovery_phase list \<Rightarrow> progress \<Rightarrow> 's \<Rightarrow> (recovery_failure + progress) \<times> 's" where
  "phase_loop opts [] g s = (Inr g, s)"
| "phase_loop opts (phase # phases) g s = (case yo_reconcilers opts phase of
      None \<Rightarrow> phase_loop opts phases (g\<lparr>yg_skipped := yg_skipped g @ [phase]\<rparr>) s
    | Some reconciler \<Rightarrow> (case run_phase (yo_isolateErrors opts) phase reconciler s of
        (Inl e, s') \<Rightarrow> (Inl e, s')
      | (Inr (b, err), s') \<Rightarrow> phase_loop opts phases
          (g\<lparr>yg_boundaries := yg_boundaries g @ [b],
             yg_errors := yg_errors g @ (case err of None \<Rightarrow> [] | Some x \<Rightarrow> [x])\<rparr>) s'))"

definition recover :: "'s recovery_options \<Rightarrow> 's \<Rightarrow> (recovery_failure + recovery_report) \<times> 's" where
  "recover opts s = (case phase_loop opts orderedPhases \<lparr>yg_boundaries = [], yg_errors = [], yg_skipped = []\<rparr> s of
      (Inl e, s') \<Rightarrow> (Inl e, s')
    | (Inr g, s') \<Rightarrow>
        let report = recoveryReport (yg_boundaries g) (yg_errors g) (yg_skipped g) in
        (if yo_failIfNotConverged opts \<and> \<not> yr_converged report then Inl Convergence_failed else Inr report, s'))"

text \<open>A pass over a host; \<open>None\<close> is a coordinator without the port. The same shape is the compactor and the purger.\<close>

definition retention_pass ::
    "recovery_failure \<Rightarrow> (retention_policy \<Rightarrow> int \<Rightarrow> 's \<Rightarrow> (thrown + 'r) \<times> 's) option \<Rightarrow> int \<Rightarrow> retention_policy \<Rightarrow> 's \<Rightarrow>
     (recovery_failure + 'r) \<times> 's" where
  "retention_pass failure port now p s = (case port of
      None \<Rightarrow> (Inl failure, s)
    | Some run \<Rightarrow> (case retentionPolicy p of
        Inl _ \<Rightarrow> (Inl failure, s)
      | Inr policy \<Rightarrow> (case run policy now s of (Inl _, s') \<Rightarrow> (Inl failure, s') | (Inr r, s') \<Rightarrow> (Inr r, s'))))"

definition compact ::
    "(retention_policy \<Rightarrow> int \<Rightarrow> 's \<Rightarrow> (thrown + 'r) \<times> 's) option \<Rightarrow> int \<Rightarrow> retention_policy \<Rightarrow> 's \<Rightarrow> (recovery_failure + 'r) \<times> 's" where
  "compact compactor now p s = retention_pass Compaction_failed compactor now p s"

definition purge ::
    "(retention_policy \<Rightarrow> int \<Rightarrow> 's \<Rightarrow> (thrown + 'r) \<times> 's) option \<Rightarrow> int \<Rightarrow> retention_policy \<Rightarrow> 's \<Rightarrow> (recovery_failure + 'r) \<times> 's" where
  "purge purger now p s = retention_pass Purge_failed purger now p s"

section \<open>The reconcilers of the stores\<close>



definition workspaceReconciler :: "('s \<Rightarrow> (thrown + 'receipt list) \<times> 's) \<Rightarrow> 's reconciler" where
  "workspaceReconciler recoverAll s = (case recoverAll s of
      (Inl t, s') \<Rightarrow> (Inl t, s')
    | (Inr receipts, s') \<Rightarrow> (Inr \<lparr>yc_boundary = ''workspace'', yc_beforeId = None, yc_afterId = None,
        yc_reconciledCount = length receipts, yc_divergentCount = 0\<rparr>, s'))"

text \<open>The state of a host, as far as the modelled reconcilers use it; other reconcilers act on the rest.\<close>

record 'r host =
  yh_disk :: disk
  yh_db :: sched_db
  yh_rest :: 'r




section \<open>Order and isolation\<close>

lemma remediation_present [simp]: "remediationForPhase p \<noteq> []"
  by (cases p) simp_all

lemma phase_name_present [simp]: "phase_name p \<noteq> []"
  by (cases p) simp_all









text \<open>The documented promise has one gap: a thrown error whose message is empty makes \<open>recoveryError\<close> itself throw,
  inside the \<open>catch\<close> and before the isolation is looked at, so that the remaining phases do not run.\<close>

definition emptyMessage :: "nat recovery_options" where
  "emptyMessage = \<lparr>yo_reconcilers = (\<lambda>p. if p = Ph_blobs then Some (\<lambda>s. (Inl \<lparr>yt_message = [], yt_nodeId = None\<rparr>, s))
       else Some (\<lambda>s. (Inr \<lparr>yc_boundary = phase_name p, yc_beforeId = None, yc_afterId = None,
         yc_reconciledCount = 0, yc_divergentCount = 0\<rparr>, Suc s))),
     yo_isolateErrors = True, yo_failIfNotConverged = False\<rparr>"

lemma empty_message_aborts: "recover emptyMessage 0 = (Inl Type_error, 0)"
  by code_simp

section \<open>What the lease phase settles\<close>











section \<open>A converged host\<close>











section \<open>Samples\<close>







end
