(* ===== verification/Spec2Isabelle.thy ===== *)
theory Spec2Isabelle
  imports Task_Tree Provider_Admission Restack Landing Execution Elevation Node_Split Blob_Store Recovery
begin

text \<open>Root.\<close>

end
